(* ===== verification/Prelude.thy ===== *)
theory Prelude
  imports Main "HOL-Library.Word"
begin

unbundle bit_operations_syntax

text \<open>
  Shared ground of the development: bytes, the fixed-width integer conversions of Go, the result
  type of fallible Go code, and the generic lemmas about them that the component theories use.

  Go code either returns a value, returns a non-nil \<^verbatim>\<open>error\<close>, or stops with a run-time panic
  (an index out of range, a nil dereference). A result is therefore \<open>'e failure + 'a\<close>:
  \<open>Inl (GoErr e)\<close> is a returned error, \<open>Inl GoPanic\<close> a panic, \<open>Inr x\<close> a normal return.
  Signed integers are kept as \<open>int\<close>, with the two's complement wrap-around of \<^verbatim>\<open>int32\<close> and
  \<^verbatim>\<open>int64\<close> written out by \<open>wrap32\<close> and \<open>wrap64\<close>.
\<close>

named_theorems go_simps \<open>rewriting of results, binds and guarded accesses\<close>
named_theorems wrap_simps \<open>conversions to fixed-width integers that do not wrap\<close>

type_synonym byte = "8 word"
type_synonym bytes = "byte list"

section \<open>Results\<close>

datatype 'e failure = GoErr 'e | GoPanic

type_synonym ('e, 'a) result = "'e failure + 'a"

abbreviation raise :: "'e \<Rightarrow> ('e, 'a) result" where
  "raise e \<equiv> Inl (GoErr e)"

abbreviation panic :: "('e, 'a) result" where
  "panic \<equiv> Inl GoPanic"

definition bindE :: "('e, 'a) result \<Rightarrow> ('a \<Rightarrow> ('e, 'b) result) \<Rightarrow> ('e, 'b) result" where
  "bindE m f = (case m of Inl e \<Rightarrow> Inl e | Inr x \<Rightarrow> f x)"

text \<open>Indexing a slice: Go panics out of range, for a negative index too.\<close>

definition at :: "'a list \<Rightarrow> int \<Rightarrow> ('e, 'a) result" where
  "at xs i = (if 0 \<le> i \<and> i < int (length xs) then Inr (xs ! nat i) else panic)"

text \<open>\<^verbatim>\<open>xs[lo:hi]\<close>; the bound is the length, as for the slices the model builds.\<close>

definition slice :: "'a list \<Rightarrow> int \<Rightarrow> int \<Rightarrow> ('e, 'a list) result" where
  "slice xs lo hi = (if 0 \<le> lo \<and> lo \<le> hi \<and> hi \<le> int (length xs)
     then Inr (take (nat (hi - lo)) (drop (nat lo) xs)) else panic)"

text \<open>A counted loop whose body may fail.\<close>

primrec iterE :: "nat \<Rightarrow> ('s \<Rightarrow> ('e, 's) result) \<Rightarrow> 's \<Rightarrow> ('e, 's) result" where
  "iterE 0 f s = Inr s"
| "iterE (Suc n) f s = bindE (f s) (iterE n f)"

section \<open>Fixed-width integers\<close>

definition wrap32 :: "int \<Rightarrow> int" where
  "wrap32 x = signed_take_bit 31 x"

definition wrap64 :: "int \<Rightarrow> int" where
  "wrap64 x = signed_take_bit 63 x"

text \<open>The value of a byte string read in little-endian order.\<close>

primrec leVal :: "bytes \<Rightarrow> int" where
  "leVal [] = 0"
| "leVal (b # bs) = uint b + 256 * leVal bs"

section \<open>Lemmas about results\<close>

lemma bindE_Inl [simp, go_simps]: "bindE (Inl e) f = Inl e"
  by (simp add: bindE_def)

lemma bindE_Inr [simp, go_simps]: "bindE (Inr x) f = f x"
  by (simp add: bindE_def)

lemma bindE_eq_Inr [go_simps]: "bindE m f = Inr y \<longleftrightarrow> (\<exists>x. m = Inr x \<and> f x = Inr y)"
  by (cases m) (auto simp: bindE_def)

lemma bindE_eq_Inl [go_simps]: "bindE m f = Inl e \<longleftrightarrow> m = Inl e \<or> (\<exists>x. m = Inr x \<and> f x = Inl e)"
  by (cases m) (auto simp: bindE_def)

lemma bindE_assoc: "bindE (bindE m f) g = bindE m (\<lambda>x. bindE (f x) g)"
  by (cases m) simp_all

lemma bindE_cong [fundef_cong]:
  "m = m' \<Longrightarrow> (\<And>x. m' = Inr x \<Longrightarrow> f x = f' x) \<Longrightarrow> bindE m f = bindE m' f'"
  by (cases m') simp_all

lemma bindE_split:
  "P (bindE m f) \<longleftrightarrow> (\<forall>e. m = Inl e \<longrightarrow> P (Inl e)) \<and> (\<forall>x. m = Inr x \<longrightarrow> P (f x))"
  by (cases m) auto

lemma at_in [go_simps]: "0 \<le> i \<Longrightarrow> i < int (length xs) \<Longrightarrow> at xs i = Inr (xs ! nat i)"
  by (simp add: at_def)

lemma at_int [simp]: "n < length xs \<Longrightarrow> at xs (int n) = Inr (xs ! n)"
  by (simp add: at_def)

lemma at_eq_Inr: "at xs i = Inr x \<longleftrightarrow> 0 \<le> i \<and> i < int (length xs) \<and> x = xs ! nat i"
  by (auto simp: at_def)

lemma at_never_errs [simp]: "at xs i \<noteq> raise e"
  by (simp add: at_def)

lemma slice_never_errs [simp]: "slice xs lo hi \<noteq> raise e"
  by (simp add: slice_def)

section \<open>Lemmas about fixed-width integers\<close>

lemma wrap32_id [wrap_simps]: "- (2 ^ 31) \<le> x \<Longrightarrow> x < 2 ^ 31 \<Longrightarrow> wrap32 x = x"
  by (simp add: wrap32_def signed_take_bit_int_eq_self)

lemma wrap64_id [wrap_simps]: "- (2 ^ 63) \<le> x \<Longrightarrow> x < 2 ^ 63 \<Longrightarrow> wrap64 x = x"
  by (simp add: wrap64_def signed_take_bit_int_eq_self)

lemma wrap32_bounds: "- (2 ^ 31) \<le> wrap32 x" "wrap32 x < 2 ^ 31"
  using signed_take_bit_int_greater_eq_minus_exp [of 31 x] signed_take_bit_int_less_exp [of 31 x]
  by (simp_all add: wrap32_def)

lemma wrap64_bounds: "- (2 ^ 63) \<le> wrap64 x" "wrap64 x < 2 ^ 63"
  using signed_take_bit_int_greater_eq_minus_exp [of 63 x] signed_take_bit_int_less_exp [of 63 x]
  by (simp_all add: wrap64_def)

lemma wrap64_idem [simp]: "wrap64 (wrap64 x) = wrap64 x"
  by (simp add: wrap64_def)

lemma uint_byte_bounds [simp]: "0 \<le> uint (b :: byte)" "uint (b :: byte) < 256"
  using uint_lt2p [of b] by simp_all

lemma leVal_nonneg [simp]: "0 \<le> leVal bs"
  by (induction bs) (auto simp: add_nonneg_nonneg)

lemma leVal_append: "leVal (xs @ ys) = leVal xs + 256 ^ length xs * leVal ys"
  by (induction xs) (simp_all add: algebra_simps)

lemma leVal_less: "leVal bs < 256 ^ length bs"
proof (induction bs)
  case (Cons b bs)
  have "uint b + 256 * leVal bs < 256 + 256 * leVal bs" by simp
  also have "\<dots> \<le> 256 * 256 ^ length bs" using Cons by simp
  finally show ?case by simp
qed simp

section \<open>Bits of bytes and integers\<close>

lemma uint_pos_iff: "0 < uint (b :: byte) \<longleftrightarrow> b \<noteq> 0"
  by (metis le_less uint_0_iff uint_byte_bounds(1) less_irrefl)

lemma uint_byte_le255: "uint (b :: byte) \<le> 255"
  using uint_byte_bounds(2) [of b] by linarith

lemma wrap64_nonneg_id [wrap_simps]: "0 \<le> x \<Longrightarrow> x < 2 ^ 63 \<Longrightarrow> wrap64 x = x"
  by (rule wrap64_id) linarith+

lemma wrap64_or: "wrap64 x OR wrap64 y = wrap64 (x OR y)"
  by (rule bit_eqI) (simp add: wrap64_def bit_simps)

lemma wrap64_and_not: "wrap64 x AND NOT (wrap64 y) = wrap64 (x AND NOT y)"
  by (rule bit_eqI) (auto simp: wrap64_def bit_simps)

lemma byte_of_low: "0 \<le> n \<Longrightarrow> uint (word_of_int (n AND 0xff) :: byte) = n mod 256"
proof -
  have "n AND 0xff = take_bit 8 n"
    by (simp add: take_bit_eq_mask mask_eq_exp_minus_1)
  then show ?thesis
    by (simp add: uint_word_of_int take_bit_eq_mod)
qed

lemma or_high:
  assumes "0 \<le> a" "a < 2 ^ n"
  shows "a OR push_bit n x = a + 2 ^ n * (x :: int)"
proof -
  have low: "take_bit n a = a"
    using assms by (simp add: take_bit_int_eq_self)
  have "a OR push_bit n x = concat_bit n a x"
    by (simp add: concat_bit_def low)
  also have "\<dots> = a + push_bit n x"
    by (simp add: concat_bit_eq low)
  finally show ?thesis by (simp add: push_bit_eq_mult mult.commute)
qed

lemma or_shifted:
  "0 \<le> a \<Longrightarrow> a < 256 ^ i \<Longrightarrow> a OR push_bit (8 * i) x = a + 256 ^ i * (x :: int)"
  using or_high [of a "8 * i" x] by (simp add: power_mult)

lemma and_80_iff: "(b :: byte) AND 0x80 = 0 \<longleftrightarrow> uint b < 128"
proof -
  have "b AND 0x80 = 0 \<longleftrightarrow> uint b AND 2 ^ 7 = 0"
    by (simp add: word_uint_eq_iff uint_and)
  also have "\<dots> \<longleftrightarrow> even (uint b div 128)"
    by (simp only: and_exp_eq_0_iff_not_bit bit_iff_odd) simp
  also have "\<dots> \<longleftrightarrow> uint b < 128"
    using uint_byte_bounds(1) [of b] uint_byte_le255 [of b] by presburger
  finally show ?thesis .
qed

lemma and_7f: "uint ((b :: byte) AND 0x7f) = uint b mod 128"
proof -
  have "uint b AND 127 = take_bit 7 (uint b)"
    by (simp add: take_bit_eq_mask mask_eq_exp_minus_1)
  then show ?thesis by (simp add: uint_and take_bit_eq_mod)
qed

lemma and_7f_high: "128 \<le> uint (b :: byte) \<Longrightarrow> uint (b AND 0x7f) = uint b - 128"
  using uint_byte_le255 [of b] mod_pos_pos_trivial [of "uint b - 128" 128]
  by (simp add: and_7f)

lemma or_80: "uint b < 128 \<Longrightarrow> uint ((b :: byte) OR 0x80) = uint b + 128"
  using or_high [of "uint b" 7 1] by (simp add: uint_or)

lemma or_80_and_7f: "uint (b :: byte) < 128 \<Longrightarrow> (b OR 0x80) AND 0x7f = b"
  by (rule word_uint_eqI) (simp add: and_7f or_80)

lemma mask_out_top:
  assumes "0 \<le> m" "m < 2 ^ n"
  shows "(m + 2 ^ n) AND NOT (push_bit n 1) = (m :: int)"
proof (rule bit_eqI)
  fix i
  have "take_bit n m = m" using assms by (simp add: take_bit_int_eq_self)
  then have "bit m i \<Longrightarrow> i < n" by (metis bit_take_bit_iff)
  moreover have "m + 2 ^ n = m OR push_bit n 1" using or_high [OF assms, of 1] by simp
  ultimately show "bit ((m + 2 ^ n) AND NOT (push_bit n 1)) i = bit m i"
    by (auto simp: bit_simps)
qed

lemma at_last: "xs \<noteq> [] \<Longrightarrow> at xs (int (length xs) - 1) = Inr (last xs)"
  by (simp add: at_def last_conv_nth nat_diff_distrib' le_Suc_eq Suc_le_eq)

section \<open>Little-endian bytes\<close>

text \<open>The little-endian bytes of a number, as many as asked for.\<close>

primrec lenBytes :: "nat \<Rightarrow> nat \<Rightarrow> bytes" where
  "lenBytes 0 l = []"
| "lenBytes (Suc k) l = word_of_nat l # lenBytes k (l div 256)"

lemma length_lenBytes [simp]: "length (lenBytes k l) = k"
  by (induction k arbitrary: l) simp_all

lemma uint_word_of_nat_byte: "uint (word_of_nat l :: byte) = int l mod 256"
  by (simp add: unsigned_of_nat take_bit_eq_mod zmod_int)

lemma leVal_lenBytes: "leVal (lenBytes k l) = int l mod 256 ^ k"
proof (induction k arbitrary: l)
  case (Suc k)
  have "int l mod 256 + 256 * (int l div 256 mod 256 ^ k) = int l mod (256 * 256 ^ k)"
    by (simp add: zmod_zmult2_eq)
  with Suc show ?case by (simp add: uint_word_of_nat_byte zdiv_int)
qed simp

lemma lenBytes_leVal: "lenBytes (length bs) (nat (leVal bs)) = bs"
proof (induction bs)
  case (Cons b bs)
  obtain m where m: "leVal bs = int m" using nonneg_int_cases [OF leVal_nonneg] by blast
  have b: "unat b < 256" using unsigned_less [of b] by simp
  have "leVal (b # bs) = int (unat b + 256 * m)" by (simp add: m)
  then have n: "nat (leVal (b # bs)) = unat b + 256 * m" by (simp only: nat_int)
  have "int (unat b + 256 * m) = uint b + 256 * int m" by simp
  then have "uint (word_of_nat (unat b + 256 * m) :: byte) = uint b"
    by (simp only: uint_word_of_nat_byte mod_mult_self2) (simp add: mod_pos_pos_trivial)
  then have "(word_of_nat (unat b + 256 * m) :: byte) = b" by (rule word_uint_eqI)
  moreover have "(unat b + 256 * m) div 256 = m" using b by simp
  ultimately show ?case
    using Cons by (simp only: n lenBytes.simps list.size add_0_right add_Suc_right m nat_int)
qed simp

end
