(* ===== verification/ScriptNum.thy ===== *)
theory ScriptNum
  imports Prelude
begin

unbundle bit_operations_syntax

text \<open>
  Script numbers: the integers of the transaction script language and their byte encoding
  (\<^verbatim>\<open>src/txscript/scriptnum.go\<close>), with the script error values of \<^verbatim>\<open>src/txscript/error.go\<close>.
  A script number is an \<^verbatim>\<open>int64\<close>; it is encoded in little-endian order with the top bit of the last
  byte as the sign. The lemmas relate encoder and decoder: decoding inverts encoding, and an
  encoding accepted under the minimal-encoding rule is the one the encoder produces.
\<close>

section \<open>Definitions\<close>

text \<open>The package's error values; \<open>ErrMsg\<close> is an error built from a message on the spot.\<close>

datatype script_error =
    ErrStackShortScript | ErrStackLongScript | ErrStackUnderflow | ErrStackInvalidArgs
  | ErrStackOpDisabled | ErrStackVerifyFailed | ErrStackNumberTooBig | ErrStackInvalidOpcode
  | ErrStackReservedOpcode | ErrStackEarlyReturn | ErrStackNoIf | ErrStackMissingEndif
  | ErrStackTooManyPubKeys | ErrStackTooManyOperations | ErrStackElementTooBig
  | ErrStackUnknownAddress | ErrStackScriptFailed | ErrStackScriptUnfinished | ErrStackEmptyStack
  | ErrStackP2SHNonPushOnly | ErrStackInvalidParseType | ErrStackInvalidAddrOffset
  | ErrStackInvalidIndex | ErrStackNonPushOnly | ErrStackOverflow | ErrStackInvalidLowSSignature
  | ErrStackInvalidPubKey | ErrStackCleanStack | ErrStackMinimalData
  | ErrInvalidFlags | ErrInvalidIndex | ErrUnsupportedAddress | ErrBadNumRequired
  | ErrSighashSingleIdx | ErrSubstrIdxNegative | ErrSubstrIdxOutOfBounds | ErrNegativeRotation
  | ErrRotationOverflow | ErrNegativeShift | ErrShiftOverflow | ErrDivideByZero
  | ErrP2SHStakeOpCodes
  | ErrMsg string

type_synonym 'a sres = "(script_error, 'a) result"

definition maxInt32 :: int where "maxInt32 = 2 ^ 31 - 1"
definition minInt32 :: int where "minInt32 = - (2 ^ 31)"
definition mathOpCodeMaxScriptNumLen :: int where "mathOpCodeMaxScriptNumLen = 4"
definition altSigSuitesMaxscriptNumLen :: int where "altSigSuitesMaxscriptNumLen = 1"

definition checkMinimalDataEncoding :: "bytes \<Rightarrow> unit sres" where
  "checkMinimalDataEncoding v =
     (if length v = 0 then Inr ()
      else if (v ! (length v - 1)) AND 0x7f = 0
      then (if length v = 1 \<or> (v ! (length v - 2)) AND 0x80 = 0
            then raise ErrStackMinimalData else Inr ())
      else Inr ())"

text \<open>The loop of \<^verbatim>\<open>Bytes\<close> that emits the magnitude, low byte first.\<close>

function bytesLoop :: "int \<Rightarrow> bytes \<Rightarrow> bytes" where
  "bytesLoop n acc =
     (if n > 0 then bytesLoop (drop_bit 8 n) (acc @ [word_of_int (n AND 0xff)]) else acc)"
  by pat_completeness auto
termination
  by (relation "measure (\<lambda>(n, _). nat n)") (auto simp: drop_bit_eq_div)

text \<open>
  \<^verbatim>\<open>scriptNum.Bytes\<close>. The most negative \<^verbatim>\<open>int64\<close> is its own negation, so the loop emits nothing
  and the access to the last byte panics.
\<close>

definition scriptNum_Bytes :: "int \<Rightarrow> bytes sres" where
  "scriptNum_Bytes n =
     (if n = 0 then Inr []
      else let isNegative = n < 0;
               m = (if isNegative then wrap64 (- n) else n);
               res = bytesLoop m []
           in bindE (at res (int (length res) - 1)) (\<lambda>top.
                if top AND 0x80 \<noteq> 0
                then Inr (res @ [if isNegative then 0x80 else 0x00])
                else if isNegative
                then Inr (res[length res - 1 := top OR 0x80])
                else Inr res))"

definition scriptNum_Int32 :: "int \<Rightarrow> int" where
  "scriptNum_Int32 n =
     (if n > maxInt32 then maxInt32 else if n < minInt32 then minInt32 else wrap32 n)"

text \<open>The decoding loop: \<^verbatim>\<open>result |= int64(val) << uint8(8*i)\<close>.\<close>

primrec decodeLoop :: "nat \<Rightarrow> int \<Rightarrow> bytes \<Rightarrow> int" where
  "decodeLoop i res [] = res"
| "decodeLoop i res (b # bs) =
     decodeLoop (Suc i) (res OR wrap64 (push_bit ((8 * i) mod 256) (uint b))) bs"

definition makeScriptNum :: "bytes \<Rightarrow> bool \<Rightarrow> int \<Rightarrow> int sres" where
  "makeScriptNum v requireMinimal scriptNumLen =
     (if int (length v) > scriptNumLen then raise ErrStackNumberTooBig
      else bindE (if requireMinimal then checkMinimalDataEncoding v else Inr ()) (\<lambda>_.
        if length v = 0 then Inr 0
        else let res = decodeLoop 0 0 v
             in if (v ! (length v - 1)) AND 0x80 \<noteq> 0
                then Inr (wrap64 (- (res AND NOT (wrap64 (push_bit ((8 * (length v - 1)) mod 256) 0x80)))))
                else Inr res))"

declare bytesLoop.simps [simp del]

section \<open>The encoding loop\<close>

lemma bytesLoop_prefix: "bytesLoop n (pre @ acc) = pre @ bytesLoop n acc"
proof (induction n acc rule: bytesLoop.induct)
  case (1 n acc)
  then show ?case
    by (cases "n > 0") (simp_all add: bytesLoop.simps [of n])
qed

lemma bytesLoop_acc: "bytesLoop n acc = acc @ bytesLoop n []"
  using bytesLoop_prefix [of n acc "[]"] by simp

lemma bytesLoop_pos:
  "n > 0 \<Longrightarrow> bytesLoop n [] = word_of_int (n AND 0xff) # bytesLoop (n div 256) []"
  by (subst bytesLoop.simps) (simp add: bytesLoop_acc [of _ "[_]"] drop_bit_eq_div)

lemma bytesLoop_nonpos [simp]: "n \<le> 0 \<Longrightarrow> bytesLoop n acc = acc"
  by (simp add: bytesLoop.simps)

lemma bytesLoop_leVal: "0 \<le> n \<Longrightarrow> leVal (bytesLoop n []) = n"
proof (induction "nat n" arbitrary: n rule: less_induct)
  case less
  show ?case
  proof (cases "n > 0")
    case True
    then have "leVal (bytesLoop (n div 256) []) = n div 256"
      by (intro less) auto
    with True show ?thesis by (simp add: bytesLoop_pos byte_of_low)
  qed (use less in simp)
qed

lemma bytesLoop_last: "n > 0 \<Longrightarrow> bytesLoop n [] \<noteq> [] \<and> last (bytesLoop n []) \<noteq> 0"
proof (induction "nat n" arbitrary: n rule: less_induct)
  case less
  show ?case
  proof (cases "n div 256 > 0")
    case True
    with less have "bytesLoop (n div 256) [] \<noteq> [] \<and> last (bytesLoop (n div 256) []) \<noteq> 0"
      by auto
    with less.prems show ?thesis by (simp add: bytesLoop_pos)
  next
    case False
    with less.prems have "n < 256" by auto
    then have "uint (word_of_int (n AND 0xff) :: byte) = n"
      using less.prems by (simp add: byte_of_low)
    with False less.prems show ?thesis by (auto simp: bytesLoop_pos)
  qed
qed

lemma bytesLoop_of_leVal: "bs = [] \<or> last bs \<noteq> 0 \<Longrightarrow> bytesLoop (leVal bs) [] = bs"
proof (induction bs)
  case (Cons b bs)
  have pos: "leVal (b # bs) > 0"
  proof (cases "bs = []")
    case True
    with Cons.prems show ?thesis by (simp add: uint_pos_iff)
  next
    case False
    then have "bytesLoop (leVal bs) [] \<noteq> []" using Cons by simp
    then have "leVal bs > 0" by (metis bytesLoop_nonpos not_less)
    then show ?thesis by (simp add: add_nonneg_pos)
  qed
  have "leVal (b # bs) div 256 = leVal bs" by simp
  moreover have "word_of_int (leVal (b # bs) AND 0xff) = b"
    by (rule word_uint_eqI) (simp add: byte_of_low add_nonneg_nonneg)
  moreover have "bytesLoop (leVal bs) [] = bs"
    using Cons by (cases "bs = []") auto
  ultimately show ?case using pos by (simp only: bytesLoop_pos)
qed simp

section \<open>The decoding loop\<close>

lemma decodeLoop_value:
  assumes "0 \<le> a" "a < 256 ^ i" "i + length bs \<le> 32"
  shows "decodeLoop i (wrap64 a) bs = wrap64 (a + 256 ^ i * leVal bs)"
  using assms
proof (induction bs arbitrary: i a)
  case (Cons b bs)
  have i: "(8 * i) mod 256 = 8 * i" using Cons.prems by simp
  have "a + 256 ^ i * uint b < 256 ^ i + 256 ^ i * uint b" using Cons.prems by simp
  also have "\<dots> \<le> 256 ^ i * 256"
    using uint_byte_le255 [of b] mult_left_mono [of "uint b" 255 "256 ^ i :: int"] by simp
  finally have up: "a + 256 ^ i * uint b < 256 ^ Suc i" by (simp add: mult.commute)
  have "decodeLoop i (wrap64 a) (b # bs) = decodeLoop (Suc i) (wrap64 (a + 256 ^ i * uint b)) bs"
    using Cons.prems by (simp add: i wrap64_or or_shifted)
  also have "\<dots> = wrap64 (a + 256 ^ i * uint b + 256 ^ Suc i * leVal bs)"
    using Cons.prems up by (intro Cons.IH) (auto simp: add_nonneg_nonneg)
  finally show ?case by (simp add: algebra_simps)
qed simp

lemma decodeLoop_leVal: "length v \<le> 32 \<Longrightarrow> decodeLoop 0 0 v = wrap64 (leVal v)"
  using decodeLoop_value [of 0 0 v] by (simp add: wrap64_def)

lemma leVal_snoc_less:
  assumes "uint b < 128"
  shows "leVal (u @ [b]) < 2 ^ (8 * length u + 7)"
proof -
  have p: "(256::int) ^ length u = 2 ^ (8 * length u)" by (simp add: power_mult)
  have "leVal (u @ [b]) < 256 ^ length u + 256 ^ length u * uint b"
    using leVal_less [of u] by (simp add: leVal_append)
  also have "\<dots> \<le> 256 ^ length u * 128"
    using mult_left_mono [of "uint b" 127 "256 ^ length u :: int"] assms by simp
  finally show ?thesis by (simp add: p power_add)
qed

lemma leVal_snoc_less63:
  assumes "v \<noteq> []" "length v \<le> 8" "uint (last v) < 128"
  shows "leVal v < 2 ^ 63"
proof -
  have "leVal v < 2 ^ (8 * length (butlast v) + 7)"
    using leVal_snoc_less [of "last v" "butlast v"] assms by simp
  also have "(2::int) ^ (8 * length (butlast v) + 7) \<le> 2 ^ 63"
    using assms by (intro power_increasing) auto
  finally show ?thesis .
qed

lemma clear_top:
  assumes "v \<noteq> []" "length v \<le> 8" "128 \<le> uint (last v)"
  shows "wrap64 (leVal v) AND NOT (wrap64 (push_bit (8 * (length v - 1)) 0x80))
       = leVal (butlast v @ [last v AND 0x7f])"
proof -
  obtain u b where v: "v = u @ [b]" using assms(1) by (cases v rule: rev_cases) auto
  define k where "k = length u"
  define m where "m = leVal (u @ [b AND 0x7f])"
  have p: "(256::int) ^ k = 2 ^ (8 * k)" by (simp add: power_mult)
  have low: "uint (b AND 0x7f) = uint b - 128" using assms(3) by (simp add: v and_7f_high)
  have m1: "m < 2 ^ (8 * k + 7)"
    using leVal_snoc_less [of "b AND 0x7f" u] uint_byte_le255 [of b] by (simp add: m_def k_def low)
  have m63: "m < 2 ^ 63"
    using leVal_snoc_less63 [of "u @ [b AND 0x7f]"] uint_byte_le255 [of b] assms(2)
    by (simp add: m_def low v)
  have "leVal v = m + 2 ^ (8 * k + 7)"
    by (simp add: v m_def leVal_append low flip: k_def)
       (simp add: algebra_simps power_add p)
  moreover have "push_bit (8 * k) 0x80 = push_bit (8 * k + 7) (1 :: int)"
    by (simp add: push_bit_eq_mult power_add)
  ultimately have "leVal v AND NOT (push_bit (8 * k) 0x80) = m"
    using mask_out_top [OF _ m1] by (simp add: m_def)
  then show ?thesis
    using m63 leVal_nonneg [of "u @ [b AND 0x7f]"] 
    by (simp add: v k_def wrap64_and_not wrap64_nonneg_id m_def)
qed

section \<open>Decoding in terms of the value\<close>

text \<open>The number a non-empty byte string stands for: sign bit and magnitude.\<close>

definition signedVal :: "bytes \<Rightarrow> int" where
  "signedVal v = (if 128 \<le> uint (last v) then - leVal (butlast v @ [last v AND 0x7f]) else leVal v)"

lemma signedVal_bound:
  assumes "v \<noteq> []"
  shows "\<bar>signedVal v\<bar> < 2 ^ (8 * length v - 1)"
proof -
  obtain u b where v: "v = u @ [b]" using assms by (cases v rule: rev_cases) auto
  have e: "8 * length v - 1 = 8 * length u + 7" by (simp add: v)
  show ?thesis
    unfolding e using leVal_snoc_less [of b u] leVal_snoc_less [of "b AND 0x7f" u] uint_byte_le255 [of b]
    by (auto simp: v signedVal_def and_7f_high)
qed

lemma signedVal_bound63:
  assumes "v \<noteq> []" "length v \<le> 8"
  shows "\<bar>signedVal v\<bar> < 2 ^ 63"
proof -
  have "(2::int) ^ (8 * length v - 1) \<le> 2 ^ 63"
    using assms by (intro power_increasing) auto
  with signedVal_bound [OF assms(1)] show ?thesis by linarith
qed

lemma makeScriptNum_value:
  assumes "int (length v) \<le> L" "L \<le> 8" "v \<noteq> []"
    and "rm \<longrightarrow> checkMinimalDataEncoding v = Inr ()"
  shows "makeScriptNum v rm L = Inr (signedVal v)"
proof -
  have len: "length v \<le> 8" using assms by simp
  have dec: "decodeLoop 0 0 v = wrap64 (leVal v)" using len by (intro decodeLoop_leVal) simp
  have sh: "(8 * (length v - 1)) mod 256 = 8 * (length v - 1)" using len by simp
  have last: "v ! (length v - Suc 0) = last v" using assms(3) by (simp add: last_conv_nth)
  have "\<bar>signedVal v\<bar> < 2 ^ 63" by (rule signedVal_bound63) fact+
  then have wr: "wrap64 (signedVal v) = signedVal v" by (intro wrap64_id) auto
  show ?thesis
  proof (cases "128 \<le> uint (last v)")
    case True
    then show ?thesis
      using assms wr clear_top [OF assms(3) len True]
      by (auto simp: makeScriptNum_def dec sh last and_80_iff Let_def signedVal_def)
  next
    case False
    then show ?thesis
      using assms wr by (auto simp: makeScriptNum_def dec last and_80_iff signedVal_def)
  qed
qed

section \<open>Round trips\<close>

text \<open>What the minimal-encoding check accepts, on a string with its last byte split off.\<close>

lemma minimal_snoc:
  "checkMinimalDataEncoding (u @ [b]) = Inr () \<longleftrightarrow>
     uint b mod 128 \<noteq> 0 \<or> (u \<noteq> [] \<and> 128 \<le> uint (last u))"
proof -
  have "b AND 0x7f = 0 \<longleftrightarrow> uint b mod 128 = 0"
    by (metis and_7f uint_0_iff)
  moreover have "u \<noteq> [] \<Longrightarrow> (u @ [b]) ! (length u - Suc 0) = last u"
    by (simp add: nth_append last_conv_nth)
  ultimately show ?thesis
    by (cases "u = []") (auto simp: checkMinimalDataEncoding_def and_80_iff)
qed

text \<open>The sign byte the encoder puts on a magnitude, and its removal by the decoder.\<close>

definition signed_bytes :: "bool \<Rightarrow> bytes \<Rightarrow> bytes" where
  "signed_bytes neg w = (if 128 \<le> uint (last w) then w @ [if neg then 0x80 else 0]
     else if neg then butlast w @ [last w OR 0x80] else w)"

text \<open>The encoder on a magnitude given by its bytes.\<close>

lemma Bytes_of_magnitude:
  assumes "w \<noteq> []" "last w \<noteq> 0" "leVal w < 2 ^ 63"
  shows "scriptNum_Bytes (if neg then - leVal w else leVal w) =
     Inr (signed_bytes neg w)"
proof -
  have loop: "bytesLoop (leVal w) [] = w" using assms by (simp add: bytesLoop_of_leVal)
  have pos: "0 < leVal w"
    by (metis assms(1) bytesLoop_nonpos loop not_less)
  have wr: "wrap64 (leVal w) = leVal w" using pos assms(3) by (intro wrap64_id) auto
  have upd: "w[length w - Suc 0 := x] = butlast w @ [x]" for x
    using assms(1) by (cases w rule: rev_cases) auto
  show ?thesis
    using pos by (cases neg) (simp_all add: scriptNum_Bytes_def signed_bytes_def Let_def loop wr at_last assms(1) and_80_iff upd)
qed

lemma signed_bytes_value:
  assumes "w \<noteq> []"
  shows "signedVal (signed_bytes neg w) = (if neg then - leVal w else leVal w)"
proof -
  have "w = butlast w @ [last w]" using assms by simp
  with assms show ?thesis
    by (cases "128 \<le> uint (last w)")
       (simp_all add: signedVal_def signed_bytes_def leVal_append or_80 or_80_and_7f)
qed

lemma signed_bytes_minimal:
  assumes "w \<noteq> []" "last w \<noteq> 0"
  shows "checkMinimalDataEncoding (signed_bytes neg w) = Inr ()"
proof -
  have "uint (last w) \<noteq> 0" using assms by (simp add: uint_0_iff)
  moreover have "w = butlast w @ [last w]" using assms(1) by simp
  ultimately show ?thesis
    using assms minimal_snoc [of "butlast w" "last w"] uint_byte_bounds(1) [of "last w"]
    by (auto simp: signed_bytes_def minimal_snoc or_80 mod_pos_pos_trivial
          simp del: uint_byte_bounds)
qed

lemma signed_bytes_cover:
  assumes "checkMinimalDataEncoding (u @ [b]) = Inr ()"
  defines "w \<equiv> (if uint b mod 128 \<noteq> 0 then u @ [b AND 0x7f] else u)"
  shows "w \<noteq> [] \<and> last w \<noteq> 0 \<and> signed_bytes (128 \<le> uint b) w = u @ [b]"
proof (cases "uint b mod 128 = 0")
  case True
  then have u: "u \<noteq> []" "128 \<le> uint (last u)" using assms(1) by (auto simp: minimal_snoc)
  then have "last u \<noteq> 0" by auto
  have "uint b = 0 \<or> uint b = 128"
    using True uint_byte_bounds(1) [of b] uint_byte_le255 [of b] by presburger
  then have "b = (if 128 \<le> uint b then 0x80 else 0)"
    by (auto intro: word_uint_eqI)
  with u \<open>last u \<noteq> 0\<close> True show ?thesis by (simp add: w_def signed_bytes_def)
next
  case False
  have "(b AND 0x7f) OR 0x80 = b" if "128 \<le> uint b"
    using that by (intro word_uint_eqI) (simp add: or_80 and_7f_high)
  moreover have "b AND 0x7f = b" if "uint b < 128"
    using that by (intro word_uint_eqI) (simp add: and_7f)
  moreover have "b AND 0x7f \<noteq> 0" using False by (metis and_7f uint_0_iff)
  ultimately show ?thesis using False by (auto simp: w_def signed_bytes_def and_7f)
qed

lemma Bytes_eq:
  assumes "n \<noteq> 0" "- (2 ^ 63) < n" "n < 2 ^ 63"
  shows "scriptNum_Bytes n = Inr (signed_bytes (n < 0) (bytesLoop \<bar>n\<bar> []))"
proof -
  have "bytesLoop \<bar>n\<bar> [] \<noteq> []" "last (bytesLoop \<bar>n\<bar> []) \<noteq> 0"
    using bytesLoop_last [of "\<bar>n\<bar>"] assms by auto
  moreover have "(if n < 0 then - leVal (bytesLoop \<bar>n\<bar> []) else leVal (bytesLoop \<bar>n\<bar> [])) = n"
    by (simp add: bytesLoop_leVal)
  ultimately show ?thesis
    using Bytes_of_magnitude [of "bytesLoop \<bar>n\<bar> []" "n < 0"] assms
    by (simp add: bytesLoop_leVal)
qed

text \<open>Every number but the most negative one survives encoding and decoding.\<close>

lemma makeScriptNum_Bytes:
  assumes "- (2 ^ 63) < n" "n < 2 ^ 63"
  shows "\<exists>v. scriptNum_Bytes n = Inr v \<and> checkMinimalDataEncoding v = Inr () \<and>
    (\<forall>rm L. int (length v) \<le> L \<longrightarrow> L \<le> 8 \<longrightarrow> makeScriptNum v rm L = Inr n)"
proof (cases "n = 0")
  case True
  then show ?thesis
    by (intro exI [of _ "[]"])
       (auto simp: scriptNum_Bytes_def checkMinimalDataEncoding_def makeScriptNum_def)
next
  case False
  define w where "w = bytesLoop \<bar>n\<bar> []"
  define v where "v = signed_bytes (n < 0) w"
  have ne: "w \<noteq> []" "last w \<noteq> 0" using bytesLoop_last [of "\<bar>n\<bar>"] False by (auto simp: w_def)
  have n: "signedVal v = n"
    using signed_bytes_value [OF ne(1)] by (simp add: v_def) (simp add: w_def bytesLoop_leVal)
  have enc: "scriptNum_Bytes n = Inr v" using Bytes_eq [OF False assms] by (simp add: v_def w_def)
  have min: "checkMinimalDataEncoding v = Inr ()"
    unfolding v_def by (rule signed_bytes_minimal) fact+
  have "v \<noteq> []" using ne by (simp add: v_def signed_bytes_def)
  then have "makeScriptNum v rm L = Inr n" if "int (length v) \<le> L" "L \<le> 8" for rm L
    using makeScriptNum_value [OF that, of rm] min n by simp
  with enc min show ?thesis by blast
qed

text \<open>An encoding accepted under the minimal rule is the encoder's own.\<close>

lemma Bytes_makeScriptNum:
  assumes "makeScriptNum v True L = Inr n" "L \<le> 8"
  shows "scriptNum_Bytes n = Inr v"
proof (cases v rule: rev_cases)
  case Nil
  with assms show ?thesis
    by (auto simp: makeScriptNum_def scriptNum_Bytes_def checkMinimalDataEncoding_def split: if_splits)
next
  case (snoc u b)
  have len: "int (length v) \<le> L" and min: "checkMinimalDataEncoding (u @ [b]) = Inr ()"
    using assms snoc by (auto simp: makeScriptNum_def bindE_eq_Inr split: if_splits)
  obtain w where w: "w \<noteq> []" "last w \<noteq> 0" "signed_bytes (128 \<le> uint b) w = v"
    using signed_bytes_cover [OF min] snoc by auto
  have sv: "n = signedVal v"
    using makeScriptNum_value [OF len assms(2), of True] assms(1) min snoc by simp
  then have n: "n = (if 128 \<le> uint b then - leVal w else leVal w)"
    using signed_bytes_value [OF w(1), of "128 \<le> uint b"] by (simp add: w(3))
  have "\<bar>n\<bar> < 2 ^ 63" unfolding sv by (rule signedVal_bound63) (use snoc len assms(2) in auto)
  then have "leVal w < 2 ^ 63" using n by (auto split: if_splits)
  then show ?thesis
    using Bytes_of_magnitude [OF w(1,2), of "128 \<le> uint b"] n w(3) by simp
qed

section \<open>Bounds\<close>

lemma makeScriptNum_eq:
  "makeScriptNum v rm L = Inr n \<Longrightarrow> L \<le> 8 \<Longrightarrow>
     int (length v) \<le> L \<and> n = (if v = [] then 0 else signedVal v)"
  using makeScriptNum_value [of v L rm]
  by (cases "v = []") (auto simp: makeScriptNum_def bindE_eq_Inr split: if_splits)

lemma makeScriptNum_bound:
  assumes "makeScriptNum v rm L = Inr n" "0 < L" "L \<le> 8"
  shows "\<bar>n\<bar> < 2 ^ (8 * nat L - 1)"
proof (cases "v = []")
  case True
  with makeScriptNum_eq [OF assms(1,3)] show ?thesis by simp
next
  case False
  with makeScriptNum_eq [OF assms(1,3)] have "\<bar>n\<bar> < 2 ^ (8 * length v - 1)"
    using signedVal_bound by simp
  also have "\<dots> \<le> 2 ^ (8 * nat L - 1)"
    using makeScriptNum_eq [OF assms(1,3)] by (intro power_increasing) auto
  finally show ?thesis .
qed

lemma makeScriptNum_no_panic: "makeScriptNum v rm L \<noteq> panic"
  by (auto simp: makeScriptNum_def checkMinimalDataEncoding_def Let_def bindE_eq_Inl)

lemma Bytes_no_panic: "- (2 ^ 63) < n \<Longrightarrow> n < 2 ^ 63 \<Longrightarrow> \<exists>v. scriptNum_Bytes n = Inr v"
  using makeScriptNum_Bytes by blast

lemma Bytes_minInt64: "scriptNum_Bytes (- (2 ^ 63)) = panic"
  by (simp add: scriptNum_Bytes_def wrap64_def at_def)

lemma Int32_id: "- (2 ^ 31) \<le> n \<Longrightarrow> n < 2 ^ 31 \<Longrightarrow> scriptNum_Int32 n = n"
  by (simp add: scriptNum_Int32_def maxInt32_def minInt32_def wrap32_id)

lemma Int32_bounds: "- (2 ^ 31) \<le> scriptNum_Int32 n \<and> scriptNum_Int32 n < 2 ^ 31"
  using wrap32_bounds [of n] by (auto simp: scriptNum_Int32_def maxInt32_def minInt32_def)

lemma leVal_ge: "w \<noteq> [] \<Longrightarrow> uint (last w) * 256 ^ (length w - 1) \<le> leVal w"
  by (cases w rule: rev_cases) (auto simp: leVal_append)

lemma Bytes_length:
  assumes "scriptNum_Bytes n = Inr v" "\<bar>n\<bar> < 2 ^ (8 * k - 1)" "0 < k" "k \<le> 8"
  shows "length v \<le> k"
proof (cases "n = 0")
  case True
  with assms show ?thesis by (simp add: scriptNum_Bytes_def)
next
  case False
  define w where "w = bytesLoop \<bar>n\<bar> []"
  have ne: "w \<noteq> []" "last w \<noteq> 0" using bytesLoop_last [of "\<bar>n\<bar>"] False by (auto simp: w_def)
  have "(2::int) ^ (8 * k - 1) \<le> 2 ^ 63" using assms by (intro power_increasing) auto
  then have v: "v = signed_bytes (n < 0) w"
    using Bytes_eq [OF False] assms by (auto simp: w_def)
  have ge: "uint (last w) * 256 ^ (length w - 1) < 2 ^ (8 * k - 1)"
    using leVal_ge [OF ne(1)] assms(2) by (simp add: w_def bytesLoop_leVal)
  have p: "(256::int) ^ (length w - Suc 0) = 2 ^ (8 * length w - 8)"
    using power_mult [of "2::int" 8 "length w - 1"] by (simp add: diff_mult_distrib2)
  show ?thesis
  proof (cases "128 \<le> uint (last w)")
    case True
    then have "128 * 256 ^ (length w - 1) < (2::int) ^ (8 * k - 1)"
      by (intro le_less_trans [OF mult_right_mono ge]) simp_all
    then have "(2::int) ^ (7 + (8 * length w - 8)) < 2 ^ (8 * k - 1)" by (simp add: p power_add)
    then have "7 + (8 * length w - 8) < 8 * k - 1" by (rule power_less_imp_less_exp [rotated]) simp
    with True ne show ?thesis by (simp add: v signed_bytes_def)
  next
    case False
    have "1 \<le> uint (last w)" using ne uint_pos_iff [of "last w"] by linarith
    then have "(256::int) ^ (length w - 1) < 2 ^ (8 * k - 1)"
      using le_less_trans [OF mult_right_mono ge, of 1] by simp
    then have "(2::int) ^ (8 * length w - 8) < 2 ^ (8 * k - 1)" by (simp add: p)
    then have "8 * length w - 8 < 8 * k - 1" by (rule power_less_imp_less_exp [rotated]) simp
    with False ne show ?thesis by (simp add: v signed_bytes_def)
  qed
qed

section \<open>Properties\<close>

text \<open>
  C26. Encoding then decoding a script number gives the number back. Every \<^verbatim>\<open>int64\<close> other than the
  most negative one encodes without a panic, to at most eight bytes that satisfy the
  minimal-encoding rule, and decoding them under any length limit from their length up to eight
  bytes, with or without the minimal rule, returns the number.
\<close>

theorem scriptNum_round_trip:
  assumes "- (2 ^ 63) < n" "n < 2 ^ 63"
  shows "\<exists>v. scriptNum_Bytes n = Inr v \<and> length v \<le> 8 \<and> checkMinimalDataEncoding v = Inr () \<and>
    (\<forall>rm. \<forall>L \<in> {int (length v)..8}. makeScriptNum v rm L = Inr n)"
proof -
  obtain v where v: "scriptNum_Bytes n = Inr v" "checkMinimalDataEncoding v = Inr ()"
    "\<And>rm L. int (length v) \<le> L \<Longrightarrow> L \<le> 8 \<Longrightarrow> makeScriptNum v rm L = Inr n"
    using makeScriptNum_Bytes [OF assms] by blast
  moreover have "length v \<le> 8" using Bytes_length [OF v(1), of 8] assms by (simp add: abs_less_iff)
  ultimately show ?thesis by auto
qed

theorem scriptNum_round_trip_witness:
  "scriptNum_Bytes (- 255) = Inr [0xff, 0x80] \<and> makeScriptNum [0xff, 0x80] True 4 = Inr (- 255)"
proof -
  have "scriptNum_Bytes (- 255) = Inr [0xff, 0x80]"
    by (simp add: scriptNum_Bytes_def bytesLoop.simps wrap64_def at_def)
  moreover from this scriptNum_round_trip [of "- 255"]
  have "makeScriptNum [0xff, 0x80] True 4 = Inr (- 255)" by auto
  ultimately show ?thesis by blast
qed

text \<open>
  C27. Under the minimal-encoding rule every number has exactly one encoding, the one the encoder
  produces. For a length limit of at most eight bytes, \<^verbatim>\<open>makeScriptNum\<close> accepts a byte string as
  \<open>n\<close> exactly when \<^verbatim>\<open>Bytes\<close> encodes \<open>n\<close> as that string and the string fits the limit.
\<close>

theorem minimal_encoding_canonical:
  assumes "L \<le> 8" "- (2 ^ 63) \<le> n" "n < 2 ^ 63"
  shows "makeScriptNum v True L = Inr n \<longleftrightarrow> scriptNum_Bytes n = Inr v \<and> int (length v) \<le> L"
proof
  assume "makeScriptNum v True L = Inr n"
  then show "scriptNum_Bytes n = Inr v \<and> int (length v) \<le> L"
    using Bytes_makeScriptNum makeScriptNum_eq assms(1) by blast
next
  assume enc: "scriptNum_Bytes n = Inr v \<and> int (length v) \<le> L"
  then have "n \<noteq> - (2 ^ 63)" using Bytes_minInt64 by auto
  with assms have "- (2 ^ 63) < n" by simp
  from makeScriptNum_Bytes [OF this assms(3)] enc assms(1)
  show "makeScriptNum v True L = Inr n" by auto
qed

theorem minimal_encoding_canonical_witness:
  "makeScriptNum [0x00] True 4 \<noteq> Inr 0 \<and> makeScriptNum [0x01] True 4 = Inr 1"
proof -
  have "scriptNum_Bytes 0 = Inr []" "scriptNum_Bytes 1 = Inr [1]"
    by (simp_all add: scriptNum_Bytes_def bytesLoop.simps at_def)
  then show ?thesis
    using minimal_encoding_canonical [of 4 0 "[0x00]"] minimal_encoding_canonical [of 4 1 "[0x01]"]
    by simp
qed

end
