(* ===== verification/ScriptStack.thy ===== *)
theory ScriptStack
  imports ScriptNum
begin

unbundle bit_operations_syntax

text \<open>
  The data stack of the script engine (\<^verbatim>\<open>src/txscript/stack.go\<close>). As in the code, the stack is a
  slice whose last element is the top; the flag says whether numbers popped off it must be
  minimally encoded. The lemmas describe each operation on \<open>tops\<close>, the stack read from the top
  down, which is how the comments of the source (\<^verbatim>\<open>[... x1 x2] -> [... x2 x1]\<close>) describe them.
\<close>

section \<open>Definitions\<close>

record stack =
  stk :: "bytes list"
  verifyMinimalData :: bool

primrec asBoolLoop :: "nat \<Rightarrow> nat \<Rightarrow> bytes \<Rightarrow> bool" where
  "asBoolLoop i n [] = False"
| "asBoolLoop i n (b # bs) =
     (if b \<noteq> 0 then (if int i = int n - 1 \<and> b = 0x80 then False else True)
      else asBoolLoop (Suc i) n bs)"

definition asBool :: "bytes \<Rightarrow> bool" where
  "asBool t = asBoolLoop 0 (length t) t"

definition fromBool :: "bool \<Rightarrow> bytes" where
  "fromBool v = (if v then [1] else [])"

definition Depth :: "stack \<Rightarrow> int" where
  "Depth s = wrap32 (int (length (stk s)))"

definition PushByteArray :: "stack \<Rightarrow> bytes \<Rightarrow> stack" where
  "PushByteArray s so = s\<lparr>stk := stk s @ [so]\<rparr>"

definition PushInt :: "stack \<Rightarrow> int \<Rightarrow> stack sres" where
  "PushInt s val = bindE (scriptNum_Bytes val) (\<lambda>b. Inr (PushByteArray s b))"

definition PushBool :: "stack \<Rightarrow> bool \<Rightarrow> stack" where
  "PushBool s val = PushByteArray s (fromBool val)"

definition nipN :: "stack \<Rightarrow> int \<Rightarrow> (bytes \<times> stack) sres" where
  "nipN s idx =
     (let sz = wrap32 (int (length (stk s)))
      in if idx < 0 \<or> idx > sz - 1 then raise ErrStackUnderflow
         else bindE (at (stk s) (sz - idx - 1)) (\<lambda>so.
           if idx = 0 then bindE (slice (stk s) 0 (sz - 1)) (\<lambda>t. Inr (so, s\<lparr>stk := t\<rparr>))
           else if idx = sz - 1
           then bindE (slice (stk s) 1 (int (length (stk s)))) (\<lambda>t.
                  Inr (so, s\<lparr>stk := take (nat (sz - 1)) t\<rparr>))
           else bindE (slice (stk s) (sz - idx) sz) (\<lambda>s1.
                bindE (slice (stk s) 0 (sz - idx - 1)) (\<lambda>s0.
                  Inr (so, s\<lparr>stk := s0 @ s1\<rparr>)))))"

definition PopByteArray :: "stack \<Rightarrow> (bytes \<times> stack) sres" where
  "PopByteArray s = nipN s 0"

definition PopInt :: "stack \<Rightarrow> int \<Rightarrow> (int \<times> stack) sres" where
  "PopInt s maxLen = bindE (PopByteArray s) (\<lambda>(so, s').
     bindE (makeScriptNum so (verifyMinimalData s) maxLen) (\<lambda>n. Inr (n, s')))"

definition PopBool :: "stack \<Rightarrow> (bool \<times> stack) sres" where
  "PopBool s = bindE (PopByteArray s) (\<lambda>(so, s'). Inr (asBool so, s'))"

definition PeekByteArray :: "stack \<Rightarrow> int \<Rightarrow> bytes sres" where
  "PeekByteArray s idx =
     (let sz = wrap32 (int (length (stk s)))
      in if idx < 0 \<or> idx \<ge> sz then raise ErrStackUnderflow else at (stk s) (sz - idx - 1))"

definition PeekInt :: "stack \<Rightarrow> int \<Rightarrow> int sres" where
  "PeekInt s idx = bindE (PeekByteArray s idx) (\<lambda>so.
     makeScriptNum so (verifyMinimalData s) mathOpCodeMaxScriptNumLen)"

definition PeekBool :: "stack \<Rightarrow> int \<Rightarrow> bool sres" where
  "PeekBool s idx = bindE (PeekByteArray s idx) (\<lambda>so. Inr (asBool so))"

definition NipN :: "stack \<Rightarrow> int \<Rightarrow> stack sres" where
  "NipN s idx = bindE (nipN s idx) (\<lambda>(_, s'). Inr s')"

definition Tuck :: "stack \<Rightarrow> stack sres" where
  "Tuck s = bindE (PopByteArray s) (\<lambda>(so2, s).
     bindE (PopByteArray s) (\<lambda>(so1, s).
       Inr (PushByteArray (PushByteArray (PushByteArray s so2) so1) so2)))"

definition DropN :: "stack \<Rightarrow> int \<Rightarrow> stack sres" where
  "DropN s n = (if n < 1 then raise ErrStackInvalidArgs
     else iterE (nat n) (\<lambda>s. bindE (PopByteArray s) (\<lambda>(_, s). Inr s)) s)"

definition DupN :: "stack \<Rightarrow> int \<Rightarrow> stack sres" where
  "DupN s n = (if n < 1 then raise ErrStackInvalidArgs
     else iterE (nat n) (\<lambda>s. bindE (PeekByteArray s (n - 1)) (\<lambda>so. Inr (PushByteArray s so))) s)"

definition RotN :: "stack \<Rightarrow> int \<Rightarrow> stack sres" where
  "RotN s n = (if n < 1 then raise ErrStackInvalidArgs
     else let entry = wrap32 (3 * n - 1)
          in iterE (nat n) (\<lambda>s. bindE (nipN s entry) (\<lambda>(so, s). Inr (PushByteArray s so))) s)"

definition SwapN :: "stack \<Rightarrow> int \<Rightarrow> stack sres" where
  "SwapN s n = (if n < 1 then raise ErrStackInvalidArgs
     else let entry = wrap32 (2 * n - 1)
          in iterE (nat n) (\<lambda>s. bindE (nipN s entry) (\<lambda>(so, s). Inr (PushByteArray s so))) s)"

definition OverN :: "stack \<Rightarrow> int \<Rightarrow> stack sres" where
  "OverN s n = (if n < 1 then raise ErrStackInvalidArgs
     else let entry = wrap32 (2 * n - 1)
          in iterE (nat n) (\<lambda>s. bindE (PeekByteArray s entry) (\<lambda>so. Inr (PushByteArray s so))) s)"

definition PickN :: "stack \<Rightarrow> int \<Rightarrow> stack sres" where
  "PickN s n = bindE (PeekByteArray s n) (\<lambda>so. Inr (PushByteArray s so))"

definition RollN :: "stack \<Rightarrow> int \<Rightarrow> stack sres" where
  "RollN s n = bindE (nipN s n) (\<lambda>(so, s). Inr (PushByteArray s so))"

text \<open>The stack from the top down.\<close>

abbreviation tops :: "stack \<Rightarrow> bytes list" where
  "tops s \<equiv> rev (stk s)"

abbreviation with_tops :: "stack \<Rightarrow> bytes list \<Rightarrow> stack" where
  "with_tops s xs \<equiv> s\<lparr>stk := rev xs\<rparr>"

text \<open>A stack whose height fits an \<^verbatim>\<open>int32\<close>.\<close>

definition small_stack :: "stack \<Rightarrow> bool" where
  "small_stack s \<longleftrightarrow> length (stk s) < 2 ^ 31"

section \<open>Single-element operations\<close>

lemma small_stack_sz [simp]: "small_stack s \<Longrightarrow> wrap32 (int (length (stk s))) = int (length (stk s))"
  by (simp add: small_stack_def wrap32_id)

lemma stack_eq_iff: "(s :: stack) = t \<longleftrightarrow> stk s = stk t \<and> verifyMinimalData s = verifyMinimalData t"
  by (cases s; cases t) simp

lemma PeekByteArray_eq:
  "small_stack s \<Longrightarrow> PeekByteArray s i =
     (if 0 \<le> i \<and> i < int (length (stk s)) then Inr (tops s ! nat i) else raise ErrStackUnderflow)"
  by (auto simp: PeekByteArray_def at_def rev_nth nat_diff_distrib nat_less_iff)

lemma nipN_eq:
  assumes "small_stack s"
  shows "nipN s i = (if 0 \<le> i \<and> i < int (length (stk s))
     then Inr (tops s ! nat i, with_tops s (take (nat i) (tops s) @ drop (Suc (nat i)) (tops s)))
     else raise ErrStackUnderflow)"
proof (cases "0 \<le> i \<and> i < int (length (stk s))")
  case True
  define k where "k = nat i"
  define n where "n = length (stk s)"
  have i: "i = int k" and kn: "k < n" using True by (auto simp: k_def n_def)
  have sz: "wrap32 (int n) = int n" using assms by (simp add: n_def)
  have at: "at (stk s) (int n - int k - 1) = (Inr (tops s ! k) :: bytes sres)"
    using kn by (simp add: at_def rev_nth n_def nat_diff_distrib' of_nat_diff)
  have rev: "rev (take k (tops s) @ drop (Suc k) (tops s)) = take (n - Suc k) (stk s) @ drop (n - k) (stk s)"
    by (simp add: take_rev drop_rev n_def)
  have low: "slice (stk s) 0 (int n - int k - 1) = (Inr (take (n - Suc k) (stk s)) :: bytes list sres)"
    using kn by (simp add: slice_def n_def nat_diff_distrib')
  have high: "slice (stk s) (int n - int k) (int n) = (Inr (drop (n - k) (stk s)) :: bytes list sres)"
    using kn by (simp add: slice_def n_def nat_diff_distrib')
  have "nipN s i = Inr (tops s ! k, s\<lparr>stk := take (n - Suc k) (stk s) @ drop (n - k) (stk s)\<rparr>)"
  proof -
    consider "k = 0" | "k \<noteq> 0" "Suc k = n" | "k \<noteq> 0" "Suc k < n" using kn by linarith
    then show ?thesis
    proof cases
      case 1
      then show ?thesis using low at kn by (simp add: nipN_def i sz flip: n_def)
    next
      case 2
      have "slice (stk s) 1 (int n) = (Inr (drop 1 (stk s)) :: bytes list sres)"
        using 2 by (simp add: slice_def n_def)
      moreover have "n - k = 1" using 2 by simp
      ultimately show ?thesis
        using 2 at by (simp add: nipN_def i sz flip: n_def)
    next
      case 3
      then show ?thesis using low high at kn by (simp add: nipN_def i sz flip: n_def)
    qed
  qed
  with True rev show ?thesis by (simp add: k_def)
qed (use assms in \<open>auto simp: nipN_def Let_def\<close>)

lemma small_stack_update [simp]:
  "small_stack (s\<lparr>stk := xs\<rparr>) \<longleftrightarrow> length xs < 2 ^ 31"
  by (simp add: small_stack_def)

lemma PopByteArray_eq:
  "small_stack s \<Longrightarrow> PopByteArray s =
     (if stk s = [] then raise ErrStackUnderflow else Inr (last (stk s), s\<lparr>stk := butlast (stk s)\<rparr>))"
  by (auto simp: PopByteArray_def nipN_eq hd_rev drop_Suc hd_conv_nth [symmetric] rev_nth
      butlast_rev [symmetric] last_conv_nth simp flip: hd_rev)

lemma tops_Push [simp]: "tops (PushByteArray s x) = x # tops s"
  by (simp add: PushByteArray_def)

lemma PushByteArray_stk: "PushByteArray (s\<lparr>stk := ys\<rparr>) x = s\<lparr>stk := ys @ [x]\<rparr>"
  by (simp add: PushByteArray_def)

section \<open>Loops over the stack\<close>

text \<open>Moving the element at depth \<open>m - 1\<close> to the top \<open>n\<close> times rotates the upper \<open>m\<close> elements.\<close>

lemma roll_loop:
  assumes "n \<le> m" "length xs = m" "m + length zs < 2 ^ 31" "0 < m"
  shows "iterE n (\<lambda>s. bindE (nipN s (int m - 1)) (\<lambda>(so, s). Inr (PushByteArray s so))) (with_tops s (xs @ zs))
     = Inr (with_tops s (drop (m - n) xs @ take (m - n) xs @ zs))"
  using assms
proof (induction n arbitrary: xs)
  case (Suc n)
  let ?f = "\<lambda>s. bindE (nipN s (int m - 1)) (\<lambda>(so, s). Inr (PushByteArray s so))"
  obtain ys x where xs: "xs = ys @ [x]" "length ys = m - 1"
    using Suc.prems by (cases xs rule: rev_cases) auto
  have "?f (with_tops s (xs @ zs)) = Inr (with_tops s ((x # ys) @ zs))"
    using Suc.prems by (simp add: nipN_eq xs nat_diff_distrib' PushByteArray_stk nth_append)
  moreover have "iterE n ?f (with_tops s ((x # ys) @ zs)) =
      Inr (with_tops s (drop (m - n) (x # ys) @ take (m - n) (x # ys) @ zs))"
    using Suc.prems by (intro Suc.IH) (auto simp: xs)
  moreover have "drop (m - n) (x # ys) @ take (m - n) (x # ys) = drop (m - Suc n) xs @ take (m - Suc n) xs"
    using Suc.prems by (simp add: xs drop_Cons' take_Cons')
  ultimately show ?case by (simp del: append_assoc add: append_assoc [symmetric])
qed simp

text \<open>Copying the element at depth \<open>m - 1\<close> to the top \<open>n\<close> times copies \<open>n\<close> elements in order.\<close>

lemma pick_loop:
  assumes "n \<le> m" "m \<le> length xs" "length xs + n < 2 ^ 31"
  shows "iterE n (\<lambda>s. bindE (PeekByteArray s (int m - 1)) (\<lambda>so. Inr (PushByteArray s so))) (with_tops s xs)
     = Inr (with_tops s (drop (m - n) (take m xs) @ xs))"
  using assms
proof (induction n arbitrary: xs)
  case (Suc n)
  let ?f = "\<lambda>s. bindE (PeekByteArray s (int m - 1)) (\<lambda>so. Inr (PushByteArray s so))"
  let ?x = "xs ! (m - 1)"
  have "?f (with_tops s xs) = Inr (with_tops s (?x # xs))"
    using Suc.prems by (simp add: PeekByteArray_eq PushByteArray_stk nat_diff_distrib')
  moreover have "iterE n ?f (with_tops s (?x # xs)) =
      Inr (with_tops s (drop (m - n) (take m (?x # xs)) @ ?x # xs))"
    using Suc.prems by (intro Suc.IH) auto
  moreover have e: "drop (m - Suc n) (take m xs) = drop (m - n) (take m (?x # xs)) @ [?x]"
  proof -
    have "take m xs = take (m - 1) xs @ [?x]" "take m (?x # xs) = ?x # take (m - 1) xs"
      using Suc.prems by (auto simp: take_Cons' simp flip: take_Suc_conv_app_nth)
    then show ?thesis using Suc.prems by (simp add: drop_Cons')
  qed
  ultimately show ?case by (simp add: e)
qed simp

lemma drop_loop:
  assumes "n \<le> length xs" "length xs < 2 ^ 31"
  shows "iterE n (\<lambda>s. bindE (PopByteArray s) (\<lambda>(_, s). Inr s)) (with_tops s xs)
     = Inr (with_tops s (drop n xs))"
  using assms by (induction n arbitrary: xs) (auto simp: PopByteArray_eq butlast_rev drop_Suc)

text \<open>The loops report an underflow when the stack is too short.\<close>

lemma roll_loop_underflow:
  assumes "length (stk s) < m" "small_stack s" "0 < n"
  shows "iterE n (\<lambda>s. bindE (nipN s (int m - 1)) (\<lambda>(so, s). Inr (PushByteArray s so))) s = raise ErrStackUnderflow"
  using assms by (cases n) (auto simp: nipN_eq)

lemma pick_loop_underflow:
  assumes "length (stk s) < m" "small_stack s" "0 < n"
  shows "iterE n (\<lambda>s. bindE (PeekByteArray s (int m - 1)) (\<lambda>so. Inr (PushByteArray s so))) s = raise ErrStackUnderflow"
  using assms by (cases n) (auto simp: PeekByteArray_eq)

lemma drop_loop_underflow:
  assumes "length (stk s) < n" "small_stack s"
  shows "iterE n (\<lambda>s. bindE (PopByteArray s) (\<lambda>(_, s). Inr s)) s = raise ErrStackUnderflow"
  using assms
proof (induction n arbitrary: s)
  case (Suc n)
  show ?case
  proof (cases "stk s" rule: rev_cases)
    case (snoc ys y)
    then show ?thesis using Suc.IH [of "s\<lparr>stk := ys\<rparr>"] Suc.prems
      by (simp add: PopByteArray_eq small_stack_def)
  qed (use Suc.prems in \<open>simp add: PopByteArray_eq\<close>)
qed simp

section \<open>The operations on the stack read from the top\<close>

lemma DropN_eq:
  assumes "small_stack s" "0 < n"
  shows "DropN s (int n) = (if n \<le> length (stk s) then Inr (with_tops s (drop n (tops s)))
     else raise ErrStackUnderflow)"
  using assms drop_loop [of n "tops s" s] drop_loop_underflow [of s n]
  by (auto simp: DropN_def small_stack_def)

lemma DupN_eq:
  assumes "length (stk s) + n < 2 ^ 31" "0 < n"
  shows "DupN s (int n) = (if n \<le> length (stk s) then Inr (with_tops s (take n (tops s) @ tops s))
     else raise ErrStackUnderflow)"
  using assms pick_loop [of n n "tops s" s] pick_loop_underflow [of s n n]
  by (auto simp: DupN_def small_stack_def)

lemma OverN_eq:
  assumes "length (stk s) + n < 2 ^ 31" "0 < n" "n < 2 ^ 29"
  shows "OverN s (int n) = (if 2 * n \<le> length (stk s)
     then Inr (with_tops s (take n (drop n (tops s)) @ tops s)) else raise ErrStackUnderflow)"
proof -
  have "wrap32 (2 * int n - 1) = int (2 * n) - 1" using assms by (simp add: wrap32_id)
  then show ?thesis
    using assms pick_loop [of n "2 * n" "tops s" s] pick_loop_underflow [of s "2 * n" n]
    by (auto simp: OverN_def small_stack_def take_drop simp flip: mult_2)
qed

lemma SwapN_eq:
  assumes "small_stack s" "0 < n" "n < 2 ^ 29"
  shows "SwapN s (int n) = (if 2 * n \<le> length (stk s)
     then Inr (with_tops s (take n (drop n (tops s)) @ take n (tops s) @ drop (2 * n) (tops s)))
     else raise ErrStackUnderflow)"
proof -
  have "wrap32 (2 * int n - 1) = int (2 * n) - 1" using assms by (simp add: wrap32_id)
  then show ?thesis
    using assms roll_loop [of n "2 * n" "take (2 * n) (tops s)" "drop (2 * n) (tops s)" s]
      roll_loop_underflow [of s "2 * n" n]
    by (auto simp: SwapN_def small_stack_def take_drop min_def simp flip: mult_2)
qed

lemma RotN_eq:
  assumes "small_stack s" "0 < n" "n < 2 ^ 29"
  shows "RotN s (int n) = (if 3 * n \<le> length (stk s)
     then Inr (with_tops s (take n (drop (2 * n) (tops s)) @ take (2 * n) (tops s) @ drop (3 * n) (tops s)))
     else raise ErrStackUnderflow)"
proof -
  have "wrap32 (3 * int n - 1) = int (3 * n) - 1" using assms by (simp add: wrap32_id)
  then show ?thesis
    using assms roll_loop [of n "3 * n" "take (3 * n) (tops s)" "drop (3 * n) (tops s)" s]
      roll_loop_underflow [of s "3 * n" n]
    by (auto simp: RotN_def small_stack_def take_drop min_def simp flip: mult_2)
qed

lemma Tuck_eq:
  assumes "small_stack s"
  shows "Tuck s = (case tops s of x2 # x1 # xs \<Rightarrow> Inr (with_tops s (x2 # x1 # x2 # xs))
     | _ \<Rightarrow> raise ErrStackUnderflow)"
  using assms
  by (cases "stk s" rule: rev_cases; cases "butlast (stk s)" rule: rev_cases)
     (auto simp: Tuck_def PopByteArray_eq PushByteArray_def butlast_append small_stack_def)

lemma PickN_eq:
  "small_stack s \<Longrightarrow> PickN s n = (if 0 \<le> n \<and> n < int (length (stk s))
     then Inr (with_tops s (tops s ! nat n # tops s)) else raise ErrStackUnderflow)"
  by (simp add: PickN_def PeekByteArray_eq PushByteArray_def)

lemma RollN_eq:
  "small_stack s \<Longrightarrow> RollN s n = (if 0 \<le> n \<and> n < int (length (stk s))
     then Inr (with_tops s (tops s ! nat n # take (nat n) (tops s) @ drop (Suc (nat n)) (tops s)))
     else raise ErrStackUnderflow)"
  by (simp add: RollN_def nipN_eq PushByteArray_def)

lemma NipN_eq:
  "small_stack s \<Longrightarrow> NipN s n = (if 0 \<le> n \<and> n < int (length (stk s))
     then Inr (with_tops s (take (nat n) (tops s) @ drop (Suc (nat n)) (tops s)))
     else raise ErrStackUnderflow)"
  by (simp add: NipN_def nipN_eq)

lemmas stack_op_eqs = DropN_eq DupN_eq OverN_eq SwapN_eq RotN_eq Tuck_eq PickN_eq RollN_eq NipN_eq

section \<open>Booleans on the stack\<close>

text \<open>A byte string is false when it is a zero of either sign: every byte is zero, except that the
  last may be the bare sign bit.\<close>

lemma asBoolLoop_eq:
  "i + length bs = n \<Longrightarrow> asBoolLoop i n bs \<longleftrightarrow>
     \<not> (bs = [] \<or> (\<forall>b \<in> set (butlast bs). b = 0) \<and> (last bs = 0 \<or> last bs = 0x80))"
  by (induction bs arbitrary: i) auto

lemma asBool_eq:
  "asBool t \<longleftrightarrow> \<not> (t = [] \<or> (\<forall>b \<in> set (butlast t). b = 0) \<and> (last t = 0 \<or> last t = 0x80))"
  by (simp add: asBool_def asBoolLoop_eq)

lemma asBool_fromBool [simp]: "asBool (fromBool b) = b"
  by (simp add: fromBool_def asBool_eq)

lemma leVal_eq_0_iff: "leVal bs = 0 \<longleftrightarrow> (\<forall>b \<in> set bs. b = 0)"
  by (induction bs) (auto simp: add_nonneg_eq_0_iff uint_0_iff)

text \<open>So the truth value agrees with the number the bytes stand for.\<close>

lemma asBool_signedVal:
  assumes "t \<noteq> []"
  shows "asBool t \<longleftrightarrow> signedVal t \<noteq> 0"
proof -
  obtain u b where t: "t = u @ [b]" using assms by (cases t rule: rev_cases) auto
  have "b AND 0x7f = 0 \<longleftrightarrow> b = 0x80" if "128 \<le> uint b"
    using that and_7f_high [of b] by (auto simp: word_uint_eq_iff)
  moreover have "b \<noteq> 0x80" if "uint b < 128" using that by auto
  moreover have "b \<noteq> 0" if "128 \<le> uint b" using that by auto
  ultimately show ?thesis
    by (auto simp: t asBool_eq signedVal_def leVal_eq_0_iff)
qed

section \<open>Properties\<close>

text \<open>
  C28. The stack operations perform the documented stack transformations. On a stack of height at
  most 1000000, read from the top down, for a count \<open>n\<close> from 1 to 1000: \<^verbatim>\<open>DropN\<close> removes \<open>n\<close>
  elements, \<^verbatim>\<open>DupN\<close> copies the top \<open>n\<close>, \<^verbatim>\<open>OverN\<close> copies the second group of \<open>n\<close>, \<^verbatim>\<open>SwapN\<close> exchanges
  the top two groups of \<open>n\<close>, \<^verbatim>\<open>RotN\<close> brings the third group of \<open>n\<close> to the top; each of them fails with
  an underflow error exactly when the stack is too short.
\<close>

theorem stack_group_operations:
  assumes "length (stk s) \<le> 1000000" "0 < n" "n \<le> 1000"
  shows "DropN s (int n) = (if n \<le> length (stk s) then Inr (with_tops s (drop n (tops s)))
       else raise ErrStackUnderflow) \<and>
     DupN s (int n) = (if n \<le> length (stk s) then Inr (with_tops s (take n (tops s) @ tops s))
       else raise ErrStackUnderflow) \<and>
     OverN s (int n) = (if 2 * n \<le> length (stk s)
       then Inr (with_tops s (take n (drop n (tops s)) @ tops s)) else raise ErrStackUnderflow) \<and>
     SwapN s (int n) = (if 2 * n \<le> length (stk s)
       then Inr (with_tops s (take n (drop n (tops s)) @ take n (tops s) @ drop (2 * n) (tops s)))
       else raise ErrStackUnderflow) \<and>
     RotN s (int n) = (if 3 * n \<le> length (stk s)
       then Inr (with_tops s (take n (drop (2 * n) (tops s)) @ take (2 * n) (tops s) @ drop (3 * n) (tops s)))
       else raise ErrStackUnderflow)"
  using assms
  by (intro conjI DropN_eq DupN_eq OverN_eq SwapN_eq RotN_eq) (auto simp: small_stack_def)

theorem stack_group_operations_witness:
  "RotN \<lparr>stk = [[1], [2], [3], [4]], verifyMinimalData = True\<rparr> 1
     = Inr \<lparr>stk = [[1], [3], [4], [2]], verifyMinimalData = True\<rparr>"
  using stack_group_operations [of "\<lparr>stk = [[1], [2], [3], [4]], verifyMinimalData = True\<rparr>" 1]
  by simp

text \<open>
  The truth value of a stack element agrees with its value as a script number. A byte string of
  at most eight bytes is true exactly when, decoded without the minimal-encoding rule, it is not
  zero; in particular negative zero is false.
\<close>

theorem asBool_agrees_with_number:
  assumes "length t \<le> 8"
  shows "asBool t \<longleftrightarrow> makeScriptNum t False 8 \<noteq> Inr 0"
proof (cases "t = []")
  case True
  then show ?thesis by (simp add: asBool_eq makeScriptNum_def)
next
  case False
  then show ?thesis using assms makeScriptNum_value [of t 8 False] asBool_signedVal by simp
qed

theorem asBool_agrees_with_number_witness:
  "\<not> asBool [0, 0x80] \<and> makeScriptNum [0, 0x80] False 8 = Inr 0"
  using asBool_agrees_with_number [of "[0, 0x80]"] by (simp add: asBool_def)

end
