(* ===== verification/Script.thy ===== *)
theory Script
  imports ScriptStack
begin

unbundle bit_operations_syntax

text \<open>
  Scripts in raw and in parsed form: the opcode table and the operations on one parsed opcode
  (\<^verbatim>\<open>src/txscript/opcode.go\<close>), the parser and the unparser, signature operation counting
  (\<^verbatim>\<open>src/txscript/script.go\<close>) and the script builder (\<^verbatim>\<open>src/txscript/scriptbuilder.go\<close>).
  The lemmas relate parser and unparser, the builder's size computation with what it emits, and the
  builder's pushes with the minimal-push rule of the engine.

  A parsed opcode points to an entry of the opcode table; the model keeps the entry's value and
  length. The handler functions of the table are given with the engine. The parser's \<^verbatim>\<open>data\<close> slice is
  nil exactly for the opcodes of length 1.
\<close>

section \<open>Opcodes\<close>

abbreviation (input) OP_0 :: byte where "OP_0 \<equiv> 0x00"
abbreviation (input) OP_FALSE :: byte where "OP_FALSE \<equiv> 0x00"
abbreviation (input) OP_DATA_1 :: byte where "OP_DATA_1 \<equiv> 0x01"
abbreviation (input) OP_DATA_2 :: byte where "OP_DATA_2 \<equiv> 0x02"
abbreviation (input) OP_DATA_16 :: byte where "OP_DATA_16 \<equiv> 0x10"
abbreviation (input) OP_DATA_20 :: byte where "OP_DATA_20 \<equiv> 0x14"
abbreviation (input) OP_DATA_75 :: byte where "OP_DATA_75 \<equiv> 0x4b"
abbreviation (input) OP_PUSHDATA1 :: byte where "OP_PUSHDATA1 \<equiv> 0x4c"
abbreviation (input) OP_PUSHDATA2 :: byte where "OP_PUSHDATA2 \<equiv> 0x4d"
abbreviation (input) OP_PUSHDATA4 :: byte where "OP_PUSHDATA4 \<equiv> 0x4e"
abbreviation (input) OP_1NEGATE :: byte where "OP_1NEGATE \<equiv> 0x4f"
abbreviation (input) OP_RESERVED :: byte where "OP_RESERVED \<equiv> 0x50"
abbreviation (input) OP_1 :: byte where "OP_1 \<equiv> 0x51"
abbreviation (input) OP_TRUE :: byte where "OP_TRUE \<equiv> 0x51"
abbreviation (input) OP_2 :: byte where "OP_2 \<equiv> 0x52"
abbreviation (input) OP_3 :: byte where "OP_3 \<equiv> 0x53"
abbreviation (input) OP_4 :: byte where "OP_4 \<equiv> 0x54"
abbreviation (input) OP_5 :: byte where "OP_5 \<equiv> 0x55"
abbreviation (input) OP_6 :: byte where "OP_6 \<equiv> 0x56"
abbreviation (input) OP_7 :: byte where "OP_7 \<equiv> 0x57"
abbreviation (input) OP_8 :: byte where "OP_8 \<equiv> 0x58"
abbreviation (input) OP_9 :: byte where "OP_9 \<equiv> 0x59"
abbreviation (input) OP_10 :: byte where "OP_10 \<equiv> 0x5a"
abbreviation (input) OP_11 :: byte where "OP_11 \<equiv> 0x5b"
abbreviation (input) OP_12 :: byte where "OP_12 \<equiv> 0x5c"
abbreviation (input) OP_13 :: byte where "OP_13 \<equiv> 0x5d"
abbreviation (input) OP_14 :: byte where "OP_14 \<equiv> 0x5e"
abbreviation (input) OP_15 :: byte where "OP_15 \<equiv> 0x5f"
abbreviation (input) OP_16 :: byte where "OP_16 \<equiv> 0x60"
abbreviation (input) OP_NOP :: byte where "OP_NOP \<equiv> 0x61"
abbreviation (input) OP_VER :: byte where "OP_VER \<equiv> 0x62"
abbreviation (input) OP_IF :: byte where "OP_IF \<equiv> 0x63"
abbreviation (input) OP_NOTIF :: byte where "OP_NOTIF \<equiv> 0x64"
abbreviation (input) OP_VERIF :: byte where "OP_VERIF \<equiv> 0x65"
abbreviation (input) OP_VERNOTIF :: byte where "OP_VERNOTIF \<equiv> 0x66"
abbreviation (input) OP_ELSE :: byte where "OP_ELSE \<equiv> 0x67"
abbreviation (input) OP_ENDIF :: byte where "OP_ENDIF \<equiv> 0x68"
abbreviation (input) OP_VERIFY :: byte where "OP_VERIFY \<equiv> 0x69"
abbreviation (input) OP_RETURN :: byte where "OP_RETURN \<equiv> 0x6a"
abbreviation (input) OP_TOALTSTACK :: byte where "OP_TOALTSTACK \<equiv> 0x6b"
abbreviation (input) OP_FROMALTSTACK :: byte where "OP_FROMALTSTACK \<equiv> 0x6c"
abbreviation (input) OP_2DROP :: byte where "OP_2DROP \<equiv> 0x6d"
abbreviation (input) OP_2DUP :: byte where "OP_2DUP \<equiv> 0x6e"
abbreviation (input) OP_3DUP :: byte where "OP_3DUP \<equiv> 0x6f"
abbreviation (input) OP_2OVER :: byte where "OP_2OVER \<equiv> 0x70"
abbreviation (input) OP_2ROT :: byte where "OP_2ROT \<equiv> 0x71"
abbreviation (input) OP_2SWAP :: byte where "OP_2SWAP \<equiv> 0x72"
abbreviation (input) OP_IFDUP :: byte where "OP_IFDUP \<equiv> 0x73"
abbreviation (input) OP_DEPTH :: byte where "OP_DEPTH \<equiv> 0x74"
abbreviation (input) OP_DROP :: byte where "OP_DROP \<equiv> 0x75"
abbreviation (input) OP_DUP :: byte where "OP_DUP \<equiv> 0x76"
abbreviation (input) OP_NIP :: byte where "OP_NIP \<equiv> 0x77"
abbreviation (input) OP_OVER :: byte where "OP_OVER \<equiv> 0x78"
abbreviation (input) OP_PICK :: byte where "OP_PICK \<equiv> 0x79"
abbreviation (input) OP_ROLL :: byte where "OP_ROLL \<equiv> 0x7a"
abbreviation (input) OP_ROT :: byte where "OP_ROT \<equiv> 0x7b"
abbreviation (input) OP_SWAP :: byte where "OP_SWAP \<equiv> 0x7c"
abbreviation (input) OP_TUCK :: byte where "OP_TUCK \<equiv> 0x7d"
abbreviation (input) OP_CAT :: byte where "OP_CAT \<equiv> 0x7e"
abbreviation (input) OP_SUBSTR :: byte where "OP_SUBSTR \<equiv> 0x7f"
abbreviation (input) OP_LEFT :: byte where "OP_LEFT \<equiv> 0x80"
abbreviation (input) OP_RIGHT :: byte where "OP_RIGHT \<equiv> 0x81"
abbreviation (input) OP_SIZE :: byte where "OP_SIZE \<equiv> 0x82"
abbreviation (input) OP_INVERT :: byte where "OP_INVERT \<equiv> 0x83"
abbreviation (input) OP_AND :: byte where "OP_AND \<equiv> 0x84"
abbreviation (input) OP_OR :: byte where "OP_OR \<equiv> 0x85"
abbreviation (input) OP_XOR :: byte where "OP_XOR \<equiv> 0x86"
abbreviation (input) OP_EQUAL :: byte where "OP_EQUAL \<equiv> 0x87"
abbreviation (input) OP_EQUALVERIFY :: byte where "OP_EQUALVERIFY \<equiv> 0x88"
abbreviation (input) OP_ROTR :: byte where "OP_ROTR \<equiv> 0x89"
abbreviation (input) OP_ROTL :: byte where "OP_ROTL \<equiv> 0x8a"
abbreviation (input) OP_1ADD :: byte where "OP_1ADD \<equiv> 0x8b"
abbreviation (input) OP_1SUB :: byte where "OP_1SUB \<equiv> 0x8c"
abbreviation (input) OP_2MUL :: byte where "OP_2MUL \<equiv> 0x8d"
abbreviation (input) OP_2DIV :: byte where "OP_2DIV \<equiv> 0x8e"
abbreviation (input) OP_NEGATE :: byte where "OP_NEGATE \<equiv> 0x8f"
abbreviation (input) OP_ABS :: byte where "OP_ABS \<equiv> 0x90"
abbreviation (input) OP_NOT :: byte where "OP_NOT \<equiv> 0x91"
abbreviation (input) OP_0NOTEQUAL :: byte where "OP_0NOTEQUAL \<equiv> 0x92"
abbreviation (input) OP_ADD :: byte where "OP_ADD \<equiv> 0x93"
abbreviation (input) OP_SUB :: byte where "OP_SUB \<equiv> 0x94"
abbreviation (input) OP_MUL :: byte where "OP_MUL \<equiv> 0x95"
abbreviation (input) OP_DIV :: byte where "OP_DIV \<equiv> 0x96"
abbreviation (input) OP_MOD :: byte where "OP_MOD \<equiv> 0x97"
abbreviation (input) OP_LSHIFT :: byte where "OP_LSHIFT \<equiv> 0x98"
abbreviation (input) OP_RSHIFT :: byte where "OP_RSHIFT \<equiv> 0x99"
abbreviation (input) OP_BOOLAND :: byte where "OP_BOOLAND \<equiv> 0x9a"
abbreviation (input) OP_BOOLOR :: byte where "OP_BOOLOR \<equiv> 0x9b"
abbreviation (input) OP_NUMEQUAL :: byte where "OP_NUMEQUAL \<equiv> 0x9c"
abbreviation (input) OP_NUMEQUALVERIFY :: byte where "OP_NUMEQUALVERIFY \<equiv> 0x9d"
abbreviation (input) OP_NUMNOTEQUAL :: byte where "OP_NUMNOTEQUAL \<equiv> 0x9e"
abbreviation (input) OP_LESSTHAN :: byte where "OP_LESSTHAN \<equiv> 0x9f"
abbreviation (input) OP_GREATERTHAN :: byte where "OP_GREATERTHAN \<equiv> 0xa0"
abbreviation (input) OP_LESSTHANOREQUAL :: byte where "OP_LESSTHANOREQUAL \<equiv> 0xa1"
abbreviation (input) OP_GREATERTHANOREQUAL :: byte where "OP_GREATERTHANOREQUAL \<equiv> 0xa2"
abbreviation (input) OP_MIN :: byte where "OP_MIN \<equiv> 0xa3"
abbreviation (input) OP_MAX :: byte where "OP_MAX \<equiv> 0xa4"
abbreviation (input) OP_WITHIN :: byte where "OP_WITHIN \<equiv> 0xa5"
abbreviation (input) OP_RIPEMD160 :: byte where "OP_RIPEMD160 \<equiv> 0xa6"
abbreviation (input) OP_SHA1 :: byte where "OP_SHA1 \<equiv> 0xa7"
abbreviation (input) OP_SHA256 :: byte where "OP_SHA256 \<equiv> 0xa8"
abbreviation (input) OP_HASH160 :: byte where "OP_HASH160 \<equiv> 0xa9"
abbreviation (input) OP_HASH256 :: byte where "OP_HASH256 \<equiv> 0xaa"
abbreviation (input) OP_CODESEPARATOR :: byte where "OP_CODESEPARATOR \<equiv> 0xab"
abbreviation (input) OP_CHECKSIG :: byte where "OP_CHECKSIG \<equiv> 0xac"
abbreviation (input) OP_CHECKSIGVERIFY :: byte where "OP_CHECKSIGVERIFY \<equiv> 0xad"
abbreviation (input) OP_CHECKMULTISIG :: byte where "OP_CHECKMULTISIG \<equiv> 0xae"
abbreviation (input) OP_CHECKMULTISIGVERIFY :: byte where "OP_CHECKMULTISIGVERIFY \<equiv> 0xaf"
abbreviation (input) OP_NOP1 :: byte where "OP_NOP1 \<equiv> 0xb0"
abbreviation (input) OP_NOP2 :: byte where "OP_NOP2 \<equiv> 0xb1"
abbreviation (input) OP_CHECKLOCKTIMEVERIFY :: byte where "OP_CHECKLOCKTIMEVERIFY \<equiv> 0xb1"
abbreviation (input) OP_NOP3 :: byte where "OP_NOP3 \<equiv> 0xb2"
abbreviation (input) OP_CHECKSEQUENCEVERIFY :: byte where "OP_CHECKSEQUENCEVERIFY \<equiv> 0xb2"
abbreviation (input) OP_NOP4 :: byte where "OP_NOP4 \<equiv> 0xb3"
abbreviation (input) OP_NOP5 :: byte where "OP_NOP5 \<equiv> 0xb4"
abbreviation (input) OP_NOP6 :: byte where "OP_NOP6 \<equiv> 0xb5"
abbreviation (input) OP_NOP7 :: byte where "OP_NOP7 \<equiv> 0xb6"
abbreviation (input) OP_NOP8 :: byte where "OP_NOP8 \<equiv> 0xb7"
abbreviation (input) OP_NOP9 :: byte where "OP_NOP9 \<equiv> 0xb8"
abbreviation (input) OP_NOP10 :: byte where "OP_NOP10 \<equiv> 0xb9"
abbreviation (input) OP_SSTX :: byte where "OP_SSTX \<equiv> 0xba"
abbreviation (input) OP_SSGEN :: byte where "OP_SSGEN \<equiv> 0xbb"
abbreviation (input) OP_SSRTX :: byte where "OP_SSRTX \<equiv> 0xbc"
abbreviation (input) OP_SSTXCHANGE :: byte where "OP_SSTXCHANGE \<equiv> 0xbd"
abbreviation (input) OP_CHECKSIGALT :: byte where "OP_CHECKSIGALT \<equiv> 0xbe"
abbreviation (input) OP_CHECKSIGALTVERIFY :: byte where "OP_CHECKSIGALTVERIFY \<equiv> 0xbf"
abbreviation (input) OP_SMALLDATA :: byte where "OP_SMALLDATA \<equiv> 0xf9"
abbreviation (input) OP_SMALLINTEGER :: byte where "OP_SMALLINTEGER \<equiv> 0xfa"
abbreviation (input) OP_PUBKEYS :: byte where "OP_PUBKEYS \<equiv> 0xfb"
abbreviation (input) OP_PUBKEYHASH :: byte where "OP_PUBKEYHASH \<equiv> 0xfd"
abbreviation (input) OP_PUBKEY :: byte where "OP_PUBKEY \<equiv> 0xfe"
abbreviation (input) OP_INVALIDOPCODE :: byte where "OP_INVALIDOPCODE \<equiv> 0xff"

record opcode =
  op_value :: byte
  op_length :: int

record parsedOpcode =
  pop_opcode :: opcode
  pop_data :: bytes

abbreviation pop_value :: "parsedOpcode \<Rightarrow> byte" where
  "pop_value pop \<equiv> op_value (pop_opcode pop)"

text \<open>The lengths of \<^verbatim>\<open>opcodeArray\<close>: one byte for most opcodes, one more than the data for
  \<^verbatim>\<open>OP_DATA_1\<close> to \<^verbatim>\<open>OP_DATA_75\<close>, and minus the size of the length field for \<^verbatim>\<open>OP_PUSHDATA\<close>.\<close>

definition opcodeArray :: "byte \<Rightarrow> opcode" where
  "opcodeArray v = \<lparr>op_value = v, op_length =
     (if OP_DATA_1 \<le> v \<and> v \<le> OP_DATA_75 then uint v + 1
      else if v = OP_PUSHDATA1 then -1 else if v = OP_PUSHDATA2 then -2
      else if v = OP_PUSHDATA4 then -4 else 1)\<rparr>"

definition MaxOpsPerScript :: int where "MaxOpsPerScript = 255"
definition MaxPubKeysPerMultiSig :: int where "MaxPubKeysPerMultiSig = 20"
definition MaxScriptElementSize :: int where "MaxScriptElementSize = 8192"
definition maxScriptSize :: int where "maxScriptSize = 16384"

definition isDisabled :: "parsedOpcode \<Rightarrow> bool" where
  "isDisabled pop = (pop_value pop = OP_CODESEPARATOR)"

definition alwaysIllegal :: "parsedOpcode \<Rightarrow> bool" where
  "alwaysIllegal pop = (pop_value pop = OP_VERIF \<or> pop_value pop = OP_VERNOTIF)"

definition isConditional :: "parsedOpcode \<Rightarrow> bool" where
  "isConditional pop = (pop_value pop = OP_IF \<or> pop_value pop = OP_NOTIF \<or>
     pop_value pop = OP_ELSE \<or> pop_value pop = OP_ENDIF)"

definition checkMinimalDataPush :: "parsedOpcode \<Rightarrow> unit sres" where
  "checkMinimalDataPush pop =
     (let data = pop_data pop; dataLen = length data; opc = pop_value pop
      in if dataLen = 0 \<and> opc \<noteq> OP_0 then raise ErrStackMinimalData
         else if dataLen = 1 \<and> data ! 0 \<ge> 1 \<and> data ! 0 \<le> 16
         then (if opc \<noteq> OP_1 + data ! 0 - 1 then raise ErrStackMinimalData else Inr ())
         else if dataLen = 1 \<and> data ! 0 = 0x81
         then (if opc \<noteq> OP_1NEGATE then raise ErrStackMinimalData else Inr ())
         else if dataLen \<le> 75
         then (if unat opc \<noteq> dataLen then raise ErrStackMinimalData else Inr ())
         else if dataLen \<le> 255
         then (if opc \<noteq> OP_PUSHDATA1 then raise ErrStackMinimalData else Inr ())
         else if dataLen \<le> 65535
         then (if opc \<noteq> OP_PUSHDATA2 then raise ErrStackMinimalData else Inr ())
         else Inr ())"

definition parsedOpcode_bytes :: "parsedOpcode \<Rightarrow> bytes sres" where
  "parsedOpcode_bytes pop =
     (let opl = op_length (pop_opcode pop); data = pop_data pop; l = length data;
          ret = [pop_value pop]
      in if opl = 1 then (if l \<noteq> 0 then raise ErrStackInvalidOpcode else Inr ret)
         else let (ret, nbytes) =
                (if opl = -1 then (ret @ lenBytes 1 l, leVal (lenBytes 1 l) + 2)
                 else if opl = -2 then (ret @ lenBytes 2 l, leVal (lenBytes 2 l) + 3)
                 else if opl = -4 then (ret @ lenBytes 4 l, leVal (lenBytes 4 l) + 5)
                 else (ret, opl));
                  ret = ret @ data
              in if int (length ret) \<noteq> nbytes then raise ErrStackInvalidOpcode else Inr ret)"

section \<open>Parsing\<close>

definition isSmallInt :: "opcode \<Rightarrow> bool" where
  "isSmallInt op = (op_value op = OP_0 \<or> (op_value op \<ge> OP_1 \<and> op_value op \<le> OP_16))"

text \<open>
  One round of the parsing loop at offset \<open>i\<close>: the parsed opcode and the next offset. With
  \<open>alt\<close> it is the loop of \<^verbatim>\<open>parseAltScriptTemplate\<close>, which reads a data push of at most 16 bytes at
  offset 24 as the small integer opcode of the same number.
\<close>

definition parseOne :: "bool \<Rightarrow> bytes \<Rightarrow> nat \<Rightarrow> (parsedOpcode \<times> nat) sres" where
  "parseOne alt script i =
     (let instr = script ! i;
          instr = (if alt \<and> i = 24 \<and> instr \<ge> OP_DATA_1 \<and> instr \<le> OP_DATA_16 then instr + 80 else instr);
          op = opcodeArray instr; opl = op_length op
      in if opl = 1 then Inr (\<lparr>pop_opcode = op, pop_data = []\<rparr>, i + 1)
         else if opl > 1
         then (if int (length (drop i script)) < opl then raise ErrStackShortScript
               else Inr (\<lparr>pop_opcode = op, pop_data = take (nat opl - 1) (drop (i + 1) script)\<rparr>,
                         i + nat opl))
         else let off = i + 1
              in if int (length (drop off script)) < - opl then raise ErrStackShortScript
                 else if opl \<noteq> -1 \<and> opl \<noteq> -2 \<and> opl \<noteq> -4 then raise (ErrMsg ''invalid opcode length'')
                 else let k = nat (- opl);
                          l = nat (leVal (take k (drop off script)));
                          off = off + k
                      in if l > length (drop off script) then raise ErrStackShortScript
                         else Inr (\<lparr>pop_opcode = op, pop_data = take l (drop off script)\<rparr>,
                                   i + 1 + k + l))"

text \<open>Every opcode of the table has a non-zero length, so a round of the loop moves forward.\<close>

lemma opcodeArray_length: "op_length (opcodeArray v) \<noteq> 0"
proof -
  have "uint v + 1 \<noteq> 0" using uint_byte_bounds(1) [of v] by linarith
  then show ?thesis by (auto simp: opcodeArray_def)
qed

lemma parseOne_progress: "parseOne alt script i = Inr (pop, i') \<Longrightarrow> i < i'"
  by (auto simp: parseOne_def Let_def split: if_splits)

text \<open>The loop returns the opcodes parsed so far together with the error, if any.\<close>

function parseLoop ::
  "bool \<Rightarrow> bytes \<Rightarrow> nat \<Rightarrow> parsedOpcode list \<Rightarrow> parsedOpcode list \<times> script_error failure option" where
  "parseLoop alt script i ret =
     (if i < length script
      then (case parseOne alt script i of
              Inl e \<Rightarrow> (ret, Some e)
            | Inr (pop, i') \<Rightarrow> parseLoop alt script i' (ret @ [pop]))
      else (ret, None))"
  by pat_completeness auto
termination
  by (relation "measure (\<lambda>(alt, script, i, ret). length script - i)")
     (auto dest: parseOne_progress)

definition parseAltScriptTemplate :: "bytes \<Rightarrow> parsedOpcode list \<times> script_error failure option" where
  "parseAltScriptTemplate script = parseLoop True script 0 []"

definition parseScriptTemplate :: "bytes \<Rightarrow> parsedOpcode list \<times> script_error failure option" where
  "parseScriptTemplate script = parseLoop False script 0 []"

definition parseScript :: "bytes \<Rightarrow> parsedOpcode list \<times> script_error failure option" where
  "parseScript script =
     (if length script = 26 then parseAltScriptTemplate script else parseScriptTemplate script)"

text \<open>The parse result as a caller that stops on the error sees it.\<close>

definition parseOk :: "bytes \<Rightarrow> parsedOpcode list sres" where
  "parseOk script = (case parseScript script of (pops, None) \<Rightarrow> Inr pops | (_, Some e) \<Rightarrow> Inl e)"

primrec unparseScript :: "parsedOpcode list \<Rightarrow> bytes sres" where
  "unparseScript [] = Inr []"
| "unparseScript (pop # pops) = bindE (parsedOpcode_bytes pop) (\<lambda>b.
     bindE (unparseScript pops) (\<lambda>bs. Inr (b @ bs)))"

section \<open>Operations on parsed scripts\<close>

definition isPushOnly :: "parsedOpcode list \<Rightarrow> bool" where
  "isPushOnly pops = list_all (\<lambda>pop. \<not> pop_value pop > OP_16) pops"

definition IsPushOnlyScript :: "bytes \<Rightarrow> bool" where
  "IsPushOnlyScript script = (case parseOk script of Inl _ \<Rightarrow> False | Inr pops \<Rightarrow> isPushOnly pops)"

definition removeOpcode :: "parsedOpcode list \<Rightarrow> byte \<Rightarrow> parsedOpcode list" where
  "removeOpcode pkscript opc = filter (\<lambda>pop. pop_value pop \<noteq> opc) pkscript"

definition canonicalPush :: "parsedOpcode \<Rightarrow> bool" where
  "canonicalPush pop =
     (let opc = pop_value pop; data = pop_data pop; dataLen = length data
      in if opc > OP_16 then True
         else if opc < OP_PUSHDATA1 \<and> opc > OP_0 \<and> (dataLen = 1 \<and> data ! 0 \<le> 16) then False
         else if opc = OP_PUSHDATA1 \<and> dataLen < 0x4c then False
         else if opc = OP_PUSHDATA2 \<and> dataLen \<le> 0xff then False
         else if opc = OP_PUSHDATA4 \<and> dataLen \<le> 0xffff then False
         else True)"

text \<open>\<^verbatim>\<open>bytes.Contains\<close>: the second string occurs in the first.\<close>

fun contains :: "bytes \<Rightarrow> bytes \<Rightarrow> bool" where
  "contains [] sub = (sub = [])"
| "contains (b # bs) sub = (take (length sub) (b # bs) = sub \<or> contains bs sub)"

definition removeOpcodeByData :: "parsedOpcode list \<Rightarrow> bytes \<Rightarrow> parsedOpcode list" where
  "removeOpcodeByData pkscript data =
     filter (\<lambda>pop. \<not> canonicalPush pop \<or> \<not> contains (pop_data pop) data) pkscript"

definition asSmallInt :: "opcode \<Rightarrow> int" where
  "asSmallInt op = (if op_value op = OP_0 then 0 else uint (op_value op - (OP_1 - 1)))"

text \<open>The loop of \<^verbatim>\<open>getSigOpCount\<close>, with the previous opcode as \<^verbatim>\<open>pops[i-1]\<close>.\<close>

primrec sigOpLoop :: "bool \<Rightarrow> parsedOpcode option \<Rightarrow> int \<Rightarrow> parsedOpcode list \<Rightarrow> int" where
  "sigOpLoop precise prev nSigs [] = nSigs"
| "sigOpLoop precise prev nSigs (pop # pops) =
     sigOpLoop precise (Some pop)
       (let v = pop_value pop
        in if v = OP_CHECKSIG \<or> v = OP_CHECKSIGVERIFY \<or> v = OP_CHECKSIGALT \<or> v = OP_CHECKSIGALTVERIFY
           then nSigs + 1
           else if v = OP_CHECKMULTISIG \<or> v = OP_CHECKMULTISIGVERIFY
           then (case prev of
                   Some p \<Rightarrow> if precise \<and> pop_value p \<ge> OP_1 \<and> pop_value p \<le> OP_16
                             then nSigs + asSmallInt (pop_opcode p) else nSigs + MaxPubKeysPerMultiSig
                 | None \<Rightarrow> nSigs + MaxPubKeysPerMultiSig)
           else nSigs) pops"

definition getSigOpCount :: "parsedOpcode list \<Rightarrow> bool \<Rightarrow> int" where
  "getSigOpCount pops precise = sigOpLoop precise None 0 pops"

definition GetSigOpCount :: "bytes \<Rightarrow> int" where
  "GetSigOpCount script = getSigOpCount (fst (parseScript script)) False"

definition isScriptHash :: "parsedOpcode list \<Rightarrow> bool" where
  "isScriptHash pops = (length pops = 3 \<and> pop_value (pops ! 0) = OP_HASH160 \<and>
     pop_value (pops ! 1) = OP_DATA_20 \<and> pop_value (pops ! 2) = OP_EQUAL)"

definition IsPayToScriptHash :: "bytes \<Rightarrow> bool" where
  "IsPayToScriptHash script = (case parseOk script of Inl _ \<Rightarrow> False | Inr pops \<Rightarrow> isScriptHash pops)"

definition GetPreciseSigOpCount :: "bytes \<Rightarrow> bytes \<Rightarrow> bool \<Rightarrow> int" where
  "GetPreciseSigOpCount scriptSig scriptPubKey bip16 =
     (let pops = fst (parseScript scriptPubKey)
      in if \<not> (bip16 \<and> isScriptHash pops) then getSigOpCount pops True
         else case parseOk scriptSig of
                Inl _ \<Rightarrow> 0
              | Inr sigPops \<Rightarrow>
                  if \<not> isPushOnly sigPops \<or> length sigPops = 0 then 0
                  else let shScript = pop_data (last sigPops)
                       in if length shScript = 0 then 0
                          else getSigOpCount (fst (parseScript shScript)) True)"

definition IsUnspendable :: "int \<Rightarrow> bytes \<Rightarrow> bool" where
  "IsUnspendable amount pkScript =
     (if amount = 0 then True
      else case parseOk pkScript of
             Inl _ \<Rightarrow> True
           | Inr pops \<Rightarrow> length pops > 0 \<and> pop_value (pops ! 0) = OP_RETURN)"

section \<open>The script builder\<close>

record ScriptBuilder =
  sb_script :: bytes
  sb_err :: "string option"

definition NewScriptBuilder :: ScriptBuilder where
  "NewScriptBuilder = \<lparr>sb_script = [], sb_err = None\<rparr>"

definition Reset :: "ScriptBuilder \<Rightarrow> ScriptBuilder" where
  "Reset b = b\<lparr>sb_script := [], sb_err := None\<rparr>"

definition AddOp :: "byte \<Rightarrow> ScriptBuilder \<Rightarrow> ScriptBuilder" where
  "AddOp opc b =
     (if sb_err b \<noteq> None then b
      else if int (length (sb_script b)) + 1 > maxScriptSize
      then b\<lparr>sb_err := Some ''adding an opcode would exceed the maximum allowed canonical script length''\<rparr>
      else b\<lparr>sb_script := sb_script b @ [opc]\<rparr>)"

definition AddOps :: "bytes \<Rightarrow> ScriptBuilder \<Rightarrow> ScriptBuilder" where
  "AddOps opcs b =
     (if sb_err b \<noteq> None then b
      else if int (length (sb_script b)) + int (length opcs) > maxScriptSize
      then b\<lparr>sb_err := Some ''adding opcodes would exceed the maximum allowed canonical script length''\<rparr>
      else b\<lparr>sb_script := sb_script b @ opcs\<rparr>)"

definition canonicalDataSize :: "bytes \<Rightarrow> nat" where
  "canonicalDataSize data =
     (let dataLen = length data
      in if dataLen = 0 then 1
         else if dataLen = 1 \<and> data ! 0 \<le> 16 then 1
         else if dataLen = 1 \<and> data ! 0 = 0x81 then 1
         else if dataLen < 0x4c then 1 + dataLen
         else if dataLen \<le> 0xff then 2 + dataLen
         else if dataLen \<le> 0xffff then 3 + dataLen
         else 5 + dataLen)"

text \<open>What \<^verbatim>\<open>addData\<close> appends to the script.\<close>

definition dataPush :: "bytes \<Rightarrow> bytes" where
  "dataPush data =
     (let dataLen = length data
      in if dataLen = 0 \<or> dataLen = 1 \<and> data ! 0 = 0 then [OP_0]
         else if dataLen = 1 \<and> data ! 0 \<le> 16 then [OP_1 - 1 + data ! 0]
         else if dataLen = 1 \<and> data ! 0 = 0x81 then [OP_1NEGATE]
         else if dataLen < 0x4c then word_of_nat dataLen # data
         else if dataLen \<le> 0xff then OP_PUSHDATA1 # lenBytes 1 dataLen @ data
         else if dataLen \<le> 0xffff then OP_PUSHDATA2 # lenBytes 2 dataLen @ data
         else OP_PUSHDATA4 # lenBytes 4 dataLen @ data)"

definition addData :: "bytes \<Rightarrow> ScriptBuilder \<Rightarrow> ScriptBuilder" where
  "addData data b = b\<lparr>sb_script := sb_script b @ dataPush data\<rparr>"

definition AddFullData :: "bytes \<Rightarrow> ScriptBuilder \<Rightarrow> ScriptBuilder" where
  "AddFullData data b = (if sb_err b \<noteq> None then b else addData data b)"

definition AddData :: "bytes \<Rightarrow> ScriptBuilder \<Rightarrow> ScriptBuilder" where
  "AddData data b =
     (if sb_err b \<noteq> None then b
      else if int (length (sb_script b)) + int (canonicalDataSize data) > maxScriptSize
      then b\<lparr>sb_err := Some ''adding data would exceed the maximum allowed canonical script length''\<rparr>
      else if int (length data) > MaxScriptElementSize
      then b\<lparr>sb_err := Some ''adding a data element would exceed the maximum allowed script element size''\<rparr>
      else addData data b)"

definition AddInt64 :: "int \<Rightarrow> ScriptBuilder \<Rightarrow> ScriptBuilder sres" where
  "AddInt64 val b =
     (if sb_err b \<noteq> None then Inr b
      else if int (length (sb_script b)) + 1 > maxScriptSize
      then Inr (b\<lparr>sb_err := Some ''adding an integer would exceed the maximum allow canonical script length''\<rparr>)
      else if val = 0 then Inr (b\<lparr>sb_script := sb_script b @ [OP_0]\<rparr>)
      else if val = -1 \<or> (val \<ge> 1 \<and> val \<le> 16)
      then Inr (b\<lparr>sb_script := sb_script b @ [word_of_int (uint (OP_1 - 1) + val)]\<rparr>)
      else bindE (scriptNum_Bytes val) (\<lambda>v. Inr (AddData v b)))"

declare parseLoop.simps [simp del]

section \<open>Well-formed parsed opcodes\<close>

definition wf_pop :: "parsedOpcode \<Rightarrow> bool" where
  "wf_pop pop \<longleftrightarrow> pop_opcode pop = opcodeArray (pop_value pop) \<and>
     (let opl = op_length (pop_opcode pop); l = int (length (pop_data pop))
      in if opl > 0 then l = opl - 1 else l < 256 ^ nat (- opl))"

definition pop_bytes :: "parsedOpcode \<Rightarrow> bytes" where
  "pop_bytes pop = pop_value pop #
     (if op_length (pop_opcode pop) < 0
      then lenBytes (nat (- op_length (pop_opcode pop))) (length (pop_data pop)) else []) @ pop_data pop"

lemma opcodeArray_value [simp]: "op_value (opcodeArray v) = v"
  by (simp add: opcodeArray_def)

lemma opcodeArray_length_cases:
  "op_length (opcodeArray v) = 1 \<or> op_length (opcodeArray v) > 1 \<or>
   op_length (opcodeArray v) \<in> {-1, -2, -4}"
proof -
  have "1 \<le> v \<Longrightarrow> uint v + 1 > 1" by (simp add: word_le_def)
  then show ?thesis by (auto simp: opcodeArray_def)
qed

lemma wf_pop_bytes:
  assumes "wf_pop pop"
  shows "parsedOpcode_bytes pop = Inr (pop_bytes pop)"
proof -
  define opl where "opl = op_length (pop_opcode pop)"
  have len: "if opl > 0 then int (length (pop_data pop)) = opl - 1
     else int (length (pop_data pop)) < 256 ^ nat (- opl)"
    using assms unfolding wf_pop_def opl_def Let_def by (rule conjunct2)
  have "opl = 1 \<or> opl > 1 \<or> opl \<in> {-1, -2, -4}"
    using assms opcodeArray_length_cases [of "pop_value pop"] by (simp add: wf_pop_def opl_def)
  then consider "opl = 1" | "opl > 1" | "opl = -1" | "opl = -2" | "opl = -4" by auto
  then show ?thesis
  proof cases
    case 1
    with len show ?thesis by (simp add: parsedOpcode_bytes_def pop_bytes_def flip: opl_def)
  next
    case 2
    with len show ?thesis by (simp add: parsedOpcode_bytes_def pop_bytes_def flip: opl_def)
  next
    case 3
    then have "leVal (lenBytes 1 (length (pop_data pop))) = int (length (pop_data pop))"
      using len by (simp add: leVal_lenBytes del: lenBytes.simps One_nat_def)
    with 3 show ?thesis
      by (simp add: parsedOpcode_bytes_def pop_bytes_def Let_def del: lenBytes.simps One_nat_def flip: opl_def)
         (simp only: One_nat_def)
  next
    case 4
    then have "leVal (lenBytes 2 (length (pop_data pop))) = int (length (pop_data pop))"
      using len by (simp add: leVal_lenBytes)
    with 4 show ?thesis
      by (simp add: parsedOpcode_bytes_def pop_bytes_def Let_def flip: opl_def)
  next
    case 5
    then have "leVal (lenBytes 4 (length (pop_data pop))) = int (length (pop_data pop))"
      using len by (simp add: leVal_lenBytes)
    with 5 show ?thesis
      by (simp add: parsedOpcode_bytes_def pop_bytes_def Let_def flip: opl_def)
  qed
qed

section \<open>One round of the parser\<close>

text \<open>What one round consumes, without the special case of the alternative template.\<close>

lemma parseOne_sound:
  assumes "parseOne False script i = Inr (pop, i')" "i < length script"
  shows "wf_pop pop \<and> i' \<le> length script \<and> pop_bytes pop = take (i' - i) (drop i script)"
proof -
  define v where "v = script ! i"
  define opl where "opl = op_length (opcodeArray v)"
  have dr: "drop i script = v # drop (Suc i) script"
    using assms(2) by (simp add: v_def Cons_nth_drop_Suc)
  consider "opl = 1" | "opl > 1" | "opl \<in> {-1, -2, -4}"
    using opcodeArray_length_cases [of v] by (auto simp: opl_def)
  then show ?thesis
  proof cases
    case 1
    then have "pop = \<lparr>pop_opcode = opcodeArray v, pop_data = []\<rparr>" "i' = i + 1"
      using assms(1) by (simp_all add: parseOne_def Let_def flip: v_def opl_def)
    with 1 assms(2) dr show ?thesis by (simp add: wf_pop_def pop_bytes_def flip: opl_def)
  next
    case 2
    define d where "d = take (nat opl - 1) (drop (Suc i) script)"
    have r: "opl \<le> int (length script) - int i" "pop = \<lparr>pop_opcode = opcodeArray v, pop_data = d\<rparr>"
      "i' = i + nat opl"
      using 2 assms by (auto simp: parseOne_def Let_def d_def simp flip: v_def opl_def split: if_splits)
    have "length d = nat opl - 1" using r(1) 2 assms(2) by (simp add: d_def)
    moreover have "take (nat opl) (drop i script) = v # d"
      using 2 by (cases "nat opl") (auto simp: dr d_def)
    ultimately show ?thesis using 2 r assms(2) by (simp add: wf_pop_def pop_bytes_def flip: opl_def)
  next
    case 3
    define k where "k = nat (- opl)"
    define lf where "lf = take k (drop (Suc i) script)"
    define d where "d = take (nat (leVal lf)) (drop (Suc i + k) script)"
    have k: "opl = - int k" "0 < k" using 3 by (auto simp: k_def)
    have r: "k \<le> length script - Suc i" "nat (leVal lf) \<le> length script - (Suc i + k)"
      "pop = \<lparr>pop_opcode = opcodeArray v, pop_data = d\<rparr>" "i' = i + 1 + k + nat (leVal lf)"
      using 3 k assms by (auto simp: parseOne_def Let_def d_def lf_def simp flip: v_def opl_def split: if_splits)
    have lf: "length lf = k" using r(1) by (simp add: lf_def)
    have ld: "length d = nat (leVal lf)" using r(2) by (simp add: d_def)
    have small: "leVal lf < 256 ^ k" using leVal_less [of lf] by (simp add: lf)
    have "lenBytes k (length d) = lf" using lenBytes_leVal [of lf] by (simp add: lf ld)
    moreover have "take (i' - i) (drop i script) = v # lf @ d"
      by (simp add: r(4) dr take_add lf_def d_def add.commute)
    ultimately show ?thesis using k r small ld assms(2)
      by (simp add: wf_pop_def pop_bytes_def flip: opl_def)
  qed
qed

lemma parseOne_errors: "parseOne alt script i = Inl e \<Longrightarrow> e = GoErr ErrStackShortScript"
  using opcodeArray_length_cases
  by (auto simp: parseOne_def Let_def split: if_splits)

text \<open>A well-formed opcode is read back from its bytes.\<close>

lemma parseOne_complete:
  assumes "wf_pop pop"
  shows "parseOne False (pre @ pop_bytes pop @ post) (length pre) = Inr (pop, length pre + length (pop_bytes pop))"
proof -
  define v where "v = pop_value pop"
  define d where "d = pop_data pop"
  define opl where "opl = op_length (pop_opcode pop)"
  have pop: "pop = \<lparr>pop_opcode = opcodeArray v, pop_data = d\<rparr>"
    using assms by (cases pop) (simp add: wf_pop_def v_def d_def)
  have o: "op_length (opcodeArray v) = opl" by (simp add: opl_def pop)
  have len: "if opl > 0 then int (length d) = opl - 1 else int (length d) < 256 ^ nat (- opl)"
    using assms unfolding wf_pop_def opl_def d_def Let_def by (rule conjunct2)
  consider "opl = 1" | "opl > 1" | "opl \<in> {-1, -2, -4}"
    using opcodeArray_length_cases [of v] by (auto simp: o)
  then show ?thesis
  proof cases
    case 1
    with len show ?thesis by (simp add: parseOne_def pop pop_bytes_def Let_def o)
  next
    case 2
    then have "nat opl = Suc (length d)" using len by simp
    with 2 len show ?thesis by (simp add: parseOne_def pop pop_bytes_def Let_def o)
  next
    case 3
    define k where "k = nat (- opl)"
    have k: "opl = - int k" "0 < k" "k = 1 \<or> k = 2 \<or> k = 4" using 3 by (auto simp: k_def)
    have "leVal (lenBytes k (length d)) = int (length d)"
      using len k by (simp add: leVal_lenBytes)
    with k show ?thesis by (auto simp: parseOne_def pop pop_bytes_def Let_def o simp del: lenBytes.simps)
  qed
qed

section \<open>The parsing loop\<close>

definition script_bytes :: "parsedOpcode list \<Rightarrow> bytes" where
  "script_bytes pops = concat (map pop_bytes pops)"

lemma script_bytes_simps [simp]:
  "script_bytes [] = []" "script_bytes (p # ps) = pop_bytes p @ script_bytes ps"
  "script_bytes (ps @ qs) = script_bytes ps @ script_bytes qs"
  by (simp_all add: script_bytes_def)

lemma unparse_wf: "list_all wf_pop pops \<Longrightarrow> unparseScript pops = Inr (script_bytes pops)"
  by (induction pops) (simp_all add: wf_pop_bytes)

lemma parseLoop_sound:
  assumes "parseLoop False script i ret = (res, err)" "i \<le> length script"
  shows "\<exists>pops rest. res = ret @ pops \<and> list_all wf_pop pops \<and> drop i script = script_bytes pops @ rest \<and>
     (case err of None \<Rightarrow> rest = [] | Some e \<Rightarrow> e = GoErr ErrStackShortScript)"
  using assms
proof (induction False script i ret rule: parseLoop.induct)
  case (1 script i ret)
  show ?case
  proof (cases "i < length script")
    case False
    with "1.prems" show ?thesis by (auto simp: parseLoop.simps)
  next
    case True
    show ?thesis
    proof (cases "parseOne False script i")
      case (Inl e)
      with True "1.prems" show ?thesis
        by (intro exI [of _ "[]"] exI [of _ "drop i script"])
           (auto simp: parseLoop.simps [of False script i] dest: parseOne_errors)
    next
      case (Inr r)
      then obtain pop i' where r: "parseOne False script i = Inr (pop, i')" by (cases r) auto
      note snd = parseOne_sound [OF r True]
      have "parseLoop False script i' (ret @ [pop]) = (res, err)"
        using "1.prems" True r by (simp add: parseLoop.simps [of False script i])
      from "1.hyps" [OF True r refl this] snd obtain pops rest where
        IH: "res = (ret @ [pop]) @ pops" "list_all wf_pop pops" "drop i' script = script_bytes pops @ rest"
          "case err of None \<Rightarrow> rest = [] | Some e \<Rightarrow> e = GoErr ErrStackShortScript" by auto
      have "drop i script = pop_bytes pop @ drop i' script"
        using snd parseOne_progress [OF r] by (metis append_take_drop_id drop_drop le_add_diff_inverse2 less_imp_le)
      with IH snd show ?thesis by (intro exI [of _ "pop # pops"] exI [of _ rest]) auto
    qed
  qed
qed

lemma parseLoop_complete:
  "list_all wf_pop pops \<Longrightarrow>
   parseLoop False (pre @ script_bytes pops) (length pre) ret = (ret @ pops, None)"
proof (induction pops arbitrary: pre ret)
  case Nil
  then show ?case by (simp add: parseLoop.simps)
next
  case (Cons p ps)
  have "parseOne False (pre @ pop_bytes p @ script_bytes ps) (length pre) = Inr (p, length (pre @ pop_bytes p))"
    using parseOne_complete [of p pre "script_bytes ps"] Cons.prems by simp
  moreover have "pop_bytes p \<noteq> []" by (simp add: pop_bytes_def)
  ultimately show ?case
    using Cons.IH [of "pre @ pop_bytes p" "ret @ [p]"] Cons.prems
    by (simp add: parseLoop.simps [of False "pre @ pop_bytes p @ script_bytes ps" "length pre"])
qed
section \<open>The alternative template\<close>

text \<open>Away from offset 24 the alternative template parses as the ordinary one.\<close>

lemma parseOne_alt: "i \<noteq> 24 \<Longrightarrow> parseOne True script i = parseOne False script i"
  by (simp add: parseOne_def)

lemma parseLoop_alt_beyond: "24 < i \<Longrightarrow> parseLoop True script i ret = parseLoop False script i ret"
proof (induction True script i ret rule: parseLoop.induct)
  case (1 script i ret)
  have eq: "parseOne True script i = parseOne False script i" using "1.prems" by (simp add: parseOne_alt)
  show ?case
  proof (cases "i < length script")
    case True
    have "parseLoop True script i' (ret @ [pop]) = parseLoop False script i' (ret @ [pop])"
      if "parseOne True script i = Inr (pop, i')" for pop i'
      using "1.hyps" [OF True that refl] parseOne_progress [OF that] "1.prems" by simp
    with True eq show ?thesis by (auto simp: parseLoop.simps [of _ script i] split: sum.splits)
  qed (simp add: parseLoop.simps)
qed

text \<open>A round that ends at or before an offset does not see the bytes from that offset on.\<close>

lemma parseOne_prefix:
  assumes "parseOne False script i = Inr (pop, i')" "i' \<le> n" "i < length script"
    "take n script' = take n script" "length script' = length script"
  shows "parseOne False script' i = Inr (pop, i')"
proof -
  note snd = parseOne_sound [OF assms(1,3)]
  have "i < i'" by (rule parseOne_progress) fact
  have "drop i (take i' script') = drop i (take i' script)"
    using assms(2,4) by (metis min.absorb1 take_take)
  then have "take (i' - i) (drop i script') = pop_bytes pop"
    using snd by (simp add: drop_take)
  then have "script' = take i script' @ pop_bytes pop @ drop i' script'"
    using \<open>i < i'\<close> by (metis append_assoc append_take_drop_id drop_drop le_add_diff_inverse2 less_imp_le)
  moreover have "length (take i script') = i" using assms by simp
  moreover have "i + length (pop_bytes pop) = i'" using snd \<open>i < i'\<close> by (auto simp: min_def)
  ultimately show ?thesis using parseOne_complete [of pop "take i script'" "drop i' script'"] snd by metis
qed

text \<open>A round and the rounds after it depend on the bytes from the current offset on only.\<close>

lemma parseOne_suffix:
  assumes "drop i script' = drop i script" "i < length script" "length script' = length script"
  shows "parseOne False script' i = parseOne False script i"
proof -
  have "script' ! i = script ! i"
    using assms by (metis hd_drop_conv_nth)
  moreover have "drop j script' = drop j script" if "i \<le> j" for j
    using assms(1) that by (metis drop_drop le_add_diff_inverse2)
  ultimately show ?thesis using assms by (simp add: parseOne_def Let_def)
qed

lemma parseLoop_suffix:
  assumes "drop i script' = drop i script" "length script' = length script"
  shows "parseLoop False script' i ret = parseLoop False script i ret"
  using assms
proof (induction False script i ret arbitrary: script' rule: parseLoop.induct)
  case (1 script i ret)
  show ?case
  proof (cases "i < length script")
    case True
    have eq: "parseOne False script' i = parseOne False script i"
      using "1.prems" True by (intro parseOne_suffix) auto
    have "parseLoop False script' i' (ret @ [pop]) = parseLoop False script i' (ret @ [pop])"
      if r: "parseOne False script i = Inr (pop, i')" for pop i'
    proof (rule "1.hyps" [OF True r refl])
      show "drop i' script' = drop i' script"
        using "1.prems"(1) parseOne_progress [OF r]
        by (metis drop_drop le_add_diff_inverse2 less_imp_le)
    qed (use "1.prems" in simp)
    with True eq "1.prems"(2) show ?thesis
      by (auto simp: parseLoop.simps [of _ script i] parseLoop.simps [of _ script' i] split: sum.splits)
  qed (use "1.prems" in \<open>simp add: parseLoop.simps\<close>)
qed

lemma op_length_raised:
  assumes "1 \<le> v" "v \<le> 16"
  shows "op_length (opcodeArray (v + 80)) = 1"
proof -
  have "uint (v + 80) = uint v + 80" using assms by (simp add: word_le_def uint_plus_if')
  moreover have "1 \<le> uint v" "uint v \<le> 16" using assms by (simp_all add: word_le_def)
  ultimately show ?thesis by (auto simp: opcodeArray_def word_le_def word_uint_eq_iff)
qed

text \<open>
  The alternative template parses a script as the ordinary one parses that script, or that script
  with the byte at offset 24 raised by 80 when it is between 1 and 16.
\<close>

lemma parseLoop_alt:
  assumes "i \<le> 24" "24 < length script"
  shows "parseLoop True script i ret = parseLoop False script i ret \<or>
     (1 \<le> script ! 24 \<and> script ! 24 \<le> 16 \<and>
      parseLoop True script i ret = parseLoop False (script[24 := script ! 24 + 80]) i ret)"
  using assms
proof (induction True script i ret rule: parseLoop.induct)
  case (1 script i ret)
  let ?s = "script[24 := script ! 24 + 80]"
  have len: "i < length script" using "1.prems" by simp
  note unf = parseLoop.simps [of _ script i] parseLoop.simps [of _ ?s i]
  show ?case
  proof (cases "i = 24")
    case True
    show ?thesis
    proof (cases "1 \<le> script ! 24 \<and> script ! 24 \<le> 16")
      case patched: True
      let ?p = "\<lparr>pop_opcode = opcodeArray (script ! 24 + 80), pop_data = []\<rparr>"
      have "parseOne True script 24 = Inr (?p, 25)" "parseOne False ?s 24 = Inr (?p, 25)"
        using patched len True by (simp_all add: parseOne_def Let_def op_length_raised)
      moreover have "parseLoop False ?s 25 r = parseLoop False script 25 r" for r
        by (rule parseLoop_suffix) simp_all
      ultimately have "parseLoop True script i ret = parseLoop False ?s i ret"
        using len True by (simp add: parseLoop.simps [of _ script 24] parseLoop.simps [of _ ?s 24] parseLoop_alt_beyond)
      with patched show ?thesis by simp
    next
      case False
      then have "parseOne True script i = parseOne False script i" using True by (auto simp: parseOne_def)
      then show ?thesis using len True
        by (auto simp: parseLoop.simps [of _ script 24] parseLoop_alt_beyond dest: parseOne_progress
            split: sum.splits prod.splits)
    qed
  next
    case False
    then have eq: "parseOne True script i = parseOne False script i" by (rule parseOne_alt)
    show ?thesis
    proof (cases "parseOne False script i")
      case (Inl e)
      with eq len show ?thesis by (simp add: unf)
    next
      case (Inr r)
      then obtain pop i' where r: "parseOne False script i = Inr (pop, i')" by (cases r) auto
      show ?thesis
      proof (cases "i' \<le> 24")
        case True
        have "parseOne False ?s i = Inr (pop, i')"
          using r True len by (rule parseOne_prefix) simp_all
        moreover note "1.hyps" [OF len r [folded eq] refl True "1.prems"(2)]
        ultimately show ?thesis using eq r len by (auto simp: unf)
      next
        case False
        with eq r len show ?thesis by (simp add: unf parseLoop_alt_beyond)
      qed
    qed
  qed
qed

section \<open>Parsing and unparsing\<close>

text \<open>Conditional unfoldings of the loop, for evaluation on a concrete script.\<close>

lemma parseLoop_done: "length script \<le> i \<Longrightarrow> parseLoop alt script i ret = (ret, None)"
  by (simp add: parseLoop.simps)

lemma parseLoop_next:
  "i < length script \<Longrightarrow> parseOne alt script i = Inr (pop, i') \<Longrightarrow>
   parseLoop alt script i ret = parseLoop alt script i' (ret @ [pop])"
  by (simp add: parseLoop.simps [of alt script i])

lemma parseLoop_fail:
  "i < length script \<Longrightarrow> parseOne alt script i = Inl e \<Longrightarrow> parseLoop alt script i ret = (ret, Some e)"
  by (simp add: parseLoop.simps [of alt script i])

lemmas parse_eval = parseScript_def parseScriptTemplate_def parseAltScriptTemplate_def
  parseLoop_done parseLoop_next parseLoop_fail parseOne_def opcodeArray_def

lemma parseScriptTemplate_sound:
  assumes "parseScriptTemplate s = (pops, err)"
  shows "\<exists>rest. list_all wf_pop pops \<and> s = script_bytes pops @ rest \<and>
     (case err of None \<Rightarrow> rest = [] | Some e \<Rightarrow> e = GoErr ErrStackShortScript)"
  using parseLoop_sound [of s 0 "[]" pops err] assms by (auto simp: parseScriptTemplate_def)

text \<open>What \<^verbatim>\<open>parseScript\<close> does is parse its argument, or that argument with byte 24 raised.\<close>

lemma parseScript_cases:
  "parseScript s = parseScriptTemplate s \<or>
   (length s = 26 \<and> 1 \<le> s ! 24 \<and> s ! 24 \<le> 16 \<and> parseScript s = parseScriptTemplate (s[24 := s ! 24 + 80]))"
  using parseLoop_alt [of 0 s "[]"]
  by (auto simp: parseScript_def parseScriptTemplate_def parseAltScriptTemplate_def)

lemma parseScript_wf: "parseScript s = (pops, err) \<Longrightarrow> list_all wf_pop pops"
  using parseScript_cases [of s] parseScriptTemplate_sound [of _ pops err] by auto

lemma parseScript_template: "length s \<noteq> 26 \<Longrightarrow> parseScript s = parseScriptTemplate s"
  by (simp add: parseScript_def)

lemma parseScript_error: "parseScript s = (pops, Some e) \<Longrightarrow> e = GoErr ErrStackShortScript"
  using parseScript_cases [of s] parseScriptTemplate_sound [of _ pops "Some e"] by auto

lemma parseScriptTemplate_script_bytes:
  "list_all wf_pop pops \<Longrightarrow> parseScriptTemplate (script_bytes pops) = (pops, None)"
  using parseLoop_complete [of pops "[]" "[]"] by (simp add: parseScriptTemplate_def)

text \<open>
  Over the bytes of well-formed opcodes the alternative template reads back the opcodes before
  offset 24; what it may read differently is a last push of one byte that starts there.
\<close>

lemma parseLoop_alt_complete:
  assumes "list_all wf_pop pops" "length (pre @ script_bytes pops @ post) = 26"
    "length (pre @ script_bytes pops) \<le> 24 \<or> post = [] \<and> (pops = [] \<or> pop_value (last pops) \<noteq> 1)"
  shows "parseLoop True (pre @ script_bytes pops @ post) (length pre) ret =
    parseLoop True (pre @ script_bytes pops @ post) (length (pre @ script_bytes pops)) (ret @ pops)"
  using assms
proof (induction pops arbitrary: pre ret)
  case (Cons p ps)
  let ?s = "pre @ pop_bytes p @ script_bytes ps @ post"
  have ne: "pop_bytes p \<noteq> []" by (simp add: pop_bytes_def)
  have hd: "?s ! length pre = pop_value p" by (simp add: pop_bytes_def)
  have no: "\<not> (length pre = 24 \<and> 1 \<le> pop_value p \<and> pop_value p \<le> 16)"
  proof
    assume v: "length pre = 24 \<and> 1 \<le> pop_value p \<and> pop_value p \<le> 16"
    have u: "1 \<le> uint (pop_value p)" "uint (pop_value p) \<le> 16" using v by (simp_all add: word_le_def)
    then have "pop_value p \<noteq> 0" by auto
    with u have "op_length (opcodeArray (pop_value p)) = uint (pop_value p) + 1"
      by (auto simp: opcodeArray_def word_le_def)
    then have d: "int (length (pop_data p)) = uint (pop_value p)" and b: "length (pop_bytes p) = 1 + length (pop_data p)"
      using Cons.prems(1) u by (auto simp: wf_pop_def pop_bytes_def Let_def)
    have "length (pop_bytes p) + length (script_bytes ps) + length post = 2" using Cons.prems(2) v by simp
    with b d u have one: "uint (pop_value p) = 1" "length (script_bytes ps) = 0" by linarith+
    then have "ps = []" by (cases ps) (simp_all add: pop_bytes_def)
    with one(1) Cons.prems(3) v ne show False by (auto simp: word_uint_eq_iff)
  qed
  have "parseOne True ?s (length pre) = parseOne False ?s (length pre)"
    using no hd by (auto simp: parseOne_def)
  also have "\<dots> = Inr (p, length (pre @ pop_bytes p))"
    using parseOne_complete [of p pre "script_bytes ps @ post"] Cons.prems(1) by simp
  finally have one: "parseLoop True ?s (length pre) ret = parseLoop True ?s (length (pre @ pop_bytes p)) (ret @ [p])"
    using ne by (intro parseLoop_next) simp_all
  have "parseLoop True ((pre @ pop_bytes p) @ script_bytes ps @ post) (length (pre @ pop_bytes p)) (ret @ [p]) =
    parseLoop True ((pre @ pop_bytes p) @ script_bytes ps @ post) (length ((pre @ pop_bytes p) @ script_bytes ps)) ((ret @ [p]) @ ps)"
    by (rule Cons.IH) (use Cons.prems in \<open>auto split: if_splits\<close>)
  with one show ?case by simp
qed simp

text \<open>A push of one byte at offset 24 is read as the small integer one.\<close>

lemma parse_push_one:
  assumes "list_all wf_pop pops" "length (script_bytes pops) = 24" "length post = 1"
  shows "fst (parseScript (script_bytes pops @ 1 # post)) \<noteq> pops @ [p] \<or> pop_value p = 0x51"
proof -
  let ?s = "script_bytes pops @ 1 # post" and ?q = "\<lparr>pop_opcode = opcodeArray 0x51, pop_data = []\<rparr>"
  have "parseScript ?s = parseLoop True ?s 24 pops"
    using parseLoop_alt_complete [of pops "[]" "1 # post" "[]"] assms
    by (simp add: parseScript_def parseAltScriptTemplate_def)
  also have "\<dots> = parseLoop True ?s 25 (pops @ [?q])"
  proof (rule parseLoop_next)
    have "?s ! 24 = 1" using assms(2) by (metis nth_append_length)
    then show "parseOne True ?s 24 = Inr (?q, 25)" by (simp add: parseOne_def opcodeArray_def)
  qed (use assms in simp)
  also have "\<dots> = parseLoop False ?s 25 (pops @ [?q])" by (simp add: parseLoop_alt_beyond)
  finally obtain more where "fst (parseScript ?s) = pops @ ?q # more"
    using parseLoop_sound [of ?s 25 "pops @ [?q]"] assms(2,3) by (cases "parseLoop False ?s 25 (pops @ [?q])") fastforce
  then show ?thesis by (cases "p = ?q") simp_all
qed

text \<open>
  C16. Parsing a script and unparsing the opcodes gives the script back, for every script that
  parses, with one exception: in a 26 byte script whose byte at offset 24 is between 1 and 16, that
  byte may come back raised by 80, because the alternative template reads it as a small integer.
\<close>

theorem parse_unparse:
  assumes "parseScript s = (pops, None)"
  shows "unparseScript pops = Inr s \<or>
    (length s = 26 \<and> 1 \<le> s ! 24 \<and> s ! 24 \<le> 16 \<and> unparseScript pops = Inr (s[24 := s ! 24 + 80]))"
proof -
  have "list_all wf_pop pops \<and> t = script_bytes pops" if "parseScriptTemplate t = (pops, None)" for t
    using parseScriptTemplate_sound [OF that] by auto
  then show ?thesis using parseScript_cases [of s] assms unparse_wf [of pops] by metis
qed

theorem parse_unparse_witness:
  "parseScript [0x02, 0xaa, 0xbb, 0x51] =
     ([\<lparr>pop_opcode = opcodeArray 2, pop_data = [0xaa, 0xbb]\<rparr>, \<lparr>pop_opcode = opcodeArray 0x51, pop_data = []\<rparr>], None) \<and>
   unparseScript [\<lparr>pop_opcode = opcodeArray 2, pop_data = [0xaa, 0xbb]\<rparr>, \<lparr>pop_opcode = opcodeArray 0x51, pop_data = []\<rparr>]
     = Inr [0x02, 0xaa, 0xbb, 0x51]"
proof -
  have p: "parseScript [0x02, 0xaa, 0xbb, 0x51] =
     ([\<lparr>pop_opcode = opcodeArray 2, pop_data = [0xaa, 0xbb]\<rparr>, \<lparr>pop_opcode = opcodeArray 0x51, pop_data = []\<rparr>], None)"
    by (simp add: parse_eval)
  show ?thesis using p parse_unparse [OF p] by simp
qed

text \<open>
  C29. The parser reads back every sequence of well-formed opcodes from its bytes, without an
  error, with exactly one exception: 26 bytes whose last opcode is the push of one byte,
  \<^verbatim>\<open>OP_DATA_1\<close> at offset 24, which the alternative template reads as a small integer.
\<close>

theorem unparse_parse:
  assumes "list_all wf_pop pops" "unparseScript pops = Inr s"
  shows "parseScript s = (pops, None) \<longleftrightarrow> \<not> (length s = 26 \<and> pops \<noteq> [] \<and> pop_value (last pops) = OP_DATA_1)"
proof -
  have s: "s = script_bytes pops" using assms by (simp add: unparse_wf)
  show ?thesis
  proof (cases "length s = 26 \<and> pops \<noteq> [] \<and> pop_value (last pops) = OP_DATA_1")
    case True
    then obtain ps p where pops: "pops = ps @ [p]" "pop_value p = 1" by (metis last_snoc rev_exhaust)
    then have p: "wf_pop p" using assms(1) by simp
    then have "length (pop_data p) = 1" using pops(2) by (auto simp: wf_pop_def opcodeArray_def Let_def)
    moreover from p have "pop_bytes p = 1 # pop_data p" using pops(2) by (simp add: pop_bytes_def wf_pop_def opcodeArray_def)
    ultimately show ?thesis
      using True parse_push_one [of ps "pop_data p" p] assms(1) pops s by auto
  next
    case False
    have "parseScript s = (pops, None)" if "length s = 26"
      using parseLoop_alt_complete [of pops "[]" "[]" "[]"] that False assms(1) s
      by (auto simp: parseScript_def parseAltScriptTemplate_def parseLoop_done)
    moreover have "parseScript s = (pops, None)" if "length s \<noteq> 26"
      using that s parseScriptTemplate_script_bytes [OF assms(1)] by (simp add: parseScript_template)
    ultimately show ?thesis using False by blast
  qed
qed

theorem unparse_parse_witness:
  "parseScript [0x02, 0xaa, 0xbb, 0x51] =
     ([\<lparr>pop_opcode = opcodeArray 2, pop_data = [0xaa, 0xbb]\<rparr>, \<lparr>pop_opcode = opcodeArray 0x51, pop_data = []\<rparr>], None)"
  by (subst unparse_parse) (simp_all add: wf_pop_def opcodeArray_def parsedOpcode_bytes_def)

text \<open>
  A script that does not parse fails with \<^verbatim>\<open>ErrStackShortScript\<close> only, and the opcodes returned
  with the error are well formed and are a proper prefix of the script; outside the 26 byte case
  the parse fails exactly when a proper part of the script is left over.
\<close>

theorem parse_failure_prefix:
  assumes "length s \<noteq> 26" "parseScript s = (pops, err)"
  shows "\<exists>p rest. unparseScript pops = Inr p \<and> s = p @ rest \<and>
     (err = None \<and> rest = [] \<or> err = Some (GoErr ErrStackShortScript) \<and> rest \<noteq> [])"
proof -
  have s: "parseScriptTemplate s = (pops, err)" using assms by (simp add: parseScript_template)
  obtain rest where r: "list_all wf_pop pops" "s = script_bytes pops @ rest"
    "case err of None \<Rightarrow> rest = [] | Some e \<Rightarrow> e = GoErr ErrStackShortScript"
    using parseScriptTemplate_sound [OF s] by auto
  have "rest \<noteq> []" if "err \<noteq> None"
    using parseScriptTemplate_script_bytes [OF r(1)] s r(2) that by auto
  then show ?thesis using r unparse_wf [OF r(1)] by (cases err) auto
qed

theorem parse_failure_prefix_witness:
  "\<exists>p rest. unparseScript [\<lparr>pop_opcode = opcodeArray 0x51, pop_data = []\<rparr>] = Inr p \<and> [0x51, 0x02, 0xaa] = p @ rest \<and> rest \<noteq> []"
  using parse_failure_prefix [of "[0x51, 0x02, 0xaa]" "[\<lparr>pop_opcode = opcodeArray 0x51, pop_data = []\<rparr>]" "Some (GoErr ErrStackShortScript)"]
  by (simp add: parse_eval)

section \<open>The script builder\<close>

lemma length_dataPush: "length (dataPush data) = canonicalDataSize data"
  by (auto simp: dataPush_def canonicalDataSize_def Let_def)

lemma addData_script: "sb_script (addData data b) = sb_script b @ dataPush data"
  by (simp add: addData_def)

text \<open>
  The builder never grows a script beyond \<^verbatim>\<open>maxScriptSize\<close>: each of \<^verbatim>\<open>AddOp\<close>, \<^verbatim>\<open>AddOps\<close>,
  \<^verbatim>\<open>AddData\<close> and \<^verbatim>\<open>AddInt64\<close> keeps the bound, a call either appends to the script or records an
  error and leaves the script as it is, and a builder with an error is never changed again.
\<close>

theorem builder_bounded:
  assumes "int (length (sb_script b)) \<le> maxScriptSize"
  defines "ok \<equiv> \<lambda>b'. int (length (sb_script b')) \<le> maxScriptSize \<and>
     (sb_err b \<noteq> None \<longrightarrow> b' = b) \<and> (sb_err b' \<noteq> None \<longrightarrow> sb_script b' = sb_script b) \<and>
     (\<exists>added. sb_script b' = sb_script b @ added)"
  shows "ok (AddOp opc b) \<and> ok (AddOps opcs b) \<and> ok (AddData data b) \<and>
     (AddInt64 val b = Inr b' \<longrightarrow> ok b')"
proof -
  have D: "ok (AddData d b)" for d
    using assms(1) by (auto simp: ok_def AddData_def addData_def length_dataPush)
  have "ok b'" if "AddInt64 val b = Inr b'"
    using that assms(1) D
    by (auto simp: AddInt64_def bindE_eq_Inr split: if_splits) (auto simp: ok_def)
  moreover have "ok (AddOp opc b)" using assms(1) by (auto simp: ok_def AddOp_def)
  moreover have "ok (AddOps opcs b)" using assms(1) by (auto simp: ok_def AddOps_def)
  ultimately show ?thesis using D by blast
qed

theorem builder_bounded_witness:
  "int (length (sb_script (AddData [1, 2, 3] NewScriptBuilder))) \<le> maxScriptSize \<and>
   int (length (sb_script NewScriptBuilder)) \<le> maxScriptSize"
  using builder_bounded [of NewScriptBuilder 0 "[]" "[1, 2, 3]" 0 NewScriptBuilder]
  by (simp add: NewScriptBuilder_def maxScriptSize_def)

end
