(* ===== verification/ScriptStandard.thy ===== *)
theory ScriptStandard
  imports Script
begin

unbundle bit_operations_syntax

text \<open>
  The standard script forms, \<^verbatim>\<open>txscript/standard.go\<close>: recognising the class of a script, building the
  scripts that pay to an address, and extracting what a standard script says.

  Addresses are values of the package \<^verbatim>\<open>hcashutil\<close>, which is not part of the repository. What the code
  observes of an address, its dynamic type, the result of \<^verbatim>\<open>DSA\<close> and of \<^verbatim>\<open>ScriptAddress\<close>, is the record
  \<open>address\<close>; a nil address is \<open>None\<close>. The constructors of addresses and the public key parser that
  \<^verbatim>\<open>ExtractPkScriptAddrs\<close> calls are its argument \<open>lib\<close>.
\<close>

section \<open>Script classes\<close>

datatype ScriptClass = NonStandardTy | PubKeyTy | PubKeyHashTy | ScriptHashTy | MultiSigTy | NullDataTy
  | StakeSubmissionTy | StakeGenTy | StakeRevocationTy | StakeSubChangeTy | PubkeyAltTy | PubkeyHashAltTy

definition MaxDataCarrierSize :: nat where "MaxDataCarrierSize = 256"

text \<open>The names in the order of the enumeration, which is a byte in the code.\<close>

definition scriptClassToName :: "string list" where
  "scriptClassToName = [''nonstandard'', ''pubkey'', ''pubkeyhash'', ''scripthash'', ''multisig'', ''nulldata'',
     ''stakesubmission'', ''stakegen'', ''stakerevoke'', ''sstxchange'', ''pubkeyalt'', ''pubkeyhashalt'']"

definition ScriptClass_String :: "byte \<Rightarrow> string sres" where
  "ScriptClass_String t =
     (if uint t > int (length scriptClassToName) \<or> uint t < 0 then Inr ''Invalid''
      else at scriptClassToName (uint t))"

definition isPubkey :: "parsedOpcode list \<Rightarrow> bool" where
  "isPubkey pops = (length pops = 2 \<and>
     (length (pop_data (pops ! 0)) = 33 \<or> length (pop_data (pops ! 0)) = 65) \<and>
     pop_value (pops ! 1) = OP_CHECKSIG)"

definition isOneByteMaxDataPush :: "parsedOpcode \<Rightarrow> bool" where
  "isOneByteMaxDataPush po =
     (let v = pop_value po; v = (if v < OP_1 then v + 80 else v)
      in OP_1 \<le> v \<and> v \<le> OP_16 \<or> v = OP_DATA_1)"

definition isPubkeyAlt :: "parsedOpcode list \<Rightarrow> bool" where
  "isPubkeyAlt pops = (length pops = 3 \<and> length (pop_data (pops ! 0)) < 512 \<and>
     isOneByteMaxDataPush (pops ! 1) \<and> pop_value (pops ! 2) = OP_CHECKSIGALT)"

definition isPubkeyHash :: "parsedOpcode list \<Rightarrow> bool" where
  "isPubkeyHash pops = (length pops = 5 \<and> pop_value (pops ! 0) = OP_DUP \<and> pop_value (pops ! 1) = OP_HASH160 \<and>
     pop_value (pops ! 2) = OP_DATA_20 \<and> pop_value (pops ! 3) = OP_EQUALVERIFY \<and> pop_value (pops ! 4) = OP_CHECKSIG)"

definition isPubkeyHashAlt :: "parsedOpcode list \<Rightarrow> bool" where
  "isPubkeyHashAlt pops = (length pops = 6 \<and> pop_value (pops ! 0) = OP_DUP \<and> pop_value (pops ! 1) = OP_HASH160 \<and>
     pop_value (pops ! 2) = OP_DATA_20 \<and> pop_value (pops ! 3) = OP_EQUALVERIFY \<and>
     isOneByteMaxDataPush (pops ! 4) \<and> pop_value (pops ! 5) = OP_CHECKSIGALT)"

definition isStakeTag :: "byte \<Rightarrow> bool" where
  "isStakeTag v = (v \<ge> 186 \<and> v \<le> 189)"

definition isAnyKindOfScriptHash :: "parsedOpcode list \<Rightarrow> bool" where
  "isAnyKindOfScriptHash pops =
     (let standardP2SH = length pops = 3 \<and> pop_value (pops ! 0) = OP_HASH160 \<and>
            pop_value (pops ! 1) = OP_DATA_20 \<and> pop_value (pops ! 2) = OP_EQUAL
      in if standardP2SH then True
         else length pops = 4 \<and> isStakeTag (pop_value (pops ! 0)) \<and> pop_value (pops ! 1) = OP_HASH160 \<and>
              pop_value (pops ! 2) = OP_DATA_20 \<and> pop_value (pops ! 3) = OP_EQUAL)"

definition isMultiSig :: "parsedOpcode list \<Rightarrow> bool" where
  "isMultiSig pops =
     (let l = length pops
      in if l < 4 then False
         else if \<not> isSmallInt (pop_opcode (pops ! 0)) then False
         else if \<not> isSmallInt (pop_opcode (pops ! (l - 2))) then False
         else if pop_value (pops ! (l - 1)) \<noteq> OP_CHECKMULTISIG then False
         else if int l - 2 - 1 \<noteq> asSmallInt (pop_opcode (pops ! (l - 2))) then False
         else list_all (\<lambda>pop. length (pop_data pop) = 33 \<or> length (pop_data pop) = 65)
                (take (l - 3) (drop 1 pops)))"

definition IsMultisigScript :: "bytes \<Rightarrow> bool sres" where
  "IsMultisigScript script = bindE (parseOk script) (\<lambda>pops. Inr (isMultiSig pops))"

definition IsMultisigSigScript :: "bytes \<Rightarrow> bool sres" where
  "IsMultisigSigScript script =
     (if length script = 0 then Inr False
      else case parseOk script of
             Inl _ \<Rightarrow> Inr False
           | Inr pops \<Rightarrow> bindE (at pops (int (length pops) - 1)) (\<lambda>lst.
               case parseOk (pop_data lst) of
                 Inl _ \<Rightarrow> Inr False
               | Inr subPops \<Rightarrow> Inr (isMultiSig subPops)))"

definition isNullData :: "parsedOpcode list \<Rightarrow> bool" where
  "isNullData pops =
     (let l = length pops
      in if l = 1 \<and> pop_value (pops ! 0) = OP_RETURN then True
         else l = 2 \<and> pop_value (pops ! 0) = OP_RETURN \<and> pop_value (pops ! 1) \<le> OP_PUSHDATA4 \<and>
              length (pop_data (pops ! 1)) \<le> MaxDataCarrierSize)"

text \<open>The common shape of the four stake output tests, with the tag they look for.\<close>

definition isTaggedOut :: "byte \<Rightarrow> parsedOpcode list \<Rightarrow> bool" where
  "isTaggedOut tag pops =
     (length pops = 6 \<and> pop_value (pops ! 0) = tag \<and> pop_value (pops ! 1) = OP_DUP \<and>
        pop_value (pops ! 2) = OP_HASH160 \<and> pop_value (pops ! 3) = OP_DATA_20 \<and>
        pop_value (pops ! 4) = OP_EQUALVERIFY \<and> pop_value (pops ! 5) = OP_CHECKSIG \<or>
      length pops = 4 \<and> pop_value (pops ! 0) = tag \<and> pop_value (pops ! 1) = OP_HASH160 \<and>
        pop_value (pops ! 2) = OP_DATA_20 \<and> pop_value (pops ! 3) = OP_EQUAL)"

definition isStakeSubmission :: "parsedOpcode list \<Rightarrow> bool" where
  "isStakeSubmission pops = isTaggedOut OP_SSTX pops"

definition isStakeGen :: "parsedOpcode list \<Rightarrow> bool" where
  "isStakeGen pops = isTaggedOut OP_SSGEN pops"

definition isStakeRevocation :: "parsedOpcode list \<Rightarrow> bool" where
  "isStakeRevocation pops = isTaggedOut OP_SSRTX pops"

definition isSStxChange :: "parsedOpcode list \<Rightarrow> bool" where
  "isSStxChange pops = isTaggedOut OP_SSTXCHANGE pops"

definition typeOfScript :: "parsedOpcode list \<Rightarrow> ScriptClass" where
  "typeOfScript pops =
     (if isPubkey pops then PubKeyTy
      else if isPubkeyAlt pops then PubkeyAltTy
      else if isPubkeyHash pops then PubKeyHashTy
      else if isPubkeyHashAlt pops then PubkeyHashAltTy
      else if isScriptHash pops then ScriptHashTy
      else if isMultiSig pops then MultiSigTy
      else if isNullData pops then NullDataTy
      else if isStakeSubmission pops then StakeSubmissionTy
      else if isStakeGen pops then StakeGenTy
      else if isStakeRevocation pops then StakeRevocationTy
      else if isSStxChange pops then StakeSubChangeTy
      else NonStandardTy)"

definition DefaultScriptVersion :: "16 word" where "DefaultScriptVersion = 0"

definition GetScriptClass :: "16 word \<Rightarrow> bytes \<Rightarrow> ScriptClass" where
  "GetScriptClass version script =
     (if version \<noteq> DefaultScriptVersion then NonStandardTy
      else case parseOk script of Inl _ \<Rightarrow> NonStandardTy | Inr pops \<Rightarrow> typeOfScript pops)"

definition isStakeClass :: "ScriptClass \<Rightarrow> bool" where
  "isStakeClass c = (c = StakeSubmissionTy \<or> c = StakeGenTy \<or> c = StakeRevocationTy \<or> c = StakeSubChangeTy)"

definition expectedInputs :: "parsedOpcode list \<Rightarrow> ScriptClass \<Rightarrow> ScriptClass \<Rightarrow> int sres" where
  "expectedInputs pops cls subclass = (case cls of
     PubKeyTy \<Rightarrow> Inr 1
   | PubKeyHashTy \<Rightarrow> Inr 2
   | StakeSubmissionTy \<Rightarrow> Inr (if subclass = PubKeyHashTy then 2 else 1)
   | StakeGenTy \<Rightarrow> Inr (if subclass = PubKeyHashTy then 2 else 1)
   | StakeRevocationTy \<Rightarrow> Inr (if subclass = PubKeyHashTy then 2 else 1)
   | StakeSubChangeTy \<Rightarrow> Inr (if subclass = PubKeyHashTy then 2 else 1)
   | ScriptHashTy \<Rightarrow> Inr 1
   | MultiSigTy \<Rightarrow> bindE (at pops 0) (\<lambda>p. Inr (asSmallInt (pop_opcode p)))
   | _ \<Rightarrow> Inr (-1))"

record ScriptInfo =
  PkScriptClass :: ScriptClass
  NumInputs :: int
  ExpectedInputs :: int
  SigOps :: int

definition IsStakeOutput :: "bytes \<Rightarrow> bool" where
  "IsStakeOutput pkScript = (case parseOk pkScript of Inl _ \<Rightarrow> False | Inr pops \<Rightarrow> isStakeClass (typeOfScript pops))"

definition GetStakeOutSubclass :: "bytes \<Rightarrow> ScriptClass sres" where
  "GetStakeOutSubclass pkScript = bindE (parseOk pkScript) (\<lambda>pkPops.
     if isStakeClass (typeOfScript pkPops)
     then Inr (typeOfScript (filter (\<lambda>pop. \<not> isStakeTag (pop_value pop)) pkPops))
     else raise (ErrMsg ''not a stake output''))"

definition getStakeOutSubscript :: "bytes \<Rightarrow> bytes sres" where
  "getStakeOutSubscript pkScript = slice pkScript 1 (int (length pkScript))"

definition ContainsStakeOpCodes :: "bytes \<Rightarrow> bool sres" where
  "ContainsStakeOpCodes pkScript = bindE (parseOk pkScript) (\<lambda>shPops.
     Inr (list_ex (\<lambda>pop. isStakeTag (pop_value pop)) shPops))"

definition CalcScriptInfo :: "bytes \<Rightarrow> bytes \<Rightarrow> bool \<Rightarrow> ScriptInfo sres" where
  "CalcScriptInfo sigScript pkScript bip16 =
     bindE (parseOk sigScript) (\<lambda>sigPops.
     bindE (parseOk pkScript) (\<lambda>pkPops.
     let cls = typeOfScript pkPops
     in if \<not> isPushOnly sigPops then raise ErrStackNonPushOnly
        else bindE (if isStakeClass cls then GetStakeOutSubclass pkScript else Inr NonStandardTy) (\<lambda>subClass.
             bindE (expectedInputs pkPops cls subClass) (\<lambda>ei.
             if (cls = ScriptHashTy \<or> subClass = ScriptHashTy) \<and> bip16
             then bindE (at sigPops (int (length sigPops) - 1)) (\<lambda>lst.
                  bindE (parseOk (pop_data lst)) (\<lambda>shPops.
                  bindE (expectedInputs shPops (typeOfScript shPops) NonStandardTy) (\<lambda>shInputs.
                    Inr \<lparr>PkScriptClass = cls, NumInputs = int (length sigPops),
                         ExpectedInputs = (if shInputs = -1 then -1 else ei + shInputs),
                         SigOps = getSigOpCount shPops True\<rparr>)))
             else Inr \<lparr>PkScriptClass = cls, NumInputs = int (length sigPops), ExpectedInputs = ei,
                       SigOps = getSigOpCount pkPops True\<rparr>))))"

definition CalcMultiSigStats :: "bytes \<Rightarrow> (int \<times> int) sres" where
  "CalcMultiSigStats script = bindE (parseOk script) (\<lambda>pops.
     if length pops < 4 then raise ErrStackUnderflow
     else Inr (asSmallInt (pop_opcode (pops ! (length pops - 2))), asSmallInt (pop_opcode (pops ! 0))))"

definition MultisigRedeemScriptFromScriptSig :: "bytes \<Rightarrow> bytes sres" where
  "MultisigRedeemScriptFromScriptSig script = bindE (parseOk script) (\<lambda>pops.
     bindE (at pops (int (length pops) - 1)) (\<lambda>lst. Inr (pop_data lst)))"

text \<open>
  \<^verbatim>\<open>pop.data != nil\<close>: the parser leaves the data of an opcode nil exactly when the opcode has
  length 1.
\<close>

definition PushedData :: "bytes \<Rightarrow> bytes list sres" where
  "PushedData script = bindE (parseOk script) (\<lambda>pops.
     Inr (concat (map (\<lambda>pop. if op_length (pop_opcode pop) \<noteq> 1 then [pop_data pop]
                             else if pop_value pop = OP_0 then [[]] else []) pops)))"

definition GetMultisigMandN :: "bytes \<Rightarrow> (byte \<times> byte) sres" where
  "GetMultisigMandN script = bindE (parseOk script) (\<lambda>pops.
     bindE (at pops 0) (\<lambda>p. bindE (at pops (int (length pops) - 2)) (\<lambda>q.
       Inr (word_of_int (asSmallInt (pop_opcode p)), word_of_int (asSmallInt (pop_opcode q))))))"

primrec hash160Loop :: "bool \<Rightarrow> parsedOpcode list \<Rightarrow> bytes" where
  "hash160Loop reached [] = []"
| "hash160Loop reached (p # ps) =
     (if pop_value p = OP_HASH160 then hash160Loop True ps
      else if reached then pop_data p else hash160Loop reached ps)"

definition GetScriptHashFromP2SHScript :: "bytes \<Rightarrow> bytes sres" where
  "GetScriptHashFromP2SHScript pkScript = bindE (parseOk pkScript) (\<lambda>pops. Inr (hash160Loop False pops))"

definition GetNullDataContent :: "16 word \<Rightarrow> bytes \<Rightarrow> bytes sres" where
  "GetNullDataContent version pkScript =
     (if GetScriptClass version pkScript \<noteq> NullDataTy then raise (ErrMsg ''not nulldata script'')
      else case parseOk pkScript of
             Inl _ \<Rightarrow> raise (ErrMsg ''script parse failure'')
           | Inr pops \<Rightarrow> bindE (at pops 1) (\<lambda>p. Inr (pop_data p)))"

text \<open>The signature suites: \<^verbatim>\<open>edwards\<close>, \<^verbatim>\<open>secSchnorr\<close>, \<^verbatim>\<open>bliss\<close> and \<^verbatim>\<open>lm\<close>.\<close>

abbreviation (input) ECTypeSecp256k1 :: int where "ECTypeSecp256k1 \<equiv> 0"
abbreviation (input) edwards :: int where "edwards \<equiv> 1"
abbreviation (input) secSchnorr :: int where "secSchnorr \<equiv> 2"
abbreviation (input) bliss :: int where "bliss \<equiv> 4"
abbreviation (input) lm :: int where "lm \<equiv> 5"

definition extractOneBytePush :: "parsedOpcode \<Rightarrow> int sres" where
  "extractOneBytePush po =
     (if \<not> isOneByteMaxDataPush po then Inr (-1)
      else if OP_1 \<le> pop_value po \<and> pop_value po \<le> OP_16 then Inr (uint (pop_value po - 80))
      else bindE (at (pop_data po) 0) (\<lambda>b. Inr (uint b)))"

definition ExtractPkScriptAltSigType :: "bytes \<Rightarrow> int sres" where
  "ExtractPkScriptAltSigType pkScript = bindE (parseOk pkScript) (\<lambda>pops.
     let isPKA = isPubkeyAlt pops; isPKHA = isPubkeyHashAlt pops
     in if \<not> (isPKA \<or> isPKHA) then raise (ErrMsg ''wrong script type'')
        else bindE (extractOneBytePush (pops ! (if isPKHA then 4 else 1))) (\<lambda>valInt.
          if valInt < 0 then raise (ErrMsg ''bad type push'')
          else if valInt = edwards \<or> valInt = secSchnorr \<or> valInt = bliss \<or> valInt = lm then Inr valInt
          else raise (ErrMsg ''bad signature scheme type'')))"

section \<open>Building scripts\<close>

definition builder_Script :: "ScriptBuilder \<Rightarrow> bytes sres" where
  "builder_Script b = (case sb_err b of None \<Rightarrow> Inr (sb_script b) | Some e \<Rightarrow> raise (ErrMsg e))"

definition payToPubKeyHashScript :: "bytes \<Rightarrow> bytes sres" where
  "payToPubKeyHashScript h = builder_Script (AddOp OP_CHECKSIG (AddOp OP_EQUALVERIFY (AddData h
     (AddOp OP_HASH160 (AddOp OP_DUP NewScriptBuilder)))))"

text \<open>The alternative suites differ in the type byte only.\<close>

definition payToPubKeyHashAltScript :: "int \<Rightarrow> bytes \<Rightarrow> bytes sres" where
  "payToPubKeyHashAltScript suite h = builder_Script (AddOp OP_CHECKSIGALT (AddData [word_of_int suite]
     (AddOp OP_EQUALVERIFY (AddData h (AddOp OP_HASH160 (AddOp OP_DUP NewScriptBuilder))))))"

definition payToPubKeyHashEdwardsScript :: "bytes \<Rightarrow> bytes sres" where
  "payToPubKeyHashEdwardsScript = payToPubKeyHashAltScript edwards"

definition payToPubKeyHashSchnorrScript :: "bytes \<Rightarrow> bytes sres" where
  "payToPubKeyHashSchnorrScript = payToPubKeyHashAltScript secSchnorr"

definition payToPubKeyHashBlissScript :: "bytes \<Rightarrow> bytes sres" where
  "payToPubKeyHashBlissScript = payToPubKeyHashAltScript bliss"

definition payToPubKeyHashLmsScript :: "bytes \<Rightarrow> bytes sres" where
  "payToPubKeyHashLmsScript = payToPubKeyHashAltScript lm"

definition payToScriptHashScript :: "bytes \<Rightarrow> bytes sres" where
  "payToScriptHashScript h = builder_Script (AddOp OP_EQUAL (AddData h (AddOp OP_HASH160 NewScriptBuilder)))"

definition payToPubKeyScript :: "bytes \<Rightarrow> bytes sres" where
  "payToPubKeyScript k = builder_Script (AddOp OP_CHECKSIG (AddData k NewScriptBuilder))"

definition payToAltPubKeyScript :: "int \<Rightarrow> bytes \<Rightarrow> bytes sres" where
  "payToAltPubKeyScript suite k = builder_Script (AddOp OP_CHECKSIGALT (AddData [word_of_int suite]
     (AddData k NewScriptBuilder)))"

definition payToEdwardsPubKeyScript :: "bytes \<Rightarrow> bytes sres" where
  "payToEdwardsPubKeyScript = payToAltPubKeyScript edwards"

definition payToSchnorrPubKeyScript :: "bytes \<Rightarrow> bytes sres" where
  "payToSchnorrPubKeyScript = payToAltPubKeyScript secSchnorr"

definition payToBlissPubKeyScript :: "bytes \<Rightarrow> bytes sres" where
  "payToBlissPubKeyScript = payToAltPubKeyScript bliss"

definition payToLmsPubKeyScript :: "bytes \<Rightarrow> bytes sres" where
  "payToLmsPubKeyScript = payToAltPubKeyScript lm"

datatype address_kind = AddressPubKeyHash | AddressScriptHash | AddressSecpPubKey | AddressEdwardsPubKey
  | AddressSecSchnorrPubKey | AddressBlissPubKey | AddressLmsPubKey | AddressOther

record address =
  addr_kind :: address_kind
  addr_DSA :: int
  addr_ScriptAddress :: bytes

text \<open>
  The type switch shared by the stake output builders: the class of script to build and the type
  byte of the alternative suite.
\<close>

definition stakeAddrType :: "address option \<Rightarrow> (ScriptClass \<times> int \<times> bytes) sres" where
  "stakeAddrType addr = (case addr of
     None \<Rightarrow> raise ErrUnsupportedAddress
   | Some a \<Rightarrow> (case addr_kind a of
       AddressPubKeyHash \<Rightarrow>
         if addr_DSA a \<noteq> ECTypeSecp256k1 then raise ErrUnsupportedAddress
         else Inr (PubKeyHashTy, bliss, addr_ScriptAddress a)
     | AddressBlissPubKey \<Rightarrow>
         if addr_DSA a \<noteq> bliss then raise ErrUnsupportedAddress
         else Inr (PubkeyHashAltTy, bliss, addr_ScriptAddress a)
     | AddressLmsPubKey \<Rightarrow>
         if addr_DSA a \<noteq> lm then raise ErrUnsupportedAddress
         else Inr (PubkeyHashAltTy, lm, addr_ScriptAddress a)
     | AddressScriptHash \<Rightarrow> Inr (ScriptHashTy, bliss, addr_ScriptAddress a)
     | _ \<Rightarrow> raise ErrUnsupportedAddress))"

definition payToStake :: "byte \<Rightarrow> address option \<Rightarrow> bytes sres" where
  "payToStake tag addr = bindE (stakeAddrType addr) (\<lambda>(scriptType, altData, h).
     if scriptType = PubKeyHashTy then
       builder_Script (AddOp OP_CHECKSIG (AddOp OP_EQUALVERIFY (AddData h (AddOp OP_HASH160
         (AddOp OP_DUP (AddOp tag NewScriptBuilder))))))
     else if scriptType = PubkeyHashAltTy then
       builder_Script (AddOp OP_CHECKSIG (AddData [word_of_int altData] (AddOp OP_EQUALVERIFY (AddData h
         (AddOp OP_HASH160 (AddOp OP_DUP (AddOp OP_SSGEN NewScriptBuilder)))))))
     else builder_Script (AddOp OP_EQUAL (AddData h (AddOp OP_HASH160 (AddOp tag NewScriptBuilder)))))"

definition PayToSStx :: "address option \<Rightarrow> bytes sres" where
  "PayToSStx = payToStake OP_SSTX"

definition PayToSStxChange :: "address option \<Rightarrow> bytes sres" where
  "PayToSStxChange = payToStake OP_SSTXCHANGE"

definition PayToSSGen :: "address option \<Rightarrow> bytes sres" where
  "PayToSSGen = payToStake OP_SSGEN"

definition PayToSSRtx :: "address option \<Rightarrow> bytes sres" where
  "PayToSSRtx = payToStake OP_SSRTX"

definition payToTagPKH :: "byte \<Rightarrow> bytes option \<Rightarrow> bytes sres" where
  "payToTagPKH tag pkh = (case pkh of None \<Rightarrow> raise ErrUnsupportedAddress | Some h \<Rightarrow>
     builder_Script (AddOp OP_CHECKSIG (AddOp OP_EQUALVERIFY (AddData h (AddOp OP_HASH160
         (AddOp OP_DUP (AddOp tag NewScriptBuilder)))))))"

definition payToTagSH :: "byte \<Rightarrow> bytes option \<Rightarrow> bytes sres" where
  "payToTagSH tag sh = (case sh of None \<Rightarrow> raise ErrUnsupportedAddress | Some h \<Rightarrow>
     builder_Script (AddOp OP_EQUAL (AddData h (AddOp OP_HASH160 (AddOp tag NewScriptBuilder)))))"

definition PayToSSGenPKHDirect :: "bytes option \<Rightarrow> bytes sres" where
  "PayToSSGenPKHDirect = payToTagPKH OP_SSGEN"

definition PayToSSGenSHDirect :: "bytes option \<Rightarrow> bytes sres" where
  "PayToSSGenSHDirect = payToTagSH OP_SSGEN"

definition PayToSSRtxPKHDirect :: "bytes option \<Rightarrow> bytes sres" where
  "PayToSSRtxPKHDirect = payToTagPKH OP_SSRTX"

definition PayToSSRtxSHDirect :: "bytes option \<Rightarrow> bytes sres" where
  "PayToSSRtxSHDirect = payToTagSH OP_SSRTX"

definition GenerateSStxAddrPush :: "address option \<Rightarrow> 64 word \<Rightarrow> 16 word \<Rightarrow> bytes sres" where
  "GenerateSStxAddrPush addr amount limits = bindE (stakeAddrType addr) (\<lambda>(scriptType, _, h).
     let amountBuffer = lenBytes 8 (unat amount);
         amountBuffer = (if scriptType = ScriptHashTy
                         then amountBuffer[7 := amountBuffer ! 7 OR 0x80] else amountBuffer)
     in Inr ([0x6a, 0x1e] @ h @ amountBuffer @ lenBytes 2 (unat limits)))"

definition GenerateSSGenBlockRef :: "bytes \<Rightarrow> 32 word \<Rightarrow> 32 word \<Rightarrow> bytes" where
  "GenerateSSGenBlockRef blockHash height keyHeight =
     [0x6a, 0x28] @ blockHash @ lenBytes 4 (unat height) @ lenBytes 4 (unat keyHeight)"

definition GenerateSSGenVotes :: "16 word \<Rightarrow> bytes" where
  "GenerateSSGenVotes votebits = [0x6a, 0x02] @ lenBytes 2 (unat votebits)"

definition GenerateProvablyPruneableOut :: "bytes \<Rightarrow> bytes sres" where
  "GenerateProvablyPruneableOut data = builder_Script (AddData data (AddOp OP_RETURN NewScriptBuilder))"

definition PayToAddrScript :: "address option \<Rightarrow> bytes sres" where
  "PayToAddrScript addr = (case addr of
     None \<Rightarrow> raise ErrUnsupportedAddress
   | Some a \<Rightarrow> (let h = addr_ScriptAddress a in case addr_kind a of
       AddressPubKeyHash \<Rightarrow>
         if addr_DSA a = ECTypeSecp256k1 then payToPubKeyHashScript h
         else if addr_DSA a = edwards then payToPubKeyHashEdwardsScript h
         else if addr_DSA a = secSchnorr then payToPubKeyHashSchnorrScript h
         else if addr_DSA a = bliss then payToPubKeyHashBlissScript h
         else if addr_DSA a = lm then payToPubKeyHashLmsScript h
         else raise ErrUnsupportedAddress
     | AddressScriptHash \<Rightarrow> payToScriptHashScript h
     | AddressSecpPubKey \<Rightarrow> payToPubKeyScript h
     | AddressEdwardsPubKey \<Rightarrow> payToEdwardsPubKeyScript h
     | AddressSecSchnorrPubKey \<Rightarrow> payToSchnorrPubKeyScript h
     | AddressBlissPubKey \<Rightarrow> payToBlissPubKeyScript h
     | AddressLmsPubKey \<Rightarrow> payToLmsPubKeyScript h
     | AddressOther \<Rightarrow> raise ErrUnsupportedAddress))"

definition MultiSigScript :: "bytes list \<Rightarrow> int \<Rightarrow> bytes sres" where
  "MultiSigScript pubkeys nrequired =
     (if int (length pubkeys) < nrequired then raise ErrBadNumRequired
      else bindE (AddInt64 nrequired NewScriptBuilder) (\<lambda>b.
           bindE (AddInt64 (int (length pubkeys)) (fold AddData pubkeys b)) (\<lambda>b.
             builder_Script (AddOp OP_CHECKMULTISIG b))))"

section \<open>Extracting addresses\<close>

record ('pk, 'addr) addrlib =
  lib_ParsePubKey :: "bytes \<Rightarrow> 'pk option"
  lib_NewAddressPubKeyHash :: "bytes \<Rightarrow> int \<Rightarrow> 'addr option"
  lib_NewAddressSecpPubKeyCompressed :: "'pk \<Rightarrow> 'addr option"
  lib_NewAddressAltPubKey :: "int \<Rightarrow> bytes \<Rightarrow> 'addr option"
  lib_NewAddressScriptHashFromHash :: "bytes \<Rightarrow> 'addr option"

definition secpAddr :: "('pk, 'addr) addrlib \<Rightarrow> bytes \<Rightarrow> 'addr list" where
  "secpAddr lib data = (case lib_ParsePubKey lib data of
     None \<Rightarrow> []
   | Some pk \<Rightarrow> (case lib_NewAddressSecpPubKeyCompressed lib pk of None \<Rightarrow> [] | Some a \<Rightarrow> [a]))"

text \<open>The loop over the public keys of a multi-signature script.\<close>

primrec multiSigAddrs :: "('pk, 'addr) addrlib \<Rightarrow> parsedOpcode list \<Rightarrow> nat \<Rightarrow> 'addr list sres" where
  "multiSigAddrs lib pops 0 = Inr []"
| "multiSigAddrs lib pops (Suc i) = bindE (multiSigAddrs lib pops i) (\<lambda>addrs.
     bindE (at pops (int i + 1)) (\<lambda>k. Inr (addrs @ secpAddr lib (pop_data k))))"

text \<open>
  The suite an erroneous \<^verbatim>\<open>ExtractPkScriptAltSigType\<close> returns with its error is -1 for the two classes
  it is called for here.
\<close>

definition altSuite :: "bytes \<Rightarrow> int sres" where
  "altSuite pkScript = (case ExtractPkScriptAltSigType pkScript of
     Inr s \<Rightarrow> Inr s | Inl GoPanic \<Rightarrow> panic | Inl (GoErr _) \<Rightarrow> Inr (-1))"

function ExtractPkScriptAddrs ::
  "('pk, 'addr) addrlib \<Rightarrow> 16 word \<Rightarrow> bytes \<Rightarrow> (ScriptClass \<times> 'addr list \<times> int) sres" where
  "ExtractPkScriptAddrs lib version pkScript =
     (if version \<noteq> DefaultScriptVersion then raise (ErrMsg ''invalid script version'')
      else bindE (parseOk pkScript) (\<lambda>pops.
        let scriptClass = typeOfScript pops
        in case scriptClass of
             PubKeyHashTy \<Rightarrow> bindE (at pops 2) (\<lambda>p.
               Inr (scriptClass, (case lib_NewAddressPubKeyHash lib (pop_data p) ECTypeSecp256k1 of None \<Rightarrow> [] | Some a \<Rightarrow> [a]), 1))
           | PubkeyHashAltTy \<Rightarrow> bindE (altSuite pkScript) (\<lambda>suite. bindE (at pops 2) (\<lambda>p.
               Inr (scriptClass, (case lib_NewAddressPubKeyHash lib (pop_data p) suite of None \<Rightarrow> [] | Some a \<Rightarrow> [a]), 1)))
           | PubKeyTy \<Rightarrow> bindE (at pops 0) (\<lambda>p. Inr (scriptClass, secpAddr lib (pop_data p), 1))
           | PubkeyAltTy \<Rightarrow> bindE (altSuite pkScript) (\<lambda>suite. bindE (at pops 0) (\<lambda>p.
               Inr (scriptClass,
                    (if suite = edwards \<or> suite = secSchnorr \<or> suite = bliss \<or> suite = lm
                     then (case lib_NewAddressAltPubKey lib suite (pop_data p) of None \<Rightarrow> [] | Some a \<Rightarrow> [a]) else []), 1)))
           | ScriptHashTy \<Rightarrow> bindE (at pops 1) (\<lambda>p.
               Inr (scriptClass, (case lib_NewAddressScriptHashFromHash lib (pop_data p) of None \<Rightarrow> [] | Some a \<Rightarrow> [a]), 1))
           | MultiSigTy \<Rightarrow> bindE (at pops 0) (\<lambda>p. bindE (at pops (int (length pops) - 2)) (\<lambda>q.
               bindE (multiSigAddrs lib pops (nat (asSmallInt (pop_opcode q)))) (\<lambda>addrs. Inr (scriptClass, addrs, asSmallInt (pop_opcode p)))))
           | NullDataTy \<Rightarrow> Inr (scriptClass, [], 0)
           | NonStandardTy \<Rightarrow> Inr (scriptClass, [], 0)
           | _ \<Rightarrow> (if pkScript = [] then panic
                  else case ExtractPkScriptAddrs lib version (drop 1 pkScript) of
                         Inr (_, addrs, requiredSigs) \<Rightarrow> Inr (scriptClass, addrs, requiredSigs)
                       | Inl GoPanic \<Rightarrow> panic
                       | Inl (GoErr _) \<Rightarrow> Inr (scriptClass, [], 0))))"
  by pat_completeness auto
termination
  by (relation "measure (\<lambda>(lib, version, pkScript). length pkScript)") (auto simp: neq_Nil_conv)

declare ExtractPkScriptAddrs.simps [simp del]

text \<open>\<^verbatim>\<open>HasP2SHScriptSigStakeOpCodes\<close> of \<^verbatim>\<open>script.go\<close>, which needs the classes.\<close>

definition HasP2SHScriptSigStakeOpCodes :: "16 word \<Rightarrow> bytes \<Rightarrow> bytes \<Rightarrow> unit sres" where
  "HasP2SHScriptSigStakeOpCodes version scriptSig scriptPubKey =
     (let cls = GetScriptClass version scriptPubKey;
          cls = (if IsStakeOutput scriptPubKey
                 then (case GetStakeOutSubclass scriptPubKey of Inr c \<Rightarrow> c | Inl _ \<Rightarrow> NonStandardTy) else cls)
      in if cls = ScriptHashTy
         then (case PushedData scriptSig of
                 Inl _ \<Rightarrow> raise (ErrMsg ''error retrieving pushed data from script'')
               | Inr pData \<Rightarrow>
                   if length pData = 0 then raise (ErrMsg ''script has no pushed data'')
                   else (case ContainsStakeOpCodes (last pData) of
                           Inl _ \<Rightarrow> raise (ErrMsg ''unexpected error checking pkscript from p2sh transaction'')
                         | Inr hasStakeOpCodes \<Rightarrow>
                             if hasStakeOpCodes then raise ErrP2SHStakeOpCodes else Inr ()))
         else Inr ())"

section \<open>Scripts made by the builder\<close>

text \<open>A sequence of builder calls and the opcodes it stands for.\<close>

datatype builder_item = Op byte | Data bytes

fun build :: "builder_item list \<Rightarrow> ScriptBuilder \<Rightarrow> ScriptBuilder" where
  "build [] b = b"
| "build (Op opc # items) b = build items (AddOp opc b)"
| "build (Data d # items) b = build items (AddData d b)"

definition opPop :: "byte \<Rightarrow> parsedOpcode" where
  "opPop v = \<lparr>pop_opcode = opcodeArray v, pop_data = []\<rparr>"

definition dataPop :: "bytes \<Rightarrow> parsedOpcode" where
  "dataPop d = (let op = opcodeArray (hd (dataPush d))
     in \<lparr>pop_opcode = op, pop_data = (if op_length op = 1 then [] else d)\<rparr>)"

fun item_pop :: "builder_item \<Rightarrow> parsedOpcode" where
  "item_pop (Op v) = opPop v"
| "item_pop (Data d) = dataPop d"

fun item_ok :: "builder_item \<Rightarrow> bool" where
  "item_ok (Op v) = (op_length (opcodeArray v) = 1)"
| "item_ok (Data d) = (length d \<le> 8192)"

lemma opcodeArray_data: "0 < n \<Longrightarrow> n < 76 \<Longrightarrow> op_length (opcodeArray (word_of_nat n)) = int n + 1"
proof -
  assume n: "0 < n" "n < 76"
  then have "uint (word_of_nat n :: byte) = int n" by (simp add: uint_word_of_nat_byte)
  with n show ?thesis by (simp add: opcodeArray_def word_le_def)
qed

lemma opcodeArray_one [simp]: "80 < v \<Longrightarrow> op_length (opcodeArray v) = 1" "op_length (opcodeArray 0) = 1" "op_length (opcodeArray 79) = 1"
  by (auto simp: opcodeArray_def word_le_def word_less_def)

lemma opcodeArray_pushdata [simp]:
  "op_length (opcodeArray OP_PUSHDATA1) = -1" "op_length (opcodeArray OP_PUSHDATA2) = -2" "op_length (opcodeArray OP_PUSHDATA4) = -4"
  by (simp_all add: opcodeArray_def)

lemma small_int_op: "v \<le> 16 \<Longrightarrow> v \<noteq> 0 \<Longrightarrow> (80 :: byte) < 80 + v"
proof -
  assume "v \<le> 16" "v \<noteq> (0 :: byte)"
  then have "uint v \<le> 16" "0 < uint v" by (simp_all add: word_le_def uint_pos_iff)
  then show ?thesis by (simp add: word_less_def uint_plus_if')
qed

text \<open>What a data push of the builder is, by the shape of the data.\<close>

lemma dataPush_cases:
  obtains (zero) "dataPush d = [0]"
  | (small) v where "d = [v]" "80 < 80 + v" "dataPush d = [80 + v]"
  | (neg) "d = [0x81]" "dataPush d = [79]"
  | (direct) "0 < length d" "length d < 76" "dataPush d = word_of_nat (length d) # d"
  | (one) "76 \<le> length d" "length d \<le> 255" "dataPush d = 0x4c # lenBytes 1 (length d) @ d"
  | (two) "255 < length d" "length d \<le> 65535" "dataPush d = 0x4d # lenBytes 2 (length d) @ d"
  | (four) "65535 < length d" "dataPush d = 0x4e # lenBytes 4 (length d) @ d"
proof -
  consider "length d = 0 \<or> d = [0]" | v where "d = [v]" "v \<noteq> 0" "v \<le> 16" | "d = [0x81]"
    | "0 < length d" "length d < 76" "\<not> (length d = 1 \<and> (d ! 0 \<le> 16 \<or> d ! 0 = 0x81))"
    | "76 \<le> length d" "length d \<le> 255" | "255 < length d" "length d \<le> 65535" | "65535 < length d"
  proof (cases "length d = 1")
    case True
    then obtain v where "d = [v]" by (cases d) auto
    then show ?thesis using that(1-4) by (cases "v = 0"; cases "v \<le> 16"; cases "v = 0x81") auto
  next
    case False
    then show ?thesis using that(1,4-7) by (cases "length d = 0"; cases "length d < 76"; cases "length d \<le> 255"; cases "length d \<le> 65535") auto
  qed
  then show ?thesis
  proof cases
    case 1
    then show ?thesis by (intro zero) (auto simp: dataPush_def)
  next
    case 2
    then show ?thesis using small_int_op by (intro small) (auto simp: dataPush_def)
  next
    case 3
    then show ?thesis by (intro neg) (auto simp: dataPush_def word_le_def)
  next
    case 4
    then show ?thesis by (intro direct) (auto simp: dataPush_def Let_def)
  next
    case 5
    then show ?thesis by (intro one) (auto simp: dataPush_def Let_def)
  next
    case 6
    then show ?thesis by (intro two) (auto simp: dataPush_def Let_def)
  next
    case 7
    then show ?thesis by (intro four) (auto simp: dataPush_def Let_def)
  qed
qed

lemma dataPop_ok: "length d < 2 ^ 32 \<Longrightarrow> wf_pop (dataPop d) \<and> pop_bytes (dataPop d) = dataPush d"
  by (cases d rule: dataPush_cases)
     (auto simp: dataPop_def wf_pop_def pop_bytes_def Let_def opcodeArray_data simp del: lenBytes.simps)

lemma opPop_ok: "op_length (opcodeArray v) = 1 \<Longrightarrow> wf_pop (opPop v) \<and> pop_bytes (opPop v) = [v]"
  by (simp add: opPop_def wf_pop_def pop_bytes_def)

lemma item_pop_wf: "item_ok i \<Longrightarrow> wf_pop (item_pop i)"
  by (cases i) (auto simp: dataPop_ok opPop_ok)

lemma items_wf: "list_all item_ok items \<Longrightarrow> list_all wf_pop (map item_pop items)"
  by (auto simp: list_all_iff item_pop_wf)

lemma build_frozen: "sb_err b \<noteq> None \<Longrightarrow> build items b = b"
  by (induction items b rule: build.induct) (auto simp: AddOp_def AddData_def)

text \<open>A run of the builder that ends without an error has appended the bytes of its opcodes.\<close>

lemma build_script:
  assumes "sb_err (build items b) = None" "\<forall>v. Op v \<in> set items \<longrightarrow> op_length (opcodeArray v) = 1"
  shows "sb_err b = None \<and> list_all item_ok items \<and> sb_script (build items b) = sb_script b @ script_bytes (map item_pop items)"
  using assms
proof (induction items b rule: build.induct)
  case (2 opc items b)
  then have IH: "sb_err (AddOp opc b) = None" "list_all item_ok items"
    "sb_script (build items (AddOp opc b)) = sb_script (AddOp opc b) @ script_bytes (map item_pop items)" by auto
  have one: "op_length (opcodeArray opc) = 1" using "2.prems"(2) by simp
  have "sb_err b = None" "sb_script (AddOp opc b) = sb_script b @ [opc]"
    using IH(1) by (auto simp: AddOp_def split: if_splits)
  with IH one show ?case by (simp add: opPop_ok)
next
  case (3 d items b)
  then have IH: "sb_err (AddData d b) = None" "list_all item_ok items"
    "sb_script (build items (AddData d b)) = sb_script (AddData d b) @ script_bytes (map item_pop items)" by auto
  have "sb_err b = None" "sb_script (AddData d b) = sb_script b @ dataPush d" "length d \<le> 8192"
    using IH(1) by (auto simp: AddData_def addData_def MaxScriptElementSize_def split: if_splits)
  with IH show ?case by (simp add: dataPop_ok)
qed simp

lemma parseOk_eq: "parseScript s = (pops, None) \<Longrightarrow> parseOk s = Inr pops"
  by (simp add: parseOk_def)

lemma parse_script_bytes:
  assumes "list_all wf_pop pops" "length (script_bytes pops) = 26 \<Longrightarrow> \<not> (1 \<le> script_bytes pops ! 24 \<and> script_bytes pops ! 24 \<le> 16)"
  shows "parseOk (script_bytes pops) = Inr pops"
  using parseScript_cases [of "script_bytes pops"] assms parseScriptTemplate_script_bytes [OF assms(1)]
  by (auto intro: parseOk_eq)

text \<open>And a short run does end without an error.\<close>

lemma build_total:
  assumes "sb_err b = None" "\<forall>d. Data d \<in> set items \<longrightarrow> length d \<le> 8192"
    "length (sb_script b) + sum_list (map (\<lambda>i. case i of Op _ \<Rightarrow> 1 | Data d \<Rightarrow> canonicalDataSize d) items) \<le> 16384"
  shows "sb_err (build items b) = None"
  using assms
  by (induction items b rule: build.induct)
     (auto simp: AddOp_def AddData_def addData_def length_dataPush maxScriptSize_def MaxScriptElementSize_def)

lemma canonicalDataSize_le: "length d \<le> 8192 \<Longrightarrow> canonicalDataSize d \<le> length d + 3 \<and> 1 \<le> canonicalDataSize d"
  by (auto simp: canonicalDataSize_def Let_def)

section \<open>The scripts that pay to an address\<close>

lemma dataPop_direct: "2 \<le> length d \<Longrightarrow> length d < 76 \<Longrightarrow> dataPop d = \<lparr>pop_opcode = opcodeArray (word_of_nat (length d)), pop_data = d\<rparr>"
  by (auto simp: dataPop_def opcodeArray_data dataPush_def Let_def)

lemma dataPop_data: "2 \<le> length d \<Longrightarrow> length d < 2 ^ 32 \<Longrightarrow> pop_data (dataPop d) = d"
  by (auto simp: dataPop_def opcodeArray_data dataPush_def Let_def)

text \<open>A data push never uses an opcode above \<^verbatim>\<open>OP_16\<close>.\<close>

lemma dataPop_value: "pop_value (dataPop d) \<le> OP_16"
proof (cases d rule: dataPush_cases)
  case (small v)
  then have "v \<noteq> 0 \<and> v \<le> 16" by (auto simp: dataPush_def split: if_splits)
  then have "uint v \<le> 16" by (simp add: word_le_def)
  with small show ?thesis by (simp add: dataPop_def word_le_def uint_plus_if')
next
  case direct
  then have "uint (word_of_nat (length d) :: byte) = int (length d)" by (simp add: uint_word_of_nat_byte)
  with direct show ?thesis by (simp add: dataPop_def word_le_def Let_def)
qed (simp_all add: dataPop_def)

lemma dataPop_suite: "0 < n \<Longrightarrow> n \<le> 16 \<Longrightarrow> dataPop [word_of_int n] = opPop (word_of_int (80 + n))"
proof -
  assume n: "0 < n" "n \<le> (16 :: int)"
  then have u: "uint (word_of_int n :: byte) = n" by (simp add: unsigned_of_int take_bit_int_eq_self)
  then have le: "(word_of_int n :: byte) \<le> 16" "(word_of_int n :: byte) \<noteq> 0"
    using n by (simp add: word_le_def, metis u less_irrefl unsigned_0)
  have w: "word_of_int (80 + n) = 80 + (word_of_int n :: byte)" by simp
  show ?thesis using le small_int_op [OF le] unfolding w by (simp add: dataPop_def opPop_def dataPush_def)
qed

lemma built_parse:
  assumes "\<forall>v. Op v \<in> set items \<longrightarrow> op_length (opcodeArray v) = 1" "\<forall>d. Data d \<in> set items \<longrightarrow> length d \<le> 8192"
    "sum_list (map (\<lambda>i. case i of Op _ \<Rightarrow> 1 | Data d \<Rightarrow> canonicalDataSize d) items) \<le> 16384"
    "length (script_bytes (map item_pop items)) = 26 \<Longrightarrow>
       \<not> (1 \<le> script_bytes (map item_pop items) ! 24 \<and> script_bytes (map item_pop items) ! 24 \<le> 16)"
  shows "builder_Script (build items NewScriptBuilder) = Inr (script_bytes (map item_pop items)) \<and>
     parseOk (script_bytes (map item_pop items)) = Inr (map item_pop items)"
proof -
  have err: "sb_err (build items NewScriptBuilder) = None"
    by (rule build_total) (use assms in \<open>simp_all add: NewScriptBuilder_def\<close>)
  note bs = build_script [OF err assms(1)]
  then have "parseOk (script_bytes (map item_pop items)) = Inr (map item_pop items)"
    by (intro parse_script_bytes items_wf assms(4)) simp_all
  with bs err show ?thesis by (simp add: builder_Script_def NewScriptBuilder_def)
qed

definition addr_class :: "address \<Rightarrow> ScriptClass" where
  "addr_class a = (case addr_kind a of
     AddressPubKeyHash \<Rightarrow> if addr_DSA a = 0 then PubKeyHashTy else PubkeyHashAltTy
   | AddressScriptHash \<Rightarrow> ScriptHashTy
   | AddressSecpPubKey \<Rightarrow> PubKeyTy
   | _ \<Rightarrow> if length (addr_ScriptAddress a) < 512 then PubkeyAltTy else NonStandardTy)"

definition valid_addr :: "address \<Rightarrow> bool" where
  "valid_addr a = (let n = length (addr_ScriptAddress a) in case addr_kind a of
     AddressPubKeyHash \<Rightarrow> n = 20 \<and> addr_DSA a \<in> {0, 1, 2, 4, 5}
   | AddressScriptHash \<Rightarrow> n = 20
   | AddressSecpPubKey \<Rightarrow> n = 33 \<or> n = 65
   | AddressOther \<Rightarrow> False
   | _ \<Rightarrow> 2 \<le> n \<and> n \<le> 8192)"

definition kind_suite :: "address_kind \<Rightarrow> int" where
  "kind_suite k = (case k of AddressEdwardsPubKey \<Rightarrow> 1 | AddressSecSchnorrPubKey \<Rightarrow> 2 | AddressBlissPubKey \<Rightarrow> 4 | _ \<Rightarrow> 5)"

definition addr_back :: "('pk, 'addr) addrlib \<Rightarrow> address \<Rightarrow> 'addr list" where
  "addr_back lib a = (let h = addr_ScriptAddress a in case addr_kind a of
     AddressPubKeyHash \<Rightarrow> (case lib_NewAddressPubKeyHash lib h (addr_DSA a) of None \<Rightarrow> [] | Some x \<Rightarrow> [x])
   | AddressScriptHash \<Rightarrow> (case lib_NewAddressScriptHashFromHash lib h of None \<Rightarrow> [] | Some x \<Rightarrow> [x])
   | AddressSecpPubKey \<Rightarrow> secpAddr lib h
   | k \<Rightarrow> (case lib_NewAddressAltPubKey lib (kind_suite k) h of None \<Rightarrow> [] | Some x \<Rightarrow> [x]))"

text \<open>
  What the address package documents of its constructors: the one for the kind of an address,
  called with the hash or the key of the address and its signature suite, makes that address. For
  a secp256k1 key the key is parsed first, and the address is the one of the compressed key.
\<close>

definition rebuilds :: "('pk, address) addrlib \<Rightarrow> address \<Rightarrow> bool" where
  "rebuilds lib a = (let h = addr_ScriptAddress a in case addr_kind a of
     AddressPubKeyHash \<Rightarrow> lib_NewAddressPubKeyHash lib h (addr_DSA a) = Some a
   | AddressScriptHash \<Rightarrow> lib_NewAddressScriptHashFromHash lib h = Some a
   | AddressSecpPubKey \<Rightarrow> Option.bind (lib_ParsePubKey lib h) (lib_NewAddressSecpPubKeyCompressed lib) = Some a
   | k \<Rightarrow> lib_NewAddressAltPubKey lib (kind_suite k) h = Some a)"

lemma addr_back_rebuilds: "rebuilds lib a \<Longrightarrow> addr_back lib a = [a]"
  by (cases "addr_kind a") (auto simp: rebuilds_def addr_back_def secpAddr_def Let_def bind_eq_Some_conv)

text \<open>Constructors that keep the bytes they are given, for the examples.\<close>

definition sampleLib :: "(bytes, address) addrlib" where
  "sampleLib = \<lparr>lib_ParsePubKey = (\<lambda>k. if length k = 33 then Some k else None),
     lib_NewAddressPubKeyHash = (\<lambda>h n. Some \<lparr>addr_kind = AddressPubKeyHash, addr_DSA = n, addr_ScriptAddress = h\<rparr>),
     lib_NewAddressSecpPubKeyCompressed = (\<lambda>k. Some \<lparr>addr_kind = AddressSecpPubKey, addr_DSA = 0, addr_ScriptAddress = k\<rparr>),
     lib_NewAddressAltPubKey = (\<lambda>n k. Some \<lparr>addr_kind = (if n = 1 then AddressEdwardsPubKey else if n = 2 then AddressSecSchnorrPubKey
       else if n = 4 then AddressBlissPubKey else AddressLmsPubKey), addr_DSA = n, addr_ScriptAddress = k\<rparr>),
     lib_NewAddressScriptHashFromHash = (\<lambda>h. Some \<lparr>addr_kind = AddressScriptHash, addr_DSA = 0, addr_ScriptAddress = h\<rparr>)\<rparr>"

lemmas class_defs = isPubkey_def isPubkeyAlt_def isPubkeyHash_def isPubkeyHashAlt_def isScriptHash_def isMultiSig_def
  isNullData_def isStakeSubmission_def isStakeGen_def isStakeRevocation_def isSStxChange_def isTaggedOut_def

lemma suite_op:
  assumes "n \<in> {1, 2, 4, 5}"
  shows "isOneByteMaxDataPush (opPop (word_of_int (80 + n)))" "extractOneBytePush (opPop (word_of_int (80 + n))) = Inr n"
    "op_length (opcodeArray (word_of_int (80 + n))) = 1" "\<not> (1 \<le> (word_of_int (80 + n) :: byte) \<and> (word_of_int (80 + n) :: byte) \<le> 16)"
  using assms by (auto simp: isOneByteMaxDataPush_def opPop_def extractOneBytePush_def opcodeArray_def)

text \<open>Pay to a public key hash, of the classic suite.\<close>

lemma pay_pkh:
  assumes "length h = 20"
  shows "\<exists>s. payToPubKeyHashScript h = Inr s \<and> parseOk s = Inr [opPop 0x76, opPop 0xa9, dataPop h, opPop 0x88, opPop 0xac]"
proof -
  let ?items = "[Op 0x76, Op 0xa9, Data h, Op 0x88, Op 0xac]"
  have "builder_Script (build ?items NewScriptBuilder) = Inr (script_bytes (map item_pop ?items)) \<and>
      parseOk (script_bytes (map item_pop ?items)) = Inr (map item_pop ?items)"
    by (rule built_parse) (use assms in \<open>simp_all add: canonicalDataSize_def dataPop_ok opPop_ok length_dataPush\<close>)
  then show ?thesis by (simp add: payToPubKeyHashScript_def)
qed

lemma pay_pkh_alt:
  assumes "length h = 20" "n \<in> {1, 2, 4, 5}"
  shows "\<exists>s. payToPubKeyHashAltScript n h = Inr s \<and>
    parseOk s = Inr [opPop 0x76, opPop 0xa9, dataPop h, opPop 0x88, opPop (word_of_int (80 + n)), opPop 0xbe]"
proof -
  let ?items = "[Op 0x76, Op 0xa9, Data h, Op 0x88, Data [word_of_int n], Op 0xbe]"
  have n: "0 < n" "n \<le> 16" using assms(2) by auto
  have dp: "length (dataPush h) = 21" using assms(1) by (simp add: length_dataPush canonicalDataSize_def)
  have "builder_Script (build ?items NewScriptBuilder) = Inr (script_bytes (map item_pop ?items)) \<and>
      parseOk (script_bytes (map item_pop ?items)) = Inr (map item_pop ?items)"
    by (rule built_parse)
       (use assms(1) dp suite_op(3,4) [OF assms(2)] in \<open>simp_all add: canonicalDataSize_def dataPop_ok opPop_ok dataPop_suite [OF n] nth_append\<close>)
  then show ?thesis by (simp add: payToPubKeyHashAltScript_def dataPop_suite [OF n])
qed

lemma pay_sh:
  assumes "length h = 20"
  shows "\<exists>s. payToScriptHashScript h = Inr s \<and> parseOk s = Inr [opPop 0xa9, dataPop h, opPop 0x87]"
proof -
  let ?items = "[Op 0xa9, Data h, Op 0x87]"
  have "builder_Script (build ?items NewScriptBuilder) = Inr (script_bytes (map item_pop ?items)) \<and>
      parseOk (script_bytes (map item_pop ?items)) = Inr (map item_pop ?items)"
    by (rule built_parse) (use assms in \<open>simp_all add: canonicalDataSize_def dataPop_ok opPop_ok length_dataPush\<close>)
  then show ?thesis by (simp add: payToScriptHashScript_def)
qed

lemma pay_pk:
  assumes "length k = 33 \<or> length k = 65"
  shows "\<exists>s. payToPubKeyScript k = Inr s \<and> parseOk s = Inr [dataPop k, opPop 0xac]"
proof -
  let ?items = "[Data k, Op 0xac]"
  have "builder_Script (build ?items NewScriptBuilder) = Inr (script_bytes (map item_pop ?items)) \<and>
      parseOk (script_bytes (map item_pop ?items)) = Inr (map item_pop ?items)"
    by (rule built_parse) (use assms in \<open>auto simp: canonicalDataSize_def dataPop_ok opPop_ok length_dataPush\<close>)
  then show ?thesis by (simp add: payToPubKeyScript_def)
qed

lemma pay_pk_alt:
  assumes "2 \<le> length k" "length k \<le> 8192" "n \<in> {1, 2, 4, 5}"
  shows "\<exists>s. payToAltPubKeyScript n k = Inr s \<and> parseOk s = Inr [dataPop k, opPop (word_of_int (80 + n)), opPop 0xbe]"
proof -
  let ?items = "[Data k, Data [word_of_int n], Op 0xbe]"
  have n: "0 < n" "n \<le> 16" using assms(3) by auto
  have sz: "canonicalDataSize [word_of_int n] = 1"
    using dataPop_suite [OF n] suite_op(3) [OF assms(3)] dataPop_ok [of "[word_of_int n]"] opPop_ok [of "word_of_int (80 + n)"]
    by (simp flip: length_dataPush)
  have "builder_Script (build ?items NewScriptBuilder) = Inr (script_bytes (map item_pop ?items)) \<and>
      parseOk (script_bytes (map item_pop ?items)) = Inr (map item_pop ?items)"
  proof (rule built_parse)
    let ?s = "script_bytes (map item_pop ?items)"
    have s: "?s = dataPush k @ [word_of_int (80 + n), 0xbe]"
      using assms(2) suite_op(3) [OF assms(3)] by (simp add: dataPop_suite [OF n] dataPop_ok opPop_ok)
    show "\<not> (1 \<le> ?s ! 24 \<and> ?s ! 24 \<le> 16)" if "length ?s = 26"
      using that suite_op(4) [OF assms(3)] unfolding s by (simp add: nth_append)
  qed (use assms canonicalDataSize_le [of k] sz in auto)
  then show ?thesis by (simp add: payToAltPubKeyScript_def dataPop_suite [OF n])
qed

lemma opPop_simps [simp]: "pop_value (opPop v) = v" "pop_data (opPop v) = []"
  by (simp_all add: opPop_def)

lemma dataPop_20: "length h = 20 \<Longrightarrow> pop_value (dataPop h) = 20 \<and> pop_data (dataPop h) = h"
  by (simp add: dataPop_direct)

lemma stake_tags: "isStakeTag tag \<longleftrightarrow> tag = OP_SSTX \<or> tag = OP_SSGEN \<or> tag = OP_SSRTX \<or> tag = OP_SSTXCHANGE"
proof -
  have "isStakeTag tag \<longleftrightarrow> uint tag = 186 \<or> uint tag = 187 \<or> uint tag = 188 \<or> uint tag = 189"
    unfolding isStakeTag_def word_le_def by auto
  then show ?thesis by (simp add: word_uint_eq_iff)
qed

lemma getScriptClass_parse: "parseOk s = Inr pops \<Longrightarrow> GetScriptClass 0 s = typeOfScript pops"
  by (simp add: GetScriptClass_def DefaultScriptVersion_def)

lemma extract_parse:
  assumes "parseOk s = Inr pops" "\<not> isStakeClass (typeOfScript pops)"
  shows "ExtractPkScriptAddrs lib 0 s = (case typeOfScript pops of
             PubKeyHashTy \<Rightarrow> bindE (at pops 2) (\<lambda>p.
               Inr (PubKeyHashTy, (case lib_NewAddressPubKeyHash lib (pop_data p) 0 of None \<Rightarrow> [] | Some a \<Rightarrow> [a]), 1))
           | PubkeyHashAltTy \<Rightarrow> bindE (altSuite s) (\<lambda>suite. bindE (at pops 2) (\<lambda>p.
               Inr (PubkeyHashAltTy, (case lib_NewAddressPubKeyHash lib (pop_data p) suite of None \<Rightarrow> [] | Some a \<Rightarrow> [a]), 1)))
           | PubKeyTy \<Rightarrow> bindE (at pops 0) (\<lambda>p. Inr (PubKeyTy, secpAddr lib (pop_data p), 1))
           | PubkeyAltTy \<Rightarrow> bindE (altSuite s) (\<lambda>suite. bindE (at pops 0) (\<lambda>p.
               Inr (PubkeyAltTy,
                    (if suite = 1 \<or> suite = 2 \<or> suite = 4 \<or> suite = 5
                     then (case lib_NewAddressAltPubKey lib suite (pop_data p) of None \<Rightarrow> [] | Some a \<Rightarrow> [a]) else []), 1)))
           | ScriptHashTy \<Rightarrow> bindE (at pops 1) (\<lambda>p.
               Inr (ScriptHashTy, (case lib_NewAddressScriptHashFromHash lib (pop_data p) of None \<Rightarrow> [] | Some a \<Rightarrow> [a]), 1))
           | MultiSigTy \<Rightarrow> bindE (at pops 0) (\<lambda>p. bindE (at pops (int (length pops) - 2)) (\<lambda>q.
               bindE (multiSigAddrs lib pops (nat (asSmallInt (pop_opcode q)))) (\<lambda>addrs.
                Inr (MultiSigTy, addrs, asSmallInt (pop_opcode p)))))
           | c \<Rightarrow> Inr (c, [], 0))"
  using assms
  by (simp add: ExtractPkScriptAddrs.simps [of lib 0 s] DefaultScriptVersion_def isStakeClass_def split: ScriptClass.splits)

lemma pkh_pops:
  assumes "length h = 20"
  shows "typeOfScript [opPop 0x76, opPop 0xa9, dataPop h, opPop 0x88, opPop 0xac] = PubKeyHashTy"
  using dataPop_20 [OF assms] by (simp add: typeOfScript_def class_defs)

lemma pkh_alt_pops:
  assumes "length h = 20" "n \<in> {1, 2, 4, 5}"
  shows "typeOfScript [opPop 0x76, opPop 0xa9, dataPop h, opPop 0x88, opPop (word_of_int (80 + n)), opPop 0xbe] = PubkeyHashAltTy"
  using dataPop_20 [OF assms(1)] suite_op(1) [OF assms(2)] by (simp add: typeOfScript_def class_defs)

lemma sh_pops:
  assumes "length h = 20"
  shows "typeOfScript [opPop 0xa9, dataPop h, opPop 0x87] = ScriptHashTy"
  using dataPop_20 [OF assms] by (simp add: typeOfScript_def class_defs)

lemma pk_pops:
  assumes "length k = 33 \<or> length k = 65"
  shows "typeOfScript [dataPop k, opPop 0xac] = PubKeyTy"
  using assms dataPop_data [of k] by (auto simp: typeOfScript_def class_defs)

lemma pk_alt_pops:
  assumes "2 \<le> length k" "length k < 512" "n \<in> {1, 2, 4, 5}"
  shows "typeOfScript [dataPop k, opPop (word_of_int (80 + n)), opPop 0xbe] = PubkeyAltTy"
  using assms dataPop_data [of k] suite_op(1) [OF assms(3)] by (auto simp: typeOfScript_def class_defs)

lemma altSuite_pkh:
  assumes "parseOk s = Inr [opPop 0x76, opPop 0xa9, dataPop h, opPop 0x88, opPop (word_of_int (80 + n)), opPop 0xbe]"
    "length h = 20" "n \<in> {1, 2, 4, 5}"
  shows "altSuite s = Inr n"
  using assms(1,3) dataPop_20 [OF assms(2)] suite_op(1,2) [OF assms(3)]
  by (auto simp: altSuite_def ExtractPkScriptAltSigType_def isPubkeyAlt_def isPubkeyHashAlt_def)

lemma altSuite_pk:
  assumes "parseOk s = Inr [dataPop k, opPop (word_of_int (80 + n)), opPop 0xbe]" "2 \<le> length k" "length k < 512" "n \<in> {1, 2, 4, 5}"
  shows "altSuite s = Inr n"
  using assms dataPop_data [of k] suite_op(1,2) [OF assms(4)]
  by (auto simp: altSuite_def ExtractPkScriptAltSigType_def isPubkeyAlt_def isPubkeyHashAlt_def)

lemma pay_alt_pk_extract:
  assumes "2 \<le> length k" "length k < 512" "n \<in> {1, 2, 4, 5}"
  shows "\<exists>s. payToAltPubKeyScript n k = Inr s \<and> GetScriptClass 0 s = PubkeyAltTy \<and>
    ExtractPkScriptAddrs lib 0 s = Inr (PubkeyAltTy, (case lib_NewAddressAltPubKey lib n k of None \<Rightarrow> [] | Some x \<Rightarrow> [x]), 1)"
proof -
  obtain s where s: "payToAltPubKeyScript n k = Inr s" "parseOk s = Inr [dataPop k, opPop (word_of_int (80 + n)), opPop 0xbe]"
    using pay_pk_alt [of k n] assms by auto
  show ?thesis
    using s extract_parse [OF s(2), of lib] pk_alt_pops [OF assms] altSuite_pk [OF s(2) assms] dataPop_data [of k] assms
    by (auto simp: getScriptClass_parse isStakeClass_def at_def)
qed

lemma pay_alt_pk_long:
  assumes "512 \<le> length k" "length k \<le> 8192" "n \<in> {1, 2, 4, 5}"
  shows "\<exists>s. payToAltPubKeyScript n k = Inr s \<and> GetScriptClass 0 s = NonStandardTy \<and>
    ExtractPkScriptAddrs lib 0 s = Inr (NonStandardTy, [], 0)"
proof -
  obtain s where s: "payToAltPubKeyScript n k = Inr s" "parseOk s = Inr [dataPop k, opPop (word_of_int (80 + n)), opPop 0xbe]"
    using pay_pk_alt [of k n] assms by auto
  have "pop_data (dataPop k) = k" using assms by (simp add: dataPop_data)
  with assms have "typeOfScript [dataPop k, opPop (word_of_int (80 + n)), opPop 0xbe] = NonStandardTy"
    by (auto simp: typeOfScript_def class_defs)
  then show ?thesis using s extract_parse [OF s(2), of lib] by (auto simp: getScriptClass_parse isStakeClass_def)
qed

text \<open>The two cases together, for the address of an alternative key.\<close>

lemma pay_alt_addr_extract:
  assumes "valid_addr a" "addr_kind a \<in> {AddressEdwardsPubKey, AddressSecSchnorrPubKey, AddressBlissPubKey, AddressLmsPubKey}"
  shows "\<exists>s. payToAltPubKeyScript (kind_suite (addr_kind a)) (addr_ScriptAddress a) = Inr s \<and> GetScriptClass 0 s = addr_class a \<and>
    ExtractPkScriptAddrs lib 0 s = Inr (if addr_class a = NonStandardTy then (NonStandardTy, [], 0) else (addr_class a, addr_back lib a, 1))"
proof -
  let ?k = "addr_ScriptAddress a" and ?n = "kind_suite (addr_kind a)"
  have k: "2 \<le> length ?k" "length ?k \<le> 8192" and n: "?n \<in> {1, 2, 4, 5}" and
    b: "addr_back lib a = (case lib_NewAddressAltPubKey lib ?n ?k of None \<Rightarrow> [] | Some x \<Rightarrow> [x])" and
    c: "addr_class a = (if length ?k < 512 then PubkeyAltTy else NonStandardTy)"
    using assms by (auto simp: valid_addr_def addr_back_def addr_class_def kind_suite_def Let_def)
  show ?thesis
  proof (cases "length ?k < 512")
    case True
    with pay_alt_pk_extract [OF k(1) _ n, of lib] b c show ?thesis by simp
  next
    case False
    with pay_alt_pk_long [OF _ k(2) n, of lib] c show ?thesis by simp
  qed
qed

lemma pay_pkh_alt_extract:
  assumes "length h = 20" "n \<in> {1, 2, 4, 5}"
  shows "\<exists>s. payToPubKeyHashAltScript n h = Inr s \<and> GetScriptClass 0 s = PubkeyHashAltTy \<and>
    ExtractPkScriptAddrs lib 0 s = Inr (PubkeyHashAltTy, (case lib_NewAddressPubKeyHash lib h n of None \<Rightarrow> [] | Some x \<Rightarrow> [x]), 1)"
proof -
  obtain s where s: "payToPubKeyHashAltScript n h = Inr s"
    "parseOk s = Inr [opPop 0x76, opPop 0xa9, dataPop h, opPop 0x88, opPop (word_of_int (80 + n)), opPop 0xbe]"
    using pay_pkh_alt [OF assms] by auto
  show ?thesis
    using s extract_parse [OF s(2), of lib] pkh_alt_pops [OF assms] altSuite_pkh [OF s(2) assms] dataPop_20 [OF assms(1)]
    by (auto simp: getScriptClass_parse isStakeClass_def at_def)
qed

lemma pay_pkh_extract:
  assumes "length h = 20"
  shows "\<exists>s. payToPubKeyHashScript h = Inr s \<and> GetScriptClass 0 s = PubKeyHashTy \<and>
    ExtractPkScriptAddrs lib 0 s = Inr (PubKeyHashTy, (case lib_NewAddressPubKeyHash lib h 0 of None \<Rightarrow> [] | Some x \<Rightarrow> [x]), 1)"
proof -
  obtain s where s: "payToPubKeyHashScript h = Inr s" "parseOk s = Inr [opPop 0x76, opPop 0xa9, dataPop h, opPop 0x88, opPop 0xac]"
    using pay_pkh [OF assms] by auto
  show ?thesis
    using s extract_parse [OF s(2), of lib] pkh_pops [OF assms] dataPop_20 [OF assms]
    by (auto simp: getScriptClass_parse isStakeClass_def at_def)
qed

lemma pay_sh_extract:
  assumes "length h = 20"
  shows "\<exists>s. payToScriptHashScript h = Inr s \<and> GetScriptClass 0 s = ScriptHashTy \<and>
    ExtractPkScriptAddrs lib 0 s = Inr (ScriptHashTy, (case lib_NewAddressScriptHashFromHash lib h of None \<Rightarrow> [] | Some x \<Rightarrow> [x]), 1)"
proof -
  obtain s where s: "payToScriptHashScript h = Inr s" "parseOk s = Inr [opPop 0xa9, dataPop h, opPop 0x87]"
    using pay_sh [OF assms] by auto
  show ?thesis
    using s extract_parse [OF s(2), of lib] sh_pops [OF assms] dataPop_20 [OF assms]
    by (auto simp: getScriptClass_parse isStakeClass_def at_def)
qed

lemma pay_pk_extract:
  assumes "length k = 33 \<or> length k = 65"
  shows "\<exists>s. payToPubKeyScript k = Inr s \<and> GetScriptClass 0 s = PubKeyTy \<and>
    ExtractPkScriptAddrs lib 0 s = Inr (PubKeyTy, secpAddr lib k, 1)"
proof -
  obtain s where s: "payToPubKeyScript k = Inr s" "parseOk s = Inr [dataPop k, opPop 0xac]"
    using pay_pk [OF assms] by auto
  show ?thesis
    using s extract_parse [OF s(2), of lib] pk_pops [OF assms] dataPop_data [of k] assms
    by (auto simp: getScriptClass_parse isStakeClass_def at_def)
qed

section \<open>Properties\<close>

lemma pay_addr_back:
  assumes "valid_addr a"
  shows "\<exists>s. PayToAddrScript (Some a) = Inr s \<and> GetScriptClass 0 s = addr_class a \<and>
    ExtractPkScriptAddrs lib 0 s = Inr (if addr_class a = NonStandardTy then (NonStandardTy, [], 0) else (addr_class a, addr_back lib a, 1))"
proof (cases "addr_kind a")
  case AddressPubKeyHash
  with assms have h: "length (addr_ScriptAddress a) = 20" and d: "addr_DSA a \<in> {0, 1, 2, 4, 5}"
    by (auto simp: valid_addr_def Let_def)
  show ?thesis
  proof (cases "addr_DSA a = 0")
    case True
    with AddressPubKeyHash pay_pkh_extract [OF h, of lib] show ?thesis
      by (simp add: PayToAddrScript_def addr_class_def addr_back_def)
  next
    case False
    with d have d': "addr_DSA a \<in> {1, 2, 4, 5}" by auto
    with AddressPubKeyHash pay_pkh_alt_extract [OF h d', of lib] show ?thesis
      by (auto simp: PayToAddrScript_def addr_class_def addr_back_def payToPubKeyHashEdwardsScript_def
          payToPubKeyHashSchnorrScript_def payToPubKeyHashBlissScript_def payToPubKeyHashLmsScript_def)
  qed
next
  case AddressScriptHash
  with assms pay_sh_extract [of "addr_ScriptAddress a" lib] show ?thesis
    by (simp add: valid_addr_def PayToAddrScript_def addr_class_def addr_back_def)
next
  case AddressSecpPubKey
  with assms pay_pk_extract [of "addr_ScriptAddress a" lib] show ?thesis
    by (simp add: valid_addr_def PayToAddrScript_def addr_class_def addr_back_def Let_def)
next
  case AddressOther
  with assms show ?thesis by (simp add: valid_addr_def)
qed (use pay_alt_addr_extract [OF assms, of lib] in
    \<open>simp_all add: PayToAddrScript_def kind_suite_def payToEdwardsPubKeyScript_def payToSchnorrPubKeyScript_def
      payToBlissPubKeyScript_def payToLmsPubKeyScript_def\<close>)

text \<open>
  C23. The script that pays to an address is recognised as the class of that address, and the
  address itself is extracted from it, with one signature required, provided the constructors of
  the address package rebuild the address from its hash or key (for a secp256k1 key, this is the
  address of the compressed key). This holds for every kind of address and suite the code supports,
  with hashes of 20 bytes, secp256k1 keys of 33 or 65 bytes and alternative keys of 2 to 511 bytes.
  For an alternative key of 512 to 8192 bytes, as a BLISS key is, the script is non-standard and no
  address is extracted from it.
\<close>

theorem pay_to_addr_extract:
  assumes "valid_addr a" "rebuilds lib a"
  shows "\<exists>s. PayToAddrScript (Some a) = Inr s \<and> GetScriptClass 0 s = addr_class a \<and>
    ExtractPkScriptAddrs lib 0 s = Inr (if addr_class a = NonStandardTy then (NonStandardTy, [], 0) else (addr_class a, [a], 1))"
  using pay_addr_back [OF assms(1), of lib] unfolding addr_back_rebuilds [OF assms(2)] .

theorem pay_to_addr_extract_witness:
  "\<exists>s. PayToAddrScript (Some \<lparr>addr_kind = AddressPubKeyHash, addr_DSA = 4, addr_ScriptAddress = replicate 20 1\<rparr>) = Inr s \<and>
     ExtractPkScriptAddrs sampleLib 0 s =
       Inr (PubkeyHashAltTy, [\<lparr>addr_kind = AddressPubKeyHash, addr_DSA = 4, addr_ScriptAddress = replicate 20 1\<rparr>], 1)"
  using pay_to_addr_extract [of "\<lparr>addr_kind = AddressPubKeyHash, addr_DSA = 4, addr_ScriptAddress = replicate 20 1\<rparr>" sampleLib]
  by (simp add: valid_addr_def addr_class_def rebuilds_def sampleLib_def) blast

section \<open>Multi-signature scripts\<close>

definition smallOp :: "int \<Rightarrow> byte" where
  "smallOp n = (if n = 0 then 0 else word_of_int (80 + n))"

lemma smallOp_props:
  assumes "0 \<le> n" "n \<le> 16"
  shows "op_length (opcodeArray (smallOp n)) = 1" "isSmallInt (opcodeArray (smallOp n))" "asSmallInt (opcodeArray (smallOp n)) = n"
proof -
  consider "n = 0" | "0 < n" using assms(1) by linarith
  then have "op_length (opcodeArray (smallOp n)) = 1 \<and> isSmallInt (opcodeArray (smallOp n)) \<and> asSmallInt (opcodeArray (smallOp n)) = n"
  proof cases
    case 1
    then show ?thesis by (simp add: smallOp_def isSmallInt_def asSmallInt_def)
  next
    case 2
    have u': "uint (word_of_int k :: byte) = k" if "0 \<le> k" "k < 256" for k
      using that by (simp add: unsigned_of_int take_bit_int_eq_self)
    have u: "uint (word_of_int (80 + n) :: byte) = 80 + n" using u' [of "80 + n"] 2 assms(2) by linarith
    have ne: "(word_of_int (80 + n) :: byte) \<noteq> 0" using u 2 by (metis add_pos_pos less_irrefl unsigned_0 zero_less_numeral)
    define w where "w = (word_of_int (80 + n) :: byte)"
    have sw: "smallOp n = w" using 2 by (simp add: w_def smallOp_def)
    have w: "uint w = 80 + n" "w \<noteq> 0" using u ne by (simp_all only: w_def not_False_eq_True)
    have "uint (w - 80) = n" using w 2 assms(2) by (simp add: uint_sub_if')
    with w 2 assms(2) show ?thesis
      unfolding sw by (simp add: isSmallInt_def asSmallInt_def word_le_def word_less_def)
  qed
  then show "op_length (opcodeArray (smallOp n)) = 1" "isSmallInt (opcodeArray (smallOp n))" "asSmallInt (opcodeArray (smallOp n)) = n"
    by simp_all
qed

lemma AddInt64_small:
  assumes "0 \<le> n" "n \<le> 16"
  shows "\<exists>b'. AddInt64 n b = Inr b' \<and> sb_script b' = sb_script (AddOp (smallOp n) b) \<and>
    (sb_err b' = None \<longleftrightarrow> sb_err (AddOp (smallOp n) b) = None) \<and> (sb_err b' = None \<longrightarrow> b' = AddOp (smallOp n) b)"
  using assms by (auto simp: AddInt64_def AddOp_def smallOp_def)

lemma fold_AddData: "fold AddData ds b = build (map Data ds) b"
  by (induction ds arbitrary: b) simp_all

lemma build_append: "build (xs @ ys) b = build ys (build xs b)"
  by (induction xs b rule: build.induct) simp_all

lemma multisig_parse:
  assumes "0 \<le> m" "m \<le> int (length keys)" "1 \<le> length keys" "length keys \<le> 16"
    "list_all (\<lambda>k. length k = 33 \<or> length k = 65) keys"
  shows "\<exists>s. MultiSigScript keys m = Inr s \<and>
    parseOk s = Inr (opPop (smallOp m) # map dataPop keys @ [opPop (smallOp (int (length keys))), opPop 0xae])"
proof -
  let ?n = "int (length keys)"
  let ?items = "Op (smallOp m) # map Data keys @ [Op (smallOp ?n), Op 0xae]"
  let ?sz = "\<lambda>i. case i of Op _ \<Rightarrow> 1 | Data d \<Rightarrow> canonicalDataSize d"
  have m: "m \<le> 16" and n: "0 \<le> ?n" "?n \<le> 16" using assms(2,4) by auto
  have keysz: "sum_list (map (?sz \<circ> Data) keys) \<le> 66 * length keys \<and> 34 * length keys \<le> sum_list (map (?sz \<circ> Data) keys)"
    using assms(5) by (induction keys) (auto simp: canonicalDataSize_def)
  have len: "length (script_bytes (map dataPop keys)) = sum_list (map (?sz \<circ> Data) keys)"
    using assms(5) by (induction keys) (auto simp: dataPop_ok length_dataPush)
  have P: "builder_Script (build ?items NewScriptBuilder) = Inr (script_bytes (map item_pop ?items)) \<and>
      parseOk (script_bytes (map item_pop ?items)) = Inr (map item_pop ?items)"
  proof (rule built_parse)
    have "length (script_bytes (map item_pop ?items)) > 26"
      using keysz len assms(3) smallOp_props(1) [OF assms(1) m] smallOp_props(1) [OF n]
      by (simp add: comp_def opPop_ok)
    then show "\<not> (1 \<le> script_bytes (map item_pop ?items) ! 24 \<and> script_bytes (map item_pop ?items) ! 24 \<le> 16)"
      if "length (script_bytes (map item_pop ?items)) = 26" using that by simp
    show "sum_list (map ?sz ?items) \<le> 16384" using keysz assms(4) by simp
    show "\<forall>d. Data d \<in> set ?items \<longrightarrow> length d \<le> 8192" using assms(5) by (auto simp: list_all_iff)
    show "\<forall>v. Op v \<in> set ?items \<longrightarrow> op_length (opcodeArray v) = 1"
      using smallOp_props(1) [OF assms(1) m] smallOp_props(1) [OF n] by auto
  qed
  then have err: "sb_err (build ?items NewScriptBuilder) = None"
    by (auto simp: builder_Script_def split: option.splits)
  let ?b1 = "AddOp (smallOp m) NewScriptBuilder" and ?b2 = "build (map Data keys) (AddOp (smallOp m) NewScriptBuilder)"
  have whole: "build ?items NewScriptBuilder = AddOp 0xae (AddOp (smallOp ?n) ?b2)" by (simp add: build_append)
  have e2: "sb_err (AddOp (smallOp ?n) ?b2) = None"
    using err unfolding whole by (auto simp: AddOp_def split: if_splits)
  then have "sb_err ?b2 = None" by (auto simp: AddOp_def split: if_splits)
  then have e1: "sb_err ?b1 = None" using build_frozen [of ?b1 "map Data keys"] by fastforce
  have s1: "AddInt64 m NewScriptBuilder = Inr ?b1" using AddInt64_small [OF assms(1) m, of NewScriptBuilder] e1 by auto
  have s2: "AddInt64 ?n ?b2 = Inr (AddOp (smallOp ?n) ?b2)" using AddInt64_small [OF n, of ?b2] e2 by auto
  have "MultiSigScript keys m = builder_Script (build ?items NewScriptBuilder)"
    using assms(2) s1 s2 unfolding whole by (simp add: MultiSigScript_def fold_AddData)
  with P show ?thesis by (simp add: comp_def)
qed

lemma multiSigAddrs_keys:
  assumes "list_all (\<lambda>k. pop_data (dataPop k) = k) keys" "j \<le> length keys"
  shows "multiSigAddrs lib (p # map dataPop keys @ ps) j = Inr (concat (map (secpAddr lib) (take j keys)))"
  using assms(2)
proof (induction j)
  case (Suc j)
  have "at (p # map dataPop keys @ ps) (int j + 1) = (Inr (dataPop (keys ! j)) :: parsedOpcode sres)"
    using Suc.prems by (simp add: at_def nth_append nat_add_distrib)
  then show ?case using Suc assms(1) by (simp add: take_Suc_conv_app_nth list_all_length)
qed simp

lemma multisig_pushed:
  assumes "parseOk s = Inr (opPop (smallOp m) # map dataPop keys @ [opPop (smallOp n), opPop 0xae])"
    "0 \<le> m" "m \<le> 16" "1 \<le> n" "n \<le> 16" "list_all (\<lambda>k. length k = 33 \<or> length k = 65) keys"
  shows "PushedData s = Inr ((if m = 0 then [[]] else []) @ keys)"
proof -
  have z: "smallOp k = 0 \<longleftrightarrow> k = 0" if "0 \<le> k" "k \<le> 16" for k
    using smallOp_props(3) [OF that] smallOp_props(3) [of 0] by (metis order_refl zero_le_numeral smallOp_def)
  have k: "op_length (pop_opcode (dataPop k)) \<noteq> 1 \<and> pop_data (dataPop k) = k" if "length k = 33 \<or> length k = 65" for k
    using that by (auto simp: dataPop_direct dataPop_data opcodeArray_def)
  have "concat (map (\<lambda>pop. if op_length (pop_opcode pop) \<noteq> 1 then [pop_data pop]
      else if pop_value pop = OP_0 then [[]] else []) (map dataPop keys)) = keys"
    using assms(6) by (induction keys) (simp_all add: k)
  then show ?thesis
    using assms(1-5) z [of m] z [of n] smallOp_props(1) [of m] smallOp_props(1) [of n]
    by (simp add: PushedData_def opPop_def)
qed

text \<open>
  C24. \<^verbatim>\<open>MultiSigScript\<close> makes a script that is recognised as a multi-signature script and from which
  the number of required signatures, the number of keys and the keys themselves are read back, for up
  to 16 keys of the two standard sizes and any number of required signatures up to the number of
  keys: the data pushed by the script are the keys in their order (after the empty push that stands
  for no required signature), and the addresses extracted from it are those of the keys, in their
  order, as far as the keys parse.
\<close>

theorem multisig_round_trip:
  assumes "0 \<le> m" "m \<le> int (length keys)" "1 \<le> length keys" "length keys \<le> 16"
    "list_all (\<lambda>k. length k = 33 \<or> length k = 65) keys"
  shows "\<exists>s. MultiSigScript keys m = Inr s \<and> GetScriptClass 0 s = MultiSigTy \<and>
    IsMultisigScript s = Inr True \<and> CalcMultiSigStats s = Inr (int (length keys), m) \<and>
    PushedData s = Inr ((if m = 0 then [[]] else []) @ keys) \<and>
    ExtractPkScriptAddrs lib 0 s = Inr (MultiSigTy, concat (map (secpAddr lib) keys), m)"
proof -
  let ?n = "int (length keys)"
  obtain s where s: "MultiSigScript keys m = Inr s"
    "parseOk s = Inr (opPop (smallOp m) # map dataPop keys @ [opPop (smallOp ?n), opPop 0xae])" (is "_ = Inr ?pops")
    using multisig_parse [OF assms] by auto
  have m: "m \<le> 16" and n: "0 \<le> ?n" "?n \<le> 16" using assms(2,4) by auto
  note sm = smallOp_props [OF assms(1) m] smallOp_props [OF n]
  have ne: "keys \<noteq> []" using assms(3) by auto
  have l: "length ?pops = length keys + 3" by simp
  have last2: "?pops ! (length keys + 1) = opPop (smallOp ?n)" "?pops ! (length keys + 2) = opPop 0xae"
    by (simp_all add: nth_append)
  have mid: "take (length keys) (drop 1 ?pops) = map dataPop keys" by simp
  have "list_all (\<lambda>pop. length (pop_data pop) = 33 \<or> length (pop_data pop) = 65) (map dataPop keys)"
    using assms(5) by (auto simp: list_all_iff dataPop_data)
  then have ms: "isMultiSig ?pops"
    using ne l last2 mid sm unfolding isMultiSig_def Let_def by (simp add: opPop_def)
  have "\<not> isPubkey ?pops" "\<not> isPubkeyAlt ?pops" "\<not> isScriptHash ?pops" using l assms(3) by (auto simp: class_defs)
  moreover have "\<not> isPubkeyHash ?pops" "\<not> isPubkeyHashAlt ?pops"
    using l last2(2) by (auto simp: isPubkeyHash_def isPubkeyHashAlt_def)
  ultimately have c: "typeOfScript ?pops = MultiSigTy" using ms by (simp add: typeOfScript_def)
  have "CalcMultiSigStats s = Inr (?n, m)"
    using s(2) ne l last2 sm by (simp add: CalcMultiSigStats_def opPop_def)
  moreover have "PushedData s = Inr ((if m = 0 then [[]] else []) @ keys)"
    using multisig_pushed [OF s(2) assms(1) m _ n(2) assms(5)] assms(3) by simp
  moreover have "ExtractPkScriptAddrs lib 0 s = Inr (MultiSigTy, concat (map (secpAddr lib) keys), m)"
  proof -
    have "at ?pops 0 = (Inr (opPop (smallOp m)) :: parsedOpcode sres)"
      "at ?pops (int (length ?pops) - 2) = (Inr (opPop (smallOp ?n)) :: parsedOpcode sres)"
      using last2(1) by (simp_all add: at_def nat_add_distrib)
    moreover have "list_all (\<lambda>k. pop_data (dataPop k) = k) keys"
      using assms(5) by (auto simp: list_all_iff dataPop_data)
    then have "multiSigAddrs lib ?pops (length keys) = Inr (concat (map (secpAddr lib) keys))"
      using multiSigAddrs_keys [of keys "length keys" lib] by simp
    ultimately show ?thesis
      using extract_parse [OF s(2), of lib] c sm by (simp add: isStakeClass_def opPop_def)
  qed
  ultimately show ?thesis using s ms c by (simp add: getScriptClass_parse IsMultisigScript_def)
qed

theorem multisig_round_trip_witness:
  "\<exists>s. MultiSigScript [replicate 33 2, replicate 33 3] 1 = Inr s \<and> CalcMultiSigStats s = Inr (2, 1) \<and>
    PushedData s = Inr [replicate 33 2, replicate 33 3]"
  using multisig_round_trip [of 1 "[replicate 33 2, replicate 33 3]"] by auto

section \<open>The classes exclude each other\<close>

lemma class_shape:
  "isPubkey pops \<Longrightarrow> length pops = 2 \<and> pop_value (pops ! 1) = 0xac"
  "isPubkeyAlt pops \<Longrightarrow> length pops = 3 \<and> pop_value (pops ! 2) = 0xbe"
  "isPubkeyHash pops \<Longrightarrow> length pops = 5 \<and> pop_value (pops ! 4) = 0xac"
  "isPubkeyHashAlt pops \<Longrightarrow> length pops = 6 \<and> pop_value (pops ! 0) = 0x76 \<and> pop_value (pops ! 5) = 0xbe"
  "isScriptHash pops \<Longrightarrow> length pops = 3 \<and> pop_value (pops ! 2) = 0x87"
  "isMultiSig pops \<Longrightarrow> 4 \<le> length pops \<and> pop_value (pops ! (length pops - 1)) = 0xae"
  "isNullData pops \<Longrightarrow> length pops = 1 \<or> length pops = 2 \<and> pop_value (pops ! 1) \<le> 0x4e"
  by (auto simp: class_defs Let_def split: if_splits)

lemma tagged_shape:
  "isTaggedOut tag pops \<Longrightarrow> pop_value (pops ! 0) = tag \<and>
     (length pops = 6 \<and> pop_value (pops ! 5) = 0xac \<or> length pops = 4 \<and> pop_value (pops ! 3) = 0x87)"
  by (auto simp: isTaggedOut_def)

lemma other_shape:
  "length pops \<noteq> 2 \<Longrightarrow> \<not> isPubkey pops" "length pops \<noteq> 3 \<Longrightarrow> \<not> isPubkeyAlt pops" "length pops \<noteq> 5 \<Longrightarrow> \<not> isPubkeyHash pops"
  "length pops \<noteq> 6 \<Longrightarrow> \<not> isPubkeyHashAlt pops" "length pops \<noteq> 3 \<Longrightarrow> \<not> isScriptHash pops" "length pops < 4 \<Longrightarrow> \<not> isMultiSig pops"
  "pop_value (pops ! 2) \<noteq> 0xbe \<Longrightarrow> \<not> isPubkeyAlt pops" "pop_value (pops ! 0) \<noteq> 0x76 \<Longrightarrow> \<not> isPubkeyHashAlt pops"
  "pop_value (pops ! (length pops - 1)) \<noteq> 0xae \<Longrightarrow> \<not> isMultiSig pops"
  "length pops \<noteq> 1 \<Longrightarrow> length pops \<noteq> 2 \<Longrightarrow> \<not> isNullData pops"
  "pop_value (pops ! 0) \<noteq> tag \<Longrightarrow> \<not> isTaggedOut tag pops"
  "length pops \<noteq> 6 \<Longrightarrow> length pops \<noteq> 4 \<Longrightarrow> \<not> isTaggedOut tag pops"
  "length pops = 2 \<Longrightarrow> pop_value (pops ! 1) \<le> 0x4e \<Longrightarrow> \<not> isPubkey pops"
  "length pops = 6 \<Longrightarrow> pop_value (pops ! 5) \<noteq> 0xac \<Longrightarrow> \<not> isTaggedOut tag pops"
  "length pops = 4 \<Longrightarrow> pop_value (pops ! 3) \<noteq> 0x87 \<Longrightarrow> \<not> isTaggedOut tag pops"
  using class_shape [of pops] tagged_shape [of tag pops] by auto

lemmas tag_defs = isStakeSubmission_def isStakeGen_def isStakeRevocation_def isSStxChange_def

lemma class_of_tagged:
  assumes "isTaggedOut tag pops" "isStakeTag tag"
  shows "typeOfScript pops = (if tag = OP_SSTX then StakeSubmissionTy else if tag = OP_SSGEN then StakeGenTy
     else if tag = OP_SSRTX then StakeRevocationTy else StakeSubChangeTy)"
proof -
  have first: "pop_value (pops ! 0) = tag" and ne: "tag \<noteq> 0x76" using assms tagged_shape [OF assms(1)] by (auto simp: isStakeTag_def)
  have "length pops = 6 \<and> pop_value (pops ! 5) = 0xac \<or> length pops = 4 \<and> pop_value (pops ! 3) = 0x87"
    using tagged_shape [OF assms(1)] by simp
  then have "\<not> isPubkey pops \<and> \<not> isPubkeyAlt pops \<and> \<not> isPubkeyHash pops \<and> \<not> isPubkeyHashAlt pops \<and> \<not> isScriptHash pops \<and>
      \<not> isMultiSig pops \<and> \<not> isNullData pops"
    using first ne by (elim disjE) (simp_all add: other_shape)
  moreover have "isTaggedOut t pops = (t = tag)" for t using first assms(1) by (auto simp: isTaggedOut_def)
  ultimately show ?thesis using assms(2) unfolding stake_tags
    by (auto simp: typeOfScript_def tag_defs)
qed

lemma class_of_form:
  "isPubkey pops \<Longrightarrow> typeOfScript pops = PubKeyTy"
  "isPubkeyAlt pops \<Longrightarrow> typeOfScript pops = PubkeyAltTy"
  "isPubkeyHash pops \<Longrightarrow> typeOfScript pops = PubKeyHashTy"
  "isPubkeyHashAlt pops \<Longrightarrow> typeOfScript pops = PubkeyHashAltTy"
  "isScriptHash pops \<Longrightarrow> typeOfScript pops = ScriptHashTy"
  "isStakeSubmission pops \<Longrightarrow> typeOfScript pops = StakeSubmissionTy"
  "isStakeGen pops \<Longrightarrow> typeOfScript pops = StakeGenTy"
  "isStakeRevocation pops \<Longrightarrow> typeOfScript pops = StakeRevocationTy"
  "isSStxChange pops \<Longrightarrow> typeOfScript pops = StakeSubChangeTy"
  subgoal by (simp add: typeOfScript_def)
  subgoal by (frule class_shape) (simp add: typeOfScript_def other_shape)
  subgoal by (frule class_shape) (simp add: typeOfScript_def other_shape)
  subgoal by (frule class_shape) (simp add: typeOfScript_def other_shape)
  subgoal by (frule class_shape) (simp add: typeOfScript_def other_shape)
  by (simp_all add: tag_defs class_of_tagged isStakeTag_def)

lemma class_of_multisig:
  assumes "isMultiSig pops"
  shows "typeOfScript pops = MultiSigTy"
proof -
  note m = class_shape(6) [OF assms]
  have "\<not> isPubkeyHash pops" using class_shape(3) [of pops] m by auto
  moreover have "\<not> isPubkeyHashAlt pops" using class_shape(4) [of pops] m by auto
  ultimately show ?thesis using assms m by (simp add: typeOfScript_def other_shape)
qed

lemma class_of_nulldata:
  assumes "isNullData pops"
  shows "typeOfScript pops = NullDataTy"
  using assms class_shape(7) [OF assms] by (auto simp: typeOfScript_def other_shape)

text \<open>
  C25. A script has the class \<^verbatim>\<open>typeOfScript\<close> returns exactly when it has the form of that class: the eleven
  standard forms exclude each other, so the order in which they are tested does not matter.
\<close>

theorem script_classes_disjoint:
  "(typeOfScript pops = PubKeyTy \<longleftrightarrow> isPubkey pops) \<and>
   (typeOfScript pops = PubkeyAltTy \<longleftrightarrow> isPubkeyAlt pops) \<and>
   (typeOfScript pops = PubKeyHashTy \<longleftrightarrow> isPubkeyHash pops) \<and>
   (typeOfScript pops = PubkeyHashAltTy \<longleftrightarrow> isPubkeyHashAlt pops) \<and>
   (typeOfScript pops = ScriptHashTy \<longleftrightarrow> isScriptHash pops) \<and>
   (typeOfScript pops = MultiSigTy \<longleftrightarrow> isMultiSig pops) \<and>
   (typeOfScript pops = NullDataTy \<longleftrightarrow> isNullData pops) \<and>
   (typeOfScript pops = StakeSubmissionTy \<longleftrightarrow> isStakeSubmission pops) \<and>
   (typeOfScript pops = StakeGenTy \<longleftrightarrow> isStakeGen pops) \<and>
   (typeOfScript pops = StakeRevocationTy \<longleftrightarrow> isStakeRevocation pops) \<and>
   (typeOfScript pops = StakeSubChangeTy \<longleftrightarrow> isSStxChange pops)"
  by (intro conjI iffI class_of_form class_of_multisig class_of_nulldata) (simp_all add: typeOfScript_def split: if_splits)

section \<open>Stake outputs\<close>

definition tag_class :: "byte \<Rightarrow> ScriptClass" where
  "tag_class tag = (if tag = OP_SSTX then StakeSubmissionTy else if tag = OP_SSGEN then StakeGenTy
     else if tag = OP_SSRTX then StakeRevocationTy else StakeSubChangeTy)"

lemma tag_props:
  assumes "isStakeTag tag"
  shows "op_length (opcodeArray tag) = 1" "isStakeClass (tag_class tag)"
  using assms unfolding stake_tags by (auto simp: tag_class_def isStakeClass_def)

lemma not_tags: "\<not> isStakeTag 0x76" "\<not> isStakeTag 0xa9" "\<not> isStakeTag 0x88" "\<not> isStakeTag 0xac" "\<not> isStakeTag 20" "\<not> isStakeTag 0x87"
  by (simp_all add: isStakeTag_def)

lemma tagged_pkh_pops:
  assumes "isStakeTag tag" "length h = 20"
  shows "typeOfScript [opPop tag, opPop 0x76, opPop 0xa9, dataPop h, opPop 0x88, opPop 0xac] = tag_class tag"
  using assms(1) dataPop_20 [OF assms(2)] unfolding stake_tags
  by (auto simp: typeOfScript_def class_defs tag_class_def)

lemma tagged_sh_pops:
  assumes "isStakeTag tag" "length h = 20"
  shows "typeOfScript [opPop tag, opPop 0xa9, dataPop h, opPop 0x87] = tag_class tag"
  using assms(1) dataPop_20 [OF assms(2)] unfolding stake_tags
  by (auto simp: typeOfScript_def class_defs tag_class_def)

lemma tagged_pkh:
  assumes "isStakeTag tag" "length h = 20" "addr_kind a = AddressPubKeyHash" "addr_DSA a = 0" "addr_ScriptAddress a = h"
  shows "\<exists>s. payToPubKeyHashScript h = Inr s \<and> payToStake tag (Some a) = Inr (tag # s) \<and>
    parseOk (tag # s) = Inr [opPop tag, opPop 0x76, opPop 0xa9, dataPop h, opPop 0x88, opPop 0xac]"
proof -
  let ?items = "[Op 0x76, Op 0xa9, Data h, Op 0x88, Op 0xac]"
  have tag: "op_length (opcodeArray tag) = 1" using assms(1) by (rule tag_props)
  have dp: "length (dataPush h) = 21" using assms(2) by (simp add: length_dataPush canonicalDataSize_def)
  have A: "builder_Script (build ?items NewScriptBuilder) = Inr (script_bytes (map item_pop ?items)) \<and>
      parseOk (script_bytes (map item_pop ?items)) = Inr (map item_pop ?items)"
    by (rule built_parse) (use assms(2) dp in \<open>simp_all add: canonicalDataSize_def dataPop_ok opPop_ok\<close>)
  have B: "builder_Script (build (Op tag # ?items) NewScriptBuilder) = Inr (script_bytes (map item_pop (Op tag # ?items))) \<and>
      parseOk (script_bytes (map item_pop (Op tag # ?items))) = Inr (map item_pop (Op tag # ?items))"
    by (rule built_parse)
       (use assms(2) dp tag in \<open>simp_all add: canonicalDataSize_def dataPop_ok opPop_ok nth_append\<close>)
  have "payToStake tag (Some a) = builder_Script (build (Op tag # ?items) NewScriptBuilder)"
    using assms(3-5) by (simp add: payToStake_def stakeAddrType_def)
  moreover have "script_bytes (map item_pop (Op tag # ?items)) = tag # script_bytes (map item_pop ?items)"
    using tag by (simp add: opPop_ok)
  ultimately show ?thesis using A B by (simp add: payToPubKeyHashScript_def)
qed

lemma tagged_sh:
  assumes "isStakeTag tag" "length h = 20" "addr_kind a = AddressScriptHash" "addr_ScriptAddress a = h"
  shows "\<exists>s. payToScriptHashScript h = Inr s \<and> payToStake tag (Some a) = Inr (tag # s) \<and>
    parseOk (tag # s) = Inr [opPop tag, opPop 0xa9, dataPop h, opPop 0x87]"
proof -
  let ?items = "[Op 0xa9, Data h, Op 0x87]"
  have tag: "op_length (opcodeArray tag) = 1" using assms(1) by (rule tag_props)
  have dp: "length (dataPush h) = 21" using assms(2) by (simp add: length_dataPush canonicalDataSize_def)
  have A: "builder_Script (build ?items NewScriptBuilder) = Inr (script_bytes (map item_pop ?items)) \<and>
      parseOk (script_bytes (map item_pop ?items)) = Inr (map item_pop ?items)"
    by (rule built_parse) (use assms(2) dp in \<open>simp_all add: canonicalDataSize_def dataPop_ok opPop_ok\<close>)
  have B: "builder_Script (build (Op tag # ?items) NewScriptBuilder) = Inr (script_bytes (map item_pop (Op tag # ?items))) \<and>
      parseOk (script_bytes (map item_pop (Op tag # ?items))) = Inr (map item_pop (Op tag # ?items))"
    by (rule built_parse)
       (use assms(2) dp tag in \<open>simp_all add: canonicalDataSize_def dataPop_ok opPop_ok\<close>)
  have "payToStake tag (Some a) = builder_Script (build (Op tag # ?items) NewScriptBuilder)"
    using assms(3,4) by (simp add: payToStake_def stakeAddrType_def)
  moreover have "script_bytes (map item_pop (Op tag # ?items)) = tag # script_bytes (map item_pop ?items)"
    using tag by (simp add: opPop_ok)
  ultimately show ?thesis using A B by (simp add: payToScriptHashScript_def)
qed

lemma extract_stake:
  assumes "parseOk s = Inr pops" "isStakeClass (typeOfScript pops)" "s = tag # s'" "ExtractPkScriptAddrs lib 0 s' = Inr (c, addrs, n)"
  shows "ExtractPkScriptAddrs lib 0 s = Inr (typeOfScript pops, addrs, n)"
  using assms(2)
  by (subst ExtractPkScriptAddrs.simps)
     (auto simp: assms(1,3,4) assms(1) [unfolded assms(3)] DefaultScriptVersion_def isStakeClass_def)

lemma stake_output:
  assumes "isStakeTag tag" "addr_kind a = AddressPubKeyHash \<and> addr_DSA a = 0 \<or> addr_kind a = AddressScriptHash"
    "length (addr_ScriptAddress a) = 20"
  shows "\<exists>s. payToStake tag (Some a) = Inr s \<and> GetScriptClass 0 s = tag_class tag \<and> IsStakeOutput s \<and>
    GetStakeOutSubclass s = Inr (addr_class a) \<and> ExtractPkScriptAddrs lib 0 s = Inr (tag_class tag, addr_back lib a, 1)"
  using assms(2)
proof
  assume k: "addr_kind a = AddressPubKeyHash \<and> addr_DSA a = 0"
  obtain s where s: "payToPubKeyHashScript (addr_ScriptAddress a) = Inr s" "payToStake tag (Some a) = Inr (tag # s)"
    "parseOk (tag # s) = Inr [opPop tag, opPop 0x76, opPop 0xa9, dataPop (addr_ScriptAddress a), opPop 0x88, opPop 0xac]"
    using tagged_pkh [OF assms(1) assms(3)] k by auto
  note t = tagged_pkh_pops [OF assms(1,3)] and st = tag_props(2) [OF assms(1)]
  have "ExtractPkScriptAddrs lib 0 s = Inr (PubKeyHashTy, addr_back lib a, 1)"
    using pay_pkh_extract [OF assms(3), of lib] s(1) k by (auto simp: addr_back_def)
  from extract_stake [OF s(3) _ refl this] t st
  have "ExtractPkScriptAddrs lib 0 (tag # s) = Inr (tag_class tag, addr_back lib a, 1)" by simp
  moreover have "GetStakeOutSubclass (tag # s) = Inr PubKeyHashTy"
    using s(3) t st assms(1) pkh_pops [OF assms(3)] dataPop_20 [OF assms(3)] not_tags by (simp add: GetStakeOutSubclass_def)
  ultimately show ?thesis using s t st k
    by (auto simp: getScriptClass_parse IsStakeOutput_def addr_class_def)
next
  assume k: "addr_kind a = AddressScriptHash"
  obtain s where s: "payToScriptHashScript (addr_ScriptAddress a) = Inr s" "payToStake tag (Some a) = Inr (tag # s)"
    "parseOk (tag # s) = Inr [opPop tag, opPop 0xa9, dataPop (addr_ScriptAddress a), opPop 0x87]"
    using tagged_sh [OF assms(1) assms(3)] k by auto
  note t = tagged_sh_pops [OF assms(1,3)] and st = tag_props(2) [OF assms(1)]
  have "ExtractPkScriptAddrs lib 0 s = Inr (ScriptHashTy, addr_back lib a, 1)"
    using pay_sh_extract [OF assms(3), of lib] s(1) k by (auto simp: addr_back_def)
  from extract_stake [OF s(3) _ refl this] t st
  have "ExtractPkScriptAddrs lib 0 (tag # s) = Inr (tag_class tag, addr_back lib a, 1)" by simp
  moreover have "GetStakeOutSubclass (tag # s) = Inr ScriptHashTy"
    using s(3) t st assms(1) sh_pops [OF assms(3)] dataPop_20 [OF assms(3)] not_tags by (simp add: GetStakeOutSubclass_def)
  ultimately show ?thesis using s t st k
    by (auto simp: getScriptClass_parse IsStakeOutput_def addr_class_def)
qed

text \<open>
  The builders tag the output of an alternative key with \<^verbatim>\<open>OP_SSGEN\<close> whatever stake output they are
  asked for, and end the script in \<^verbatim>\<open>OP_CHECKSIG\<close> after a type byte: no class matches the script.
\<close>

definition stakeHashAddr :: "address \<Rightarrow> bool" where
  "stakeHashAddr a = (addr_kind a = AddressPubKeyHash \<and> addr_DSA a = ECTypeSecp256k1 \<or> addr_kind a = AddressScriptHash)"

definition stakeKeyAddr :: "address \<Rightarrow> bool" where
  "stakeKeyAddr a = (addr_kind a = AddressBlissPubKey \<and> addr_DSA a = bliss \<or> addr_kind a = AddressLmsPubKey \<and> addr_DSA a = lm)"

lemma stake_alt_script:
  assumes "stakeKeyAddr a" "valid_addr a"
  shows "\<exists>s. payToStake tag (Some a) = Inr s \<and> hd s = OP_SSGEN \<and> GetScriptClass 0 s = NonStandardTy \<and>
    ExtractPkScriptAddrs lib 0 s = Inr (NonStandardTy, [], 0)"
proof -
  let ?h = "addr_ScriptAddress a" and ?n = "addr_DSA a"
  let ?items = "[Op 0xbb, Op 0x76, Op 0xa9, Data ?h, Op 0x88, Data [word_of_int ?n], Op 0xac]"
  have n: "?n = 4 \<or> ?n = 5" and h: "2 \<le> length ?h" "length ?h \<le> 8192"
    using assms by (auto simp: stakeKeyAddr_def valid_addr_def Let_def)
  have op: "dataPop [word_of_int ?n] = opPop (word_of_int (80 + ?n))"
    "op_length (opcodeArray (word_of_int (80 + ?n))) = 1" "\<not> word_of_int (80 + ?n) \<le> (16 :: byte)"
    using n dataPop_suite [of ?n] suite_op(3) [of ?n] by auto
  have sz: "canonicalDataSize [word_of_int ?n] = 1" using n by (auto simp: canonicalDataSize_def)
  let ?s = "script_bytes (map item_pop ?items)"
  have s: "?s = [0xbb, 0x76, 0xa9] @ dataPush ?h @ [0x88, word_of_int (80 + ?n), 0xac]"
    using h(2) op by (simp add: dataPop_ok opPop_ok)
  have B: "builder_Script (build ?items NewScriptBuilder) = Inr ?s \<and> parseOk ?s = Inr (map item_pop ?items)"
  proof (rule built_parse)
    show "\<not> (1 \<le> ?s ! 24 \<and> ?s ! 24 \<le> 16)" if "length ?s = 26"
    proof -
      have "length (dataPush ?h) = 20" using that unfolding s by simp
      then show ?thesis unfolding s using op(3) by (simp add: nth_append)
    qed
  qed (use h sz canonicalDataSize_le [of ?h] in auto)
  have "payToStake tag (Some a) = builder_Script (build ?items NewScriptBuilder)"
    using assms(1) by (auto simp: payToStake_def stakeAddrType_def stakeKeyAddr_def)
  moreover have c: "typeOfScript (map item_pop ?items) = NonStandardTy"
    by (simp add: typeOfScript_def class_defs op(1))
  moreover have "hd ?s = 0xbb" by (simp add: opPop_ok)
  moreover have "ExtractPkScriptAddrs lib 0 ?s = Inr (NonStandardTy, [], 0)"
    using extract_parse [OF conjunct2 [OF B], of lib] c by (simp add: isStakeClass_def)
  ultimately show ?thesis using B by (auto simp: getScriptClass_parse)
qed

lemma stake_unsupported:
  "\<not> stakeHashAddr a \<Longrightarrow> \<not> stakeKeyAddr a \<Longrightarrow> payToStake tag (Some a) = raise ErrUnsupportedAddress"
  by (cases "addr_kind a") (auto simp: stakeHashAddr_def stakeKeyAddr_def payToStake_def stakeAddrType_def)

text \<open>The three outcomes of a builder, by the kind of the address.\<close>

lemma stake_outcomes:
  assumes "isStakeTag tag" "valid_addr a" "rebuilds lib a"
  shows "if stakeHashAddr a
    then \<exists>s. payToStake tag (Some a) = Inr s \<and> GetScriptClass 0 s = tag_class tag \<and> IsStakeOutput s \<and>
      GetStakeOutSubclass s = Inr (addr_class a) \<and> ExtractPkScriptAddrs lib 0 s = Inr (tag_class tag, [a], 1)
    else if stakeKeyAddr a
    then \<exists>s. payToStake tag (Some a) = Inr s \<and> hd s = OP_SSGEN \<and> GetScriptClass 0 s = NonStandardTy \<and>
      ExtractPkScriptAddrs lib 0 s = Inr (NonStandardTy, [], 0)
    else payToStake tag (Some a) = raise ErrUnsupportedAddress"
proof (cases "stakeHashAddr a")
  case True
  then have "length (addr_ScriptAddress a) = 20" using assms(2) by (auto simp: stakeHashAddr_def valid_addr_def Let_def)
  then show ?thesis
    using True stake_output [OF assms(1), of a lib] addr_back_rebuilds [OF assms(3)] by (simp add: stakeHashAddr_def)
next
  case False
  then show ?thesis using stake_alt_script [OF _ assms(2), of tag lib] stake_unsupported [of a tag] by simp
qed

text \<open>
  C34. What the four stake output builders make of an address. A secp256k1 public key hash or a
  script hash of 20 bytes gives a script that is recognised as the stake class of the builder, whose
  subclass is the class of the address, and from which the address is extracted (the constructors
  of the address package rebuilding it). The key of one of the two suites of this chain, BLISS and
  LMS, gives a script that starts with \<^verbatim>\<open>OP_SSGEN\<close> whichever builder was called, is non-standard and
  yields no address. Every other address is refused as unsupported.
\<close>

theorem stake_outputs_extract:
  assumes "valid_addr a" "rebuilds lib a"
    "(pay, cls) \<in> {(PayToSStx, StakeSubmissionTy), (PayToSSGen, StakeGenTy), (PayToSSRtx, StakeRevocationTy), (PayToSStxChange, StakeSubChangeTy)}"
  shows "if stakeHashAddr a
    then \<exists>s. pay (Some a) = Inr s \<and> GetScriptClass 0 s = cls \<and> IsStakeOutput s \<and>
      GetStakeOutSubclass s = Inr (addr_class a) \<and> ExtractPkScriptAddrs lib 0 s = Inr (cls, [a], 1)
    else if stakeKeyAddr a
    then \<exists>s. pay (Some a) = Inr s \<and> hd s = OP_SSGEN \<and> GetScriptClass 0 s = NonStandardTy \<and>
      ExtractPkScriptAddrs lib 0 s = Inr (NonStandardTy, [], 0)
    else pay (Some a) = raise ErrUnsupportedAddress"
proof -
  have tags: "isStakeTag 0xba" "isStakeTag 0xbb" "isStakeTag 0xbc" "isStakeTag 0xbd" by (simp_all add: isStakeTag_def)
  have cls: "tag_class 0xba = StakeSubmissionTy" "tag_class 0xbb = StakeGenTy" "tag_class 0xbc = StakeRevocationTy"
    "tag_class 0xbd = StakeSubChangeTy" by (simp_all add: tag_class_def)
  note out = tags [THEN stake_outcomes [OF _ assms(1,2)], unfolded cls]
  from assms(3) show ?thesis
    unfolding insert_iff empty_iff prod.inject
    by (elim disjE conjE) (use out in \<open>simp_all only: PayToSStx_def PayToSSGen_def PayToSSRtx_def PayToSStxChange_def\<close>)
qed

theorem stake_outputs_extract_witness:
  "\<exists>s. PayToSSRtx (Some \<lparr>addr_kind = AddressScriptHash, addr_DSA = 0, addr_ScriptAddress = replicate 20 7\<rparr>) = Inr s \<and>
     GetScriptClass 0 s = StakeRevocationTy \<and> GetStakeOutSubclass s = Inr ScriptHashTy \<and>
     ExtractPkScriptAddrs sampleLib 0 s =
       Inr (StakeRevocationTy, [\<lparr>addr_kind = AddressScriptHash, addr_DSA = 0, addr_ScriptAddress = replicate 20 7\<rparr>], 1)"
  using stake_outputs_extract [of "\<lparr>addr_kind = AddressScriptHash, addr_DSA = 0, addr_ScriptAddress = replicate 20 7\<rparr>"
      sampleLib PayToSSRtx StakeRevocationTy]
  by (auto simp: addr_class_def valid_addr_def rebuilds_def sampleLib_def stakeHashAddr_def)

section \<open>Where the code and its description part\<close>

text \<open>The output of \<^verbatim>\<open>PayToSStx\<close> for a BLISS key is no ticket submission.\<close>

lemma stake_alt_nonstandard:
  assumes "addr_kind a = AddressBlissPubKey" "addr_DSA a = 4" "2 \<le> length (addr_ScriptAddress a)" "length (addr_ScriptAddress a) \<le> 8192"
  shows "\<exists>s. PayToSStx (Some a) = Inr s \<and> hd s = OP_SSGEN \<and> GetScriptClass 0 s = NonStandardTy"
  using stake_alt_script [of a OP_SSTX] assms by (auto simp: stakeKeyAddr_def valid_addr_def PayToSStx_def)

text \<open>A BLISS public key has 897 bytes, more than the 511 the class of its script admits.\<close>

lemma bliss_pubkey_nonstandard:
  assumes "length k = 897"
  shows "\<exists>s. payToBlissPubKeyScript k = Inr s \<and> GetScriptClass 0 s = NonStandardTy"
  using pay_alt_pk_long [of k 4] assms by (auto simp: payToBlissPubKeyScript_def)

text \<open>A bare \<^verbatim>\<open>OP_RETURN\<close> is a null data script, but it has no second opcode to take the content from.\<close>

lemma nulldata_content_panics: "GetScriptClass 0 [0x6a] = NullDataTy \<and> GetNullDataContent 0 [0x6a] = panic"
proof -
  have p: "parseOk [0x6a] = Inr [opPop 0x6a]" by (simp add: parseOk_def parse_eval opPop_def)
  then have "GetScriptClass 0 [0x6a] = NullDataTy" by (simp add: getScriptClass_parse typeOfScript_def class_defs)
  with p show ?thesis by (simp add: GetNullDataContent_def at_def)
qed

lemma multisig_m_n_panics: "GetMultisigMandN [] = panic"
  by (simp add: GetMultisigMandN_def parseOk_def parse_eval at_def)

lemma redeem_script_panics: "MultisigRedeemScriptFromScriptSig [] = panic"
  by (simp add: MultisigRedeemScriptFromScriptSig_def parseOk_def parse_eval at_def)

lemma script_info_panics:
  assumes "length h = 20" "payToScriptHashScript h = Inr s"
  shows "CalcScriptInfo [] s True = panic"
proof -
  have "parseOk s = Inr [opPop 0xa9, dataPop h, opPop 0x87]" using pay_sh [OF assms(1)] assms(2) by auto
  moreover have "parseOk [] = Inr []" by (simp add: parseOk_def parse_eval)
  ultimately show ?thesis using sh_pops [OF assms(1)]
    by (simp add: CalcScriptInfo_def isPushOnly_def isStakeClass_def expectedInputs_def at_def)
qed

lemma script_class_string_panics: "ScriptClass_String 12 = panic"
  by (simp add: ScriptClass_String_def scriptClassToName_def at_def)

text \<open>A push of 16 bytes passes for a push of one byte.\<close>

lemma one_byte_push_16: "isOneByteMaxDataPush \<lparr>pop_opcode = opcodeArray 16, pop_data = replicate 16 0\<rparr>"
  by (simp add: isOneByteMaxDataPush_def)

end
