(* ===== verification/Wire.thy ===== *)
theory Wire
  imports Prelude
begin

unbundle bit_operations_syntax

text \<open>
  The wire encoding primitives of \<^verbatim>\<open>wire/common.go\<close>: fixed-width little-endian integers, variable
  length integers and variable length byte strings.

  A reader is the list of bytes still to be read; a read returns the value and the rest. Writing to
  a buffer cannot fail and returns the bytes written. The buffers borrowed from and returned to the
  free lists are not part of the model: their contents are overwritten before they are read.

  The locale \<open>codec\<close> is the interface that every pair of a writer and a reader has to meet: what is
  written is read back, and what is read is the only encoding of the value.
\<close>

section \<open>Reading\<close>

datatype wire_error = EOF | ErrUnexpectedEOF | MessageError string

type_synonym 'a reader = "bytes \<Rightarrow> (wire_error, 'a \<times> bytes) result"

text \<open>\<^verbatim>\<open>io.ReadFull\<close> into a buffer of \<open>n\<close> bytes.\<close>

definition readFull :: "nat \<Rightarrow> bytes reader" where
  "readFull n r =
     (if n \<le> length r then Inr (take n r, drop n r)
      else if r = [] then raise EOF else raise ErrUnexpectedEOF)"

definition Uint8 :: "8 word reader" where
  "Uint8 r = bindE (readFull 1 r) (\<lambda>(buf, r). Inr (hd buf, r))"

definition Uint16 :: "16 word reader" where
  "Uint16 r = bindE (readFull 2 r) (\<lambda>(buf, r). Inr (word_of_int (leVal buf), r))"

definition Uint32 :: "32 word reader" where
  "Uint32 r = bindE (readFull 4 r) (\<lambda>(buf, r). Inr (word_of_int (leVal buf), r))"

definition Uint64 :: "64 word reader" where
  "Uint64 r = bindE (readFull 8 r) (\<lambda>(buf, r). Inr (word_of_int (leVal buf), r))"

definition PutUint8 :: "8 word \<Rightarrow> bytes" where
  "PutUint8 val = [val]"

definition PutUint16 :: "16 word \<Rightarrow> bytes" where
  "PutUint16 val = lenBytes 2 (unat val)"

definition PutUint32 :: "32 word \<Rightarrow> bytes" where
  "PutUint32 val = lenBytes 4 (unat val)"

definition PutUint64 :: "64 word \<Rightarrow> bytes" where
  "PutUint64 val = lenBytes 8 (unat val)"

section \<open>Variable length integers and byte strings\<close>

definition ReadVarInt :: "64 word reader" where
  "ReadVarInt r = bindE (Uint8 r) (\<lambda>(discriminant, r).
     if discriminant = 0xff then
       bindE (Uint64 r) (\<lambda>(rv, r).
         if rv < 0x100000000 then raise (MessageError ''ReadVarInt'') else Inr (rv, r))
     else if discriminant = 0xfe then
       bindE (Uint32 r) (\<lambda>(sv, r). let rv = ucast sv in
         if rv < 0x10000 then raise (MessageError ''ReadVarInt'') else Inr (rv, r))
     else if discriminant = 0xfd then
       bindE (Uint16 r) (\<lambda>(sv, r). let rv = ucast sv in
         if rv < 0xfd then raise (MessageError ''ReadVarInt'') else Inr (rv, r))
     else Inr (ucast discriminant, r))"

definition WriteVarInt :: "64 word \<Rightarrow> bytes" where
  "WriteVarInt val =
     (if val < 0xfd then PutUint8 (ucast val)
      else if val \<le> 0xffff then PutUint8 0xfd @ PutUint16 (ucast val)
      else if val \<le> 0xffffffff then PutUint8 0xfe @ PutUint32 (ucast val)
      else PutUint8 0xff @ PutUint64 val)"

definition VarIntSerializeSize :: "64 word \<Rightarrow> nat" where
  "VarIntSerializeSize val =
     (if val < 0xfd then 1 else if val \<le> 0xffff then 3 else if val \<le> 0xffffffff then 5 else 9)"

definition MaxMessagePayload :: nat where
  "MaxMessagePayload = 1024 * 1024 * 32"

definition ReadVarBytes :: "nat \<Rightarrow> bytes reader" where
  "ReadVarBytes maxAllowed r = bindE (ReadVarInt r) (\<lambda>(count, r).
     if unat count > maxAllowed then raise (MessageError ''ReadVarBytes'') else readFull (unat count) r)"

definition WriteVarBytes :: "bytes \<Rightarrow> bytes" where
  "WriteVarBytes bs = WriteVarInt (word_of_nat (length bs)) @ bs"

text \<open>A loop that reads the same kind of element \<open>n\<close> times.\<close>

primrec readMany :: "nat \<Rightarrow> 'a reader \<Rightarrow> 'a list reader" where
  "readMany 0 dec r = Inr ([], r)"
| "readMany (Suc n) dec r = bindE (dec r) (\<lambda>(x, r). bindE (readMany n dec r) (\<lambda>(xs, r). Inr (x # xs, r)))"

section \<open>The interface of an encoding\<close>

locale codec =
  fixes enc :: "'a \<Rightarrow> bytes" and dec :: "'a reader" and ok :: "'a \<Rightarrow> bool"
  assumes dec_enc: "ok x \<Longrightarrow> dec (enc x @ r) = Inr (x, r)"
    and enc_dec: "dec s = Inr (x, r) \<Longrightarrow> ok x \<and> s = enc x @ r"
begin

text \<open>An encoding determines the value and where it ends.\<close>

lemma enc_inject: "ok x \<Longrightarrow> ok y \<Longrightarrow> enc x @ r = enc y @ s \<Longrightarrow> x = y \<and> r = s"
  by (metis dec_enc sum.inject(2) prod.inject)

lemma dec_iff: "dec s = Inr (x, r) \<longleftrightarrow> ok x \<and> s = enc x @ r"
  using dec_enc enc_dec by blast

lemma many_enc: "list_all ok xs \<Longrightarrow> readMany (length xs) dec (concat (map enc xs) @ r) = Inr (xs, r)"
  by (induction xs) (simp_all add: dec_enc append_assoc)

lemma many_dec: "readMany n dec s = Inr (xs, r) \<Longrightarrow> length xs = n \<and> list_all ok xs \<and> s = concat (map enc xs) @ r"
proof (induction n arbitrary: s xs)
  case (Suc n)
  then obtain x t ys where "dec s = Inr (x, t)" "readMany n dec t = Inr (ys, r)" "xs = x # ys"
    by (auto simp: bindE_eq_Inr)
  with Suc.IH [of t ys] enc_dec [of s x t] show ?case by simp
qed simp

end

section \<open>The primitives meet the interface\<close>

lemma readFull_exact [simp]: "length bs = n \<Longrightarrow> readFull n (bs @ r) = Inr (bs, r)"
  by (simp add: readFull_def)

lemma readFull_eq_Inr: "readFull n s = Inr (bs, r) \<longleftrightarrow> length bs = n \<and> s = bs @ r"
  by (auto simp: readFull_def)

lemma leVal_put:
  "LENGTH('a :: len) = 8 * k \<Longrightarrow> (word_of_int (leVal (lenBytes k (unat w))) :: 'a word) = w"
proof -
  assume l: "LENGTH('a) = 8 * k"
  have "unat w < 2 ^ LENGTH('a)" by (rule unsigned_less)
  also have "(2 :: nat) ^ LENGTH('a) = 256 ^ k" by (simp add: l power_mult)
  finally have "int (unat w) < int (256 ^ k)" by (rule of_nat_less_iff [THEN iffD2])
  then have "int (unat w) mod 256 ^ k = int (unat w)" by simp
  then have "leVal (lenBytes k (unat w)) = int (unat w)" by (simp only: leVal_lenBytes)
  then show ?thesis by simp
qed

lemma put_leVal:
  "LENGTH('a :: len) = 8 * length bs \<Longrightarrow> lenBytes (length bs) (unat (word_of_int (leVal bs) :: 'a word)) = bs"
proof -
  assume l: "LENGTH('a) = 8 * length bs"
  have "leVal bs < 2 ^ LENGTH('a)" using leVal_less [of bs] by (simp add: l power_mult)
  then have "uint (word_of_int (leVal bs) :: 'a word) = leVal bs"
    using leVal_nonneg [of bs] by (simp add: unsigned_of_int take_bit_int_eq_self)
  then have "unat (word_of_int (leVal bs) :: 'a word) = nat (leVal bs)" by (simp only: flip: nat_uint_eq)
  then show ?thesis by (simp only: lenBytes_leVal)
qed

interpretation u8: codec PutUint8 Uint8 "\<lambda>_. True"
proof
  show "Uint8 (PutUint8 x @ r) = Inr (x, r)" for x r
    by (simp add: Uint8_def PutUint8_def readFull_def)
  show "True \<and> s = PutUint8 x @ r" if "Uint8 s = Inr (x, r)" for s x r
    using that by (auto simp: Uint8_def PutUint8_def go_simps readFull_eq_Inr length_Suc_conv)
qed

interpretation u16: codec PutUint16 Uint16 "\<lambda>_. True"
proof
  show "Uint16 (PutUint16 x @ r) = Inr (x, r)" for x r
    using leVal_put [of 2 x] by (simp add: Uint16_def PutUint16_def)
  show "True \<and> s = PutUint16 x @ r" if "Uint16 s = Inr (x, r)" for s x r
    using that put_leVal [where 'a = 16] by (auto simp: Uint16_def PutUint16_def go_simps readFull_eq_Inr)
qed

interpretation u32: codec PutUint32 Uint32 "\<lambda>_. True"
proof
  show "Uint32 (PutUint32 x @ r) = Inr (x, r)" for x r
    using leVal_put [of 4 x] by (simp add: Uint32_def PutUint32_def)
  show "True \<and> s = PutUint32 x @ r" if "Uint32 s = Inr (x, r)" for s x r
    using that put_leVal [where 'a = 32] by (auto simp: Uint32_def PutUint32_def go_simps readFull_eq_Inr)
qed

interpretation u64: codec PutUint64 Uint64 "\<lambda>_. True"
proof
  show "Uint64 (PutUint64 x @ r) = Inr (x, r)" for x r
    using leVal_put [of 8 x] by (simp add: Uint64_def PutUint64_def)
  show "True \<and> s = PutUint64 x @ r" if "Uint64 s = Inr (x, r)" for s x r
    using that put_leVal [where 'a = 64] by (auto simp: Uint64_def PutUint64_def go_simps readFull_eq_Inr)
qed

lemmas fixed_dec_enc [simp] = u8.dec_enc [OF TrueI] u16.dec_enc [OF TrueI] u32.dec_enc [OF TrueI] u64.dec_enc [OF TrueI]
lemmas fixed_dec_iff = u8.dec_iff [simplified] u16.dec_iff [simplified] u32.dec_iff [simplified] u64.dec_iff [simplified]

lemma length_put [simp]:
  "length (PutUint8 a) = 1" "length (PutUint16 b) = 2" "length (PutUint32 c) = 4" "length (PutUint64 d) = 8"
  by (simp_all add: PutUint8_def PutUint16_def PutUint32_def PutUint64_def)

lemma unat_ucast_small: "unat (v :: 64 word) < 2 ^ LENGTH('a :: len) \<Longrightarrow> unat (ucast v :: 'a word) = unat v"
  by (simp add: unsigned_ucast_eq take_bit_nat_eq_self)

lemma unat_ucast_up: "LENGTH('a :: len) \<le> 64 \<Longrightarrow> unat (ucast (v :: 'a word) :: 64 word) = unat v"
proof -
  assume "LENGTH('a) \<le> 64"
  then have "(2 :: nat) ^ LENGTH('a) \<le> 2 ^ 64" by (rule power_increasing) simp
  then have "unat v < 2 ^ 64" using unsigned_less [of v, where 'a = nat] by (rule order.strict_trans2 [rotated])
  then show ?thesis by (simp add: unsigned_ucast_eq take_bit_nat_eq_self)
qed

lemma ucast_ucast_small:
  "LENGTH('a :: len) \<le> 64 \<Longrightarrow> unat (v :: 64 word) < 2 ^ LENGTH('a) \<Longrightarrow> ucast (ucast v :: 'a word) = v"
  by (simp only: word_unat_eq_iff unat_ucast_up unat_ucast_small)

lemma ucast_up_down: "LENGTH('a :: len) \<le> 64 \<Longrightarrow> ucast (ucast (v :: 'a word) :: 64 word) = v"
  by (simp only: word_unat_eq_iff unat_ucast_up unat_ucast_small unsigned_less)

interpretation varint: codec WriteVarInt ReadVarInt "\<lambda>_. True"
proof
  show "ReadVarInt (WriteVarInt x @ r) = Inr (x, r)" for x r
  proof -
    consider "unat x < 0xfd" | "\<not> unat x < 0xfd" "unat x \<le> 0xffff" | "\<not> unat x \<le> 0xffff" "unat x \<le> 0xffffffff"
      | "\<not> unat x \<le> 0xffffffff" by linarith
    then show ?thesis
    proof cases
      case 1
      define d :: "8 word" where "d = ucast x"
      have x: "ucast d = x" and d: "unat d < 0xfd" using 1 by (simp_all only: d_def) (simp_all add: ucast_ucast_small unat_ucast_small)
      have "d \<noteq> 0xfd" "d \<noteq> 0xfe" "d \<noteq> 0xff" using d by (auto simp del: unat_eq_zero)
      with 1 x show ?thesis
        by (simp add: ReadVarInt_def WriteVarInt_def word_less_nat_alt flip: d_def)
    next
      case 2
      then show ?thesis
        by (simp add: ReadVarInt_def WriteVarInt_def Let_def word_less_nat_alt word_le_nat_alt ucast_ucast_small)
    next
      case 3
      then show ?thesis
        by (simp add: ReadVarInt_def WriteVarInt_def Let_def word_less_nat_alt word_le_nat_alt ucast_ucast_small)
    next
      case 4
      then show ?thesis
        by (simp add: ReadVarInt_def WriteVarInt_def Let_def word_less_nat_alt word_le_nat_alt)
    qed
  qed
  show "True \<and> s = WriteVarInt x @ r" if R: "ReadVarInt s = Inr (x, r)" for s x r
  proof -
    obtain d t where d: "Uint8 s = Inr (d, t)" using R by (auto simp: ReadVarInt_def go_simps)
    then have s: "s = PutUint8 d @ t" by (simp add: fixed_dec_iff)
    have r: "ReadVarInt (PutUint8 d @ t) = Inr (x, r)" using R s by simp
    consider "d = 0xff" | "d = 0xfe" | "d = 0xfd" | "d \<noteq> 0xff" "d \<noteq> 0xfe" "d \<noteq> 0xfd" by blast
    then have "PutUint8 d @ t = WriteVarInt x @ r"
    proof cases
      case 1
      with r have "t = PutUint64 x @ r" "\<not> x < 0x100000000"
        by (auto simp: ReadVarInt_def go_simps fixed_dec_iff split: if_splits)
      with 1 show ?thesis
        by (simp add: WriteVarInt_def word_less_nat_alt word_le_nat_alt)
    next
      case 2
      with r obtain v where v: "t = PutUint32 v @ r" "x = ucast v" "\<not> x < 0x10000"
        by (auto simp: ReadVarInt_def go_simps fixed_dec_iff Let_def split: if_splits)
      have "unat v < 2 ^ 32" using unsigned_less [of v] by simp
      with v have "unat x = unat v" "\<not> unat x < 0x10000" "unat x \<le> 0xffffffff"
        by (simp_all add: word_less_nat_alt unat_ucast_up)
      moreover have "ucast x = v" using v by (simp add: ucast_up_down)
      ultimately show ?thesis using 2 v by (simp add: WriteVarInt_def word_less_nat_alt word_le_nat_alt)
    next
      case 3
      with r obtain v where v: "t = PutUint16 v @ r" "x = ucast v" "\<not> x < 0xfd"
        by (auto simp: ReadVarInt_def go_simps fixed_dec_iff Let_def split: if_splits)
      have "unat v < 2 ^ 16" using unsigned_less [of v] by simp
      with v have "unat x = unat v" "\<not> unat x < 0xfd" "unat x \<le> 0xffff"
        by (simp_all add: word_less_nat_alt unat_ucast_up)
      moreover have "ucast x = v" using v by (simp add: ucast_up_down)
      ultimately show ?thesis using 3 v by (simp add: WriteVarInt_def word_less_nat_alt word_le_nat_alt)
    next
      case 4
      with r have v: "t = r" "x = ucast d" by (auto simp: ReadVarInt_def go_simps)
      have "unat d < 2 ^ 8" using unsigned_less [of d] by simp
      moreover have "unat d \<noteq> 0xff" "unat d \<noteq> 0xfe" "unat d \<noteq> 0xfd" using 4 by (auto simp: word_unat_eq_iff)
      ultimately have "unat x < 0xfd" using v by (simp add: unat_ucast_up)
      with v show ?thesis by (simp add: WriteVarInt_def word_less_nat_alt ucast_up_down)
    qed
    with s show ?thesis by simp
  qed
qed

lemmas varint_dec_enc [simp] = varint.dec_enc [OF TrueI]

lemma length_WriteVarInt [simp]: "length (WriteVarInt v) = VarIntSerializeSize v"
  by (simp add: WriteVarInt_def VarIntSerializeSize_def)

lemma unat_word_of_nat_64: "n < 2 ^ 64 \<Longrightarrow> unat (word_of_nat n :: 64 word) = n"
  by (simp add: unsigned_of_nat take_bit_nat_eq_self)

text \<open>The readers of byte strings, for every limit that fits a 64 bit integer.\<close>

lemma ReadVarBytes_codec: "m < 2 ^ 64 \<Longrightarrow> codec WriteVarBytes (ReadVarBytes m) (\<lambda>bs. length bs \<le> m)"
proof
  assume m: "m < 2 ^ 64"
  show "ReadVarBytes m (WriteVarBytes x @ r) = Inr (x, r)" if "length x \<le> m" for x r
    using that m by (simp add: ReadVarBytes_def WriteVarBytes_def unat_word_of_nat_64)
  show "length x \<le> m \<and> s = WriteVarBytes x @ r" if "ReadVarBytes m s = Inr (x, r)" for s x r
    using that m
    by (auto simp: ReadVarBytes_def WriteVarBytes_def bindE_eq_Inr varint.dec_iff readFull_eq_Inr split: if_splits)
qed

interpretation varbytes: codec WriteVarBytes "ReadVarBytes MaxMessagePayload" "\<lambda>bs. length bs \<le> MaxMessagePayload"
  by (rule ReadVarBytes_codec) (simp add: MaxMessagePayload_def)

lemma length_WriteVarBytes [simp]:
  "length (WriteVarBytes bs) = VarIntSerializeSize (word_of_nat (length bs)) + length bs"
  by (simp add: WriteVarBytes_def)

text \<open>
  C30. The variable length integer encoding is a bijection onto the encodings the reader accepts:
  reading a value off a byte stream succeeds exactly when the stream starts with the bytes
  \<^verbatim>\<open>WriteVarInt\<close> writes for that value, so every other encoding of the value is rejected; and the
  number of bytes written is the one \<^verbatim>\<open>VarIntSerializeSize\<close> announces.
\<close>

theorem varint_canonical:
  "(ReadVarInt s = Inr (v, r)) = (s = WriteVarInt v @ r) \<and> length (WriteVarInt v) = VarIntSerializeSize v"
  by (simp add: varint.dec_iff)

end
