(* ===== verification/MsgTx.thy ===== *)
theory MsgTx
  imports Wire
begin

unbundle bit_operations_syntax

text \<open>
  Transactions and their wire encoding, \<^verbatim>\<open>wire/msgtx.go\<close>: the five serialization types of a
  transaction (full, prefix only, witness only and the two witness forms used for signing), their
  sizes, the transaction hashes, and the deep copy.

  The hash function \<^verbatim>\<open>chainhash.HashB\<close> wraps a package that is not part of the repository; it is
  the argument \<open>hashB\<close> of the hashes below. Integers keep their width: \<^verbatim>\<open>int64\<close> values are 64 bit
  words read with \<open>sint\<close>.
\<close>

section \<open>Transactions\<close>

record OutPoint =
  opHash :: bytes
  opIndex :: "32 word"
  opTree :: "8 word"

record TxIn =
  PreviousOutPoint :: OutPoint
  Sequence :: "32 word"
  ValueIn :: "64 word"
  BlockHeight :: "32 word"
  BlockIndex :: "32 word"
  SignatureScript :: bytes

record TxOut =
  txoValue :: "64 word"
  txoVersion :: "16 word"
  PkScript :: bytes

record MsgTx =
  CachedHash :: "bytes option"
  SerType :: "16 word"
  txVersion :: "16 word"
  txIn :: "TxIn list"
  txOut :: "TxOut list"
  LockTime :: "32 word"
  Expiry :: "32 word"

abbreviation (input) TxSerializeFull :: "16 word" where "TxSerializeFull \<equiv> 0"
abbreviation (input) TxSerializeNoWitness :: "16 word" where "TxSerializeNoWitness \<equiv> 1"
abbreviation (input) TxSerializeOnlyWitness :: "16 word" where "TxSerializeOnlyWitness \<equiv> 2"
abbreviation (input) TxSerializeWitnessSigning :: "16 word" where "TxSerializeWitnessSigning \<equiv> 3"
abbreviation (input) TxSerializeWitnessValueSigning :: "16 word" where "TxSerializeWitnessValueSigning \<equiv> 4"

text \<open>The zero values of the types, which a decoder starts from.\<close>

definition zeroOutPoint :: OutPoint where
  "zeroOutPoint = \<lparr>opHash = replicate 32 0, opIndex = 0, opTree = 0\<rparr>"

definition zeroTxIn :: TxIn where
  "zeroTxIn = \<lparr>PreviousOutPoint = zeroOutPoint, Sequence = 0, ValueIn = 0, BlockHeight = 0, BlockIndex = 0,
     SignatureScript = []\<rparr>"

definition zeroMsgTx :: MsgTx where
  "zeroMsgTx = \<lparr>CachedHash = None, SerType = 0, txVersion = 0, txIn = [], txOut = [], LockTime = 0, Expiry = 0\<rparr>"

definition NewOutPoint :: "bytes \<Rightarrow> 32 word \<Rightarrow> 8 word \<Rightarrow> OutPoint" where
  "NewOutPoint h i t = \<lparr>opHash = h, opIndex = i, opTree = t\<rparr>"

definition NewTxIn :: "OutPoint \<Rightarrow> bytes \<Rightarrow> TxIn" where
  "NewTxIn prevOut signatureScript = \<lparr>PreviousOutPoint = prevOut, Sequence = 0xffffffff, ValueIn = -1,
     BlockHeight = 0, BlockIndex = 0xffffffff, SignatureScript = signatureScript\<rparr>"

definition NewTxOut :: "64 word \<Rightarrow> bytes \<Rightarrow> TxOut" where
  "NewTxOut v pkScript = \<lparr>txoValue = v, txoVersion = 0, PkScript = pkScript\<rparr>"

definition NewMsgTx :: MsgTx where
  "NewMsgTx = \<lparr>CachedHash = None, SerType = TxSerializeFull, txVersion = 1, txIn = [], txOut = [], LockTime = 0, Expiry = 0\<rparr>"

definition AddTxIn :: "TxIn \<Rightarrow> MsgTx \<Rightarrow> MsgTx" where
  "AddTxIn ti msg = msg\<lparr>txIn := txIn msg @ [ti]\<rparr>"

definition AddTxOut :: "TxOut \<Rightarrow> MsgTx \<Rightarrow> MsgTx" where
  "AddTxOut to msg = msg\<lparr>txOut := txOut msg @ [to]\<rparr>"

definition maxTxInPerMessage :: nat where
  "maxTxInPerMessage = MaxMessagePayload div (11 + 32) + 1"

definition maxTxOutPerMessage :: nat where
  "maxTxOutPerMessage = MaxMessagePayload div 9 + 1"

section \<open>Elements\<close>

definition ReadOutPoint :: "OutPoint reader" where
  "ReadOutPoint r = bindE (readFull 32 r) (\<lambda>(h, r).
     bindE (Uint32 r) (\<lambda>(i, r).
     bindE (Uint8 r) (\<lambda>(t, r). Inr (\<lparr>opHash = h, opIndex = i, opTree = t\<rparr>, r))))"

definition WriteOutPoint :: "OutPoint \<Rightarrow> bytes" where
  "WriteOutPoint op = opHash op @ PutUint32 (opIndex op) @ PutUint8 (opTree op)"

definition readScript :: "nat \<Rightarrow> bytes reader" where
  "readScript maxAllowed r = bindE (ReadVarInt r) (\<lambda>(count, r).
     if unat count > maxAllowed then raise (MessageError ''readScript'') else readFull (unat count) r)"

definition readTxInPrefix :: "16 word \<Rightarrow> TxIn reader" where
  "readTxInPrefix serType r =
     (if serType = TxSerializeOnlyWitness then raise (MessageError ''readTxInPrefix'')
      else bindE (ReadOutPoint r) (\<lambda>(op, r).
           bindE (Uint32 r) (\<lambda>(sq, r). Inr (zeroTxIn\<lparr>PreviousOutPoint := op, Sequence := sq\<rparr>, r))))"

definition readTxInWitness :: "TxIn reader" where
  "readTxInWitness r = bindE (Uint64 r) (\<lambda>(valueIn, r).
     bindE (Uint32 r) (\<lambda>(bh, r).
     bindE (Uint32 r) (\<lambda>(bi, r).
     bindE (readScript MaxMessagePayload r) (\<lambda>(s, r).
       Inr (zeroTxIn\<lparr>ValueIn := valueIn, BlockHeight := bh, BlockIndex := bi, SignatureScript := s\<rparr>, r)))))"

definition readTxInWitnessSigning :: "TxIn reader" where
  "readTxInWitnessSigning r = bindE (readScript MaxMessagePayload r) (\<lambda>(s, r).
     Inr (zeroTxIn\<lparr>SignatureScript := s\<rparr>, r))"

definition readTxInWitnessValueSigning :: "TxIn reader" where
  "readTxInWitnessValueSigning r = bindE (Uint64 r) (\<lambda>(valueIn, r).
     bindE (readScript MaxMessagePayload r) (\<lambda>(s, r).
       Inr (zeroTxIn\<lparr>ValueIn := valueIn, SignatureScript := s\<rparr>, r)))"

definition writeTxInPrefix :: "TxIn \<Rightarrow> bytes" where
  "writeTxInPrefix ti = WriteOutPoint (PreviousOutPoint ti) @ PutUint32 (Sequence ti)"

definition writeTxInWitness :: "TxIn \<Rightarrow> bytes" where
  "writeTxInWitness ti = PutUint64 (ValueIn ti) @ PutUint32 (BlockHeight ti) @ PutUint32 (BlockIndex ti) @
     WriteVarBytes (SignatureScript ti)"

definition writeTxInWitnessSigning :: "TxIn \<Rightarrow> bytes" where
  "writeTxInWitnessSigning ti = WriteVarBytes (SignatureScript ti)"

definition writeTxInWitnessValueSigning :: "TxIn \<Rightarrow> bytes" where
  "writeTxInWitnessValueSigning ti = PutUint64 (ValueIn ti) @ WriteVarBytes (SignatureScript ti)"

definition readTxOut :: "TxOut reader" where
  "readTxOut r = bindE (Uint64 r) (\<lambda>(v, r).
     bindE (Uint16 r) (\<lambda>(ver, r).
     bindE (readScript MaxMessagePayload r) (\<lambda>(s, r).
       Inr (\<lparr>txoValue = v, txoVersion = ver, PkScript = s\<rparr>, r))))"

definition writeTxOut :: "TxOut \<Rightarrow> bytes" where
  "writeTxOut to = PutUint64 (txoValue to) @ PutUint16 (txoVersion to) @ WriteVarBytes (PkScript to)"

section \<open>Decoding\<close>

text \<open>
  The scripts read are copied one after the other into a single buffer, and each script field is
  set to its part of the buffer: \<open>packScripts\<close> is the copying loop, with the buffer, the offset and
  the bounds of the part of each script. Slicing the buffer beyond its end panics.
\<close>

primrec packScripts :: "bytes \<Rightarrow> nat \<Rightarrow> bytes list \<Rightarrow> (wire_error, bytes \<times> (nat \<times> nat) list \<times> nat) result" where
  "packScripts scripts offset [] = Inr (scripts, [], offset)"
| "packScripts scripts offset (s # ss) =
     (let scriptSize = length s; ed = offset + scriptSize
      in if offset > length scripts \<or> ed > length scripts then panic
         else bindE (packScripts (take offset scripts @ s @ drop ed scripts) ed ss) (\<lambda>(scripts', parts, offset').
                Inr (scripts', (offset, ed) # parts, offset')))"

definition sigScriptAt :: "bytes \<Rightarrow> TxIn \<Rightarrow> nat \<times> nat \<Rightarrow> TxIn" where
  "sigScriptAt scripts ti p = ti\<lparr>SignatureScript := take (snd p - fst p) (drop (fst p) scripts)\<rparr>"

definition pkScriptAt :: "bytes \<Rightarrow> TxOut \<Rightarrow> nat \<times> nat \<Rightarrow> TxOut" where
  "pkScriptAt scripts to p = to\<lparr>PkScript := take (snd p - fst p) (drop (fst p) scripts)\<rparr>"

definition writeTxScriptsToMsgTx :: "MsgTx \<Rightarrow> nat \<Rightarrow> 16 word \<Rightarrow> (wire_error, MsgTx) result" where
  "writeTxScriptsToMsgTx msg totalScriptSize serType =
     (let scripts = replicate totalScriptSize 0; ins = map SignatureScript (txIn msg); outs = map PkScript (txOut msg)
      in if serType = TxSerializeNoWitness then
           bindE (packScripts scripts 0 outs) (\<lambda>(scripts, ps, _).
             Inr (msg\<lparr>txOut := map2 (pkScriptAt scripts) (txOut msg) ps\<rparr>))
         else if serType = TxSerializeOnlyWitness \<or> serType = TxSerializeWitnessSigning \<or>
                 serType = TxSerializeWitnessValueSigning then
           bindE (packScripts scripts 0 ins) (\<lambda>(scripts, ps, _).
             Inr (msg\<lparr>txIn := map2 (sigScriptAt scripts) (txIn msg) ps\<rparr>))
         else if serType = TxSerializeFull then
           bindE (packScripts scripts 0 ins) (\<lambda>(scripts, ps, offset).
           bindE (packScripts scripts offset outs) (\<lambda>(scripts, qs, _).
             Inr (msg\<lparr>txIn := map2 (sigScriptAt scripts) (txIn msg) ps,
                       txOut := map2 (pkScriptAt scripts) (txOut msg) qs\<rparr>)))
         else Inr msg)"

definition decodePrefix :: "MsgTx \<Rightarrow> (nat \<times> MsgTx) reader" where
  "decodePrefix msg r = bindE (ReadVarInt r) (\<lambda>(count, r).
     if unat count > maxTxInPerMessage then raise (MessageError ''MsgTx.decodePrefix'')
     else bindE (readMany (unat count) (readTxInPrefix (SerType msg)) r) (\<lambda>(ins, r).
     bindE (ReadVarInt r) (\<lambda>(count, r).
     if unat count > maxTxOutPerMessage then raise (MessageError ''MsgTx.decodePrefix'')
     else bindE (readMany (unat count) readTxOut r) (\<lambda>(outs, r).
     bindE (Uint32 r) (\<lambda>(lt, r).
     bindE (Uint32 r) (\<lambda>(ex, r).
       Inr ((sum_list (map (\<lambda>to. length (PkScript to)) outs),
             msg\<lparr>txIn := ins, txOut := outs, LockTime := lt, Expiry := ex\<rparr>), r)))))))"

text \<open>The loop that fills the witness fields of the inputs of the prefix.\<close>

definition fillWitness :: "TxIn \<Rightarrow> TxIn \<Rightarrow> TxIn" where
  "fillWitness pre wit = pre\<lparr>ValueIn := ValueIn wit, BlockHeight := BlockHeight wit, BlockIndex := BlockIndex wit,
     SignatureScript := SignatureScript wit\<rparr>"

definition decodeIns :: "string \<Rightarrow> TxIn reader \<Rightarrow> MsgTx \<Rightarrow> (nat \<times> MsgTx) reader" where
  "decodeIns name readIn msg r = bindE (ReadVarInt r) (\<lambda>(count, r).
     if unat count > maxTxInPerMessage then raise (MessageError name)
     else bindE (readMany (unat count) readIn r) (\<lambda>(ins, r).
       Inr ((sum_list (map (\<lambda>ti. length (SignatureScript ti)) ins), msg\<lparr>txIn := ins, txOut := []\<rparr>), r)))"

definition decodeWitness :: "bool \<Rightarrow> MsgTx \<Rightarrow> (nat \<times> MsgTx) reader" where
  "decodeWitness isFull msg r =
     (if \<not> isFull then decodeIns ''MsgTx.decodeWitness'' readTxInWitness msg r
      else bindE (ReadVarInt r) (\<lambda>(count, r).
        if sint count \<noteq> int (length (txIn msg)) then raise (MessageError ''MsgTx.decodeWitness'')
        else if unat count > maxTxInPerMessage then raise (MessageError ''MsgTx.decodeWitness'')
        else bindE (readMany (unat count) readTxInWitness r) (\<lambda>(ins, r).
          Inr ((sum_list (map (\<lambda>ti. length (SignatureScript ti)) ins),
                msg\<lparr>txIn := map2 fillWitness (txIn msg) ins\<rparr>), r))))"

definition decodeWitnessSigning :: "MsgTx \<Rightarrow> (nat \<times> MsgTx) reader" where
  "decodeWitnessSigning = decodeIns ''MsgTx.decodeWitness'' readTxInWitnessSigning"

definition decodeWitnessValueSigning :: "MsgTx \<Rightarrow> (nat \<times> MsgTx) reader" where
  "decodeWitnessValueSigning = decodeIns ''MsgTx.decodeWitness'' readTxInWitnessValueSigning"

definition finishDecode :: "16 word \<Rightarrow> (nat \<times> MsgTx) \<times> bytes \<Rightarrow> (wire_error, MsgTx \<times> bytes) result" where
  "finishDecode serType res = (case res of ((sz, msg), r) \<Rightarrow>
     bindE (writeTxScriptsToMsgTx msg sz serType) (\<lambda>msg. Inr (msg, r)))"

definition BtcDecode :: "MsgTx \<Rightarrow> MsgTx reader" where
  "BtcDecode msg r = bindE (Uint32 r) (\<lambda>(version, r).
     let msg = msg\<lparr>txVersion := ucast (version AND 0xffff), SerType := ucast (drop_bit 16 version)\<rparr>;
         serType = SerType msg
     in if serType = TxSerializeNoWitness then bindE (decodePrefix msg r) (finishDecode serType)
        else if serType = TxSerializeOnlyWitness then bindE (decodeWitness False msg r) (finishDecode serType)
        else if serType = TxSerializeWitnessSigning then bindE (decodeWitnessSigning msg r) (finishDecode serType)
        else if serType = TxSerializeWitnessValueSigning then bindE (decodeWitnessValueSigning msg r) (finishDecode serType)
        else if serType = TxSerializeFull then
          bindE (decodePrefix msg r) (\<lambda>((totalIns, msg), r).
          bindE (decodeWitness True msg r) (\<lambda>((totalOuts, msg), r).
            finishDecode serType ((totalIns + totalOuts, msg), r)))
        else raise (MessageError ''MsgTx.BtcDecode''))"

definition Deserialize :: "MsgTx \<Rightarrow> MsgTx reader" where
  "Deserialize msg r = BtcDecode msg r"

definition FromBytes :: "MsgTx \<Rightarrow> bytes \<Rightarrow> (wire_error, MsgTx) result" where
  "FromBytes msg b = bindE (Deserialize msg b) (\<lambda>(msg, _). Inr msg)"

section \<open>Encoding\<close>

definition encodePrefix :: "MsgTx \<Rightarrow> bytes" where
  "encodePrefix msg = WriteVarInt (word_of_nat (length (txIn msg))) @ concat (map writeTxInPrefix (txIn msg)) @
     WriteVarInt (word_of_nat (length (txOut msg))) @ concat (map writeTxOut (txOut msg)) @
     PutUint32 (LockTime msg) @ PutUint32 (Expiry msg)"

definition encodeWitness :: "MsgTx \<Rightarrow> bytes" where
  "encodeWitness msg = WriteVarInt (word_of_nat (length (txIn msg))) @ concat (map writeTxInWitness (txIn msg))"

definition encodeWitnessSigning :: "MsgTx \<Rightarrow> bytes" where
  "encodeWitnessSigning msg =
     WriteVarInt (word_of_nat (length (txIn msg))) @ concat (map writeTxInWitnessSigning (txIn msg))"

definition encodeWitnessValueSigning :: "MsgTx \<Rightarrow> bytes" where
  "encodeWitnessValueSigning msg =
     WriteVarInt (word_of_nat (length (txIn msg))) @ concat (map writeTxInWitnessValueSigning (txIn msg))"

definition BtcEncode :: "MsgTx \<Rightarrow> (wire_error, bytes) result" where
  "BtcEncode msg =
     (let serializedVersion = ucast (txVersion msg) OR push_bit 16 (ucast (SerType msg)) :: 32 word;
          hdr = PutUint32 serializedVersion
      in if SerType msg = TxSerializeNoWitness then Inr (hdr @ encodePrefix msg)
         else if SerType msg = TxSerializeOnlyWitness then Inr (hdr @ encodeWitness msg)
         else if SerType msg = TxSerializeWitnessSigning then Inr (hdr @ encodeWitnessSigning msg)
         else if SerType msg = TxSerializeWitnessValueSigning then Inr (hdr @ encodeWitnessValueSigning msg)
         else if SerType msg = TxSerializeFull then Inr (hdr @ encodePrefix msg @ encodeWitness msg)
         else raise (MessageError ''MsgTx.BtcEncode''))"

definition Serialize :: "MsgTx \<Rightarrow> (wire_error, bytes) result" where
  "Serialize msg = BtcEncode msg"

definition MsgTx_Bytes :: "MsgTx \<Rightarrow> (wire_error, bytes) result" where
  "MsgTx_Bytes msg = Serialize msg"

definition serialize :: "MsgTx \<Rightarrow> 16 word \<Rightarrow> (wire_error, bytes) result" where
  "serialize msg serType = Serialize (msg\<lparr>SerType := serType\<rparr>)"

definition BytesPrefix :: "MsgTx \<Rightarrow> (wire_error, bytes) result" where
  "BytesPrefix msg = serialize msg TxSerializeNoWitness"

definition BytesWitness :: "MsgTx \<Rightarrow> (wire_error, bytes) result" where
  "BytesWitness msg = serialize msg TxSerializeOnlyWitness"

text \<open>An error of \<^verbatim>\<open>serialize\<close> is turned into a panic.\<close>

definition mustSerialize :: "MsgTx \<Rightarrow> 16 word \<Rightarrow> (wire_error, bytes) result" where
  "mustSerialize msg serType = (case serialize msg serType of Inl _ \<Rightarrow> panic | Inr b \<Rightarrow> Inr b)"

section \<open>Sizes\<close>

definition SerializeSizePrefix :: "TxIn \<Rightarrow> nat" where
  "SerializeSizePrefix t = 41"

definition SerializeSizeWitness :: "TxIn \<Rightarrow> nat" where
  "SerializeSizeWitness t = 8 + 4 + 4 + VarIntSerializeSize (word_of_nat (length (SignatureScript t))) +
     length (SignatureScript t)"

definition SerializeSizeWitnessSigning :: "TxIn \<Rightarrow> nat" where
  "SerializeSizeWitnessSigning t =
     VarIntSerializeSize (word_of_nat (length (SignatureScript t))) + length (SignatureScript t)"

definition SerializeSizeWitnessValueSigning :: "TxIn \<Rightarrow> nat" where
  "SerializeSizeWitnessValueSigning t =
     8 + VarIntSerializeSize (word_of_nat (length (SignatureScript t))) + length (SignatureScript t)"

definition TxOut_SerializeSize :: "TxOut \<Rightarrow> nat" where
  "TxOut_SerializeSize t = 8 + 2 + VarIntSerializeSize (word_of_nat (length (PkScript t))) + length (PkScript t)"

definition SerializeSize :: "MsgTx \<Rightarrow> nat" where
  "SerializeSize msg =
     (let nIn = VarIntSerializeSize (word_of_nat (length (txIn msg)));
          nOut = VarIntSerializeSize (word_of_nat (length (txOut msg)))
      in if SerType msg = TxSerializeNoWitness then
           12 + nIn + nOut + sum_list (map SerializeSizePrefix (txIn msg)) + sum_list (map TxOut_SerializeSize (txOut msg))
         else if SerType msg = TxSerializeOnlyWitness then 4 + nIn + sum_list (map SerializeSizeWitness (txIn msg))
         else if SerType msg = TxSerializeWitnessSigning then
           4 + nIn + sum_list (map SerializeSizeWitnessSigning (txIn msg))
         else if SerType msg = TxSerializeWitnessValueSigning then
           4 + nIn + sum_list (map SerializeSizeWitnessValueSigning (txIn msg))
         else if SerType msg = TxSerializeFull then
           12 + nIn + nIn + nOut + sum_list (map SerializeSizePrefix (txIn msg)) +
             sum_list (map SerializeSizeWitness (txIn msg)) + sum_list (map TxOut_SerializeSize (txOut msg))
         else 0)"

text \<open>The loop of \<^verbatim>\<open>PkScriptLocs\<close>, with the running offset.\<close>

primrec pkScriptLocsLoop :: "nat \<Rightarrow> TxOut list \<Rightarrow> nat list" where
  "pkScriptLocsLoop n [] = []"
| "pkScriptLocsLoop n (to # tos) =
     (let n = n + 8 + 2 + VarIntSerializeSize (word_of_nat (length (PkScript to)))
      in n # pkScriptLocsLoop (n + length (PkScript to)) tos)"

definition PkScriptLocs :: "MsgTx \<Rightarrow> nat list" where
  "PkScriptLocs msg =
     (if length (txOut msg) = 0 then []
      else pkScriptLocsLoop (4 + VarIntSerializeSize (word_of_nat (length (txIn msg))) +
             VarIntSerializeSize (word_of_nat (length (txOut msg))) +
             sum_list (map SerializeSizePrefix (txIn msg))) (txOut msg))"

section \<open>Hashes and copies\<close>

definition TxHash :: "(bytes \<Rightarrow> bytes) \<Rightarrow> MsgTx \<Rightarrow> (wire_error, bytes) result" where
  "TxHash hashB msg = bindE (mustSerialize msg TxSerializeNoWitness) (\<lambda>b. Inr (hashB b))"

definition CachedTxHash :: "(bytes \<Rightarrow> bytes) \<Rightarrow> MsgTx \<Rightarrow> (wire_error, bytes \<times> MsgTx) result" where
  "CachedTxHash hashB msg = (case CachedHash msg of
     None \<Rightarrow> bindE (TxHash hashB msg) (\<lambda>h. Inr (h, msg\<lparr>CachedHash := Some h\<rparr>))
   | Some h \<Rightarrow> Inr (h, msg))"

definition RecacheTxHash :: "(bytes \<Rightarrow> bytes) \<Rightarrow> MsgTx \<Rightarrow> (wire_error, bytes \<times> MsgTx) result" where
  "RecacheTxHash hashB msg = bindE (TxHash hashB msg) (\<lambda>h. Inr (h, msg\<lparr>CachedHash := Some h\<rparr>))"

definition TxHashWitness :: "(bytes \<Rightarrow> bytes) \<Rightarrow> MsgTx \<Rightarrow> (wire_error, bytes) result" where
  "TxHashWitness hashB msg = bindE (mustSerialize msg TxSerializeOnlyWitness) (\<lambda>b. Inr (hashB b))"

definition TxHashWitnessSigning :: "(bytes \<Rightarrow> bytes) \<Rightarrow> MsgTx \<Rightarrow> (wire_error, bytes) result" where
  "TxHashWitnessSigning hashB msg = bindE (mustSerialize msg TxSerializeWitnessSigning) (\<lambda>b. Inr (hashB b))"

definition TxHashWitnessValueSigning :: "(bytes \<Rightarrow> bytes) \<Rightarrow> MsgTx \<Rightarrow> (wire_error, bytes) result" where
  "TxHashWitnessValueSigning hashB msg = bindE (mustSerialize msg TxSerializeWitnessValueSigning) (\<lambda>b. Inr (hashB b))"

definition TxHashFull :: "(bytes \<Rightarrow> bytes) \<Rightarrow> MsgTx \<Rightarrow> (wire_error, bytes) result" where
  "TxHashFull hashB msg = bindE (TxHash hashB msg) (\<lambda>prefixHash.
     bindE (TxHashWitness hashB msg) (\<lambda>witnessHash. Inr (hashB (prefixHash @ witnessHash))))"

text \<open>The deep copy drops the cached hash only.\<close>

definition copyTxIn :: "TxIn \<Rightarrow> TxIn" where
  "copyTxIn old = \<lparr>PreviousOutPoint = \<lparr>opHash = opHash (PreviousOutPoint old), opIndex = opIndex (PreviousOutPoint old),
       opTree = opTree (PreviousOutPoint old)\<rparr>, Sequence = Sequence old, ValueIn = ValueIn old,
     BlockHeight = BlockHeight old, BlockIndex = BlockIndex old, SignatureScript = SignatureScript old\<rparr>"

definition copyTxOut :: "TxOut \<Rightarrow> TxOut" where
  "copyTxOut old = \<lparr>txoValue = txoValue old, txoVersion = txoVersion old, PkScript = PkScript old\<rparr>"

definition Copy :: "MsgTx \<Rightarrow> MsgTx" where
  "Copy msg = \<lparr>CachedHash = None, SerType = SerType msg, txVersion = txVersion msg, txIn = map copyTxIn (txIn msg),
     txOut = map copyTxOut (txOut msg), LockTime = LockTime msg, Expiry = Expiry msg\<rparr>"

section \<open>The elements meet the codec interface\<close>

interpretation script: codec WriteVarBytes "readScript MaxMessagePayload" "\<lambda>bs. length bs \<le> MaxMessagePayload"
proof
  have m: "MaxMessagePayload < 2 ^ 64" by (simp add: MaxMessagePayload_def)
  show "readScript MaxMessagePayload (WriteVarBytes x @ r) = Inr (x, r)" if "length x \<le> MaxMessagePayload" for x r
    using that m by (simp add: readScript_def WriteVarBytes_def unat_word_of_nat_64)
  show "length x \<le> MaxMessagePayload \<and> s = WriteVarBytes x @ r" if "readScript MaxMessagePayload s = Inr (x, r)" for s x r
    using that m
    by (auto simp: readScript_def WriteVarBytes_def bindE_eq_Inr varint.dec_iff readFull_eq_Inr split: if_splits)
qed

interpretation outpoint: codec WriteOutPoint ReadOutPoint "\<lambda>op. length (opHash op) = 32"
  by unfold_locales (auto simp: ReadOutPoint_def WriteOutPoint_def bindE_eq_Inr fixed_dec_iff readFull_eq_Inr)

lemmas element_dec_iff = fixed_dec_iff script.dec_iff outpoint.dec_iff
lemmas element_dec_enc = script.dec_enc outpoint.dec_enc

text \<open>The inputs a decoder of the given part can return: the other fields are zero.\<close>

definition prefixOnly :: "TxIn \<Rightarrow> bool" where
  "prefixOnly ti \<longleftrightarrow> length (opHash (PreviousOutPoint ti)) = 32 \<and>
     ti = zeroTxIn\<lparr>PreviousOutPoint := PreviousOutPoint ti, Sequence := Sequence ti\<rparr>"

definition witnessOnly :: "TxIn \<Rightarrow> bool" where
  "witnessOnly ti \<longleftrightarrow> length (SignatureScript ti) \<le> MaxMessagePayload \<and>
     ti = zeroTxIn\<lparr>ValueIn := ValueIn ti, BlockHeight := BlockHeight ti, BlockIndex := BlockIndex ti,
            SignatureScript := SignatureScript ti\<rparr>"

definition signingOnly :: "TxIn \<Rightarrow> bool" where
  "signingOnly ti \<longleftrightarrow> length (SignatureScript ti) \<le> MaxMessagePayload \<and>
     ti = zeroTxIn\<lparr>SignatureScript := SignatureScript ti\<rparr>"

definition valueSigningOnly :: "TxIn \<Rightarrow> bool" where
  "valueSigningOnly ti \<longleftrightarrow> length (SignatureScript ti) \<le> MaxMessagePayload \<and>
     ti = zeroTxIn\<lparr>ValueIn := ValueIn ti, SignatureScript := SignatureScript ti\<rparr>"

lemma readTxInPrefix_any: "t \<noteq> 2 \<Longrightarrow> readTxInPrefix t = readTxInPrefix 0"
  by (rule ext) (simp add: readTxInPrefix_def)

interpretation inPrefix: codec writeTxInPrefix "readTxInPrefix 0" prefixOnly
proof
  show "readTxInPrefix 0 (writeTxInPrefix x @ r) = Inr (x, r)" if "prefixOnly x" for x r
  proof -
    have "readTxInPrefix 0 (writeTxInPrefix x @ r) =
        Inr (zeroTxIn\<lparr>PreviousOutPoint := PreviousOutPoint x, Sequence := Sequence x\<rparr>, r)"
      using that by (simp add: readTxInPrefix_def writeTxInPrefix_def element_dec_enc prefixOnly_def)
    then show ?thesis using that by (simp add: prefixOnly_def)
  qed
  show "prefixOnly x \<and> s = writeTxInPrefix x @ r" if "readTxInPrefix 0 s = Inr (x, r)" for s x r
    using that by (auto simp: readTxInPrefix_def writeTxInPrefix_def bindE_eq_Inr element_dec_iff prefixOnly_def)
qed

interpretation inWitness: codec writeTxInWitness readTxInWitness witnessOnly
proof
  show "readTxInWitness (writeTxInWitness x @ r) = Inr (x, r)" if "witnessOnly x" for x r
  proof -
    have "readTxInWitness (writeTxInWitness x @ r) =
        Inr (zeroTxIn\<lparr>ValueIn := ValueIn x, BlockHeight := BlockHeight x, BlockIndex := BlockIndex x,
            SignatureScript := SignatureScript x\<rparr>, r)"
      using that by (simp add: readTxInWitness_def writeTxInWitness_def element_dec_enc witnessOnly_def)
    then show ?thesis using that by (simp add: witnessOnly_def)
  qed
  show "witnessOnly x \<and> s = writeTxInWitness x @ r" if "readTxInWitness s = Inr (x, r)" for s x r
    using that by (auto simp: readTxInWitness_def writeTxInWitness_def bindE_eq_Inr element_dec_iff witnessOnly_def)
qed

interpretation inSigning: codec writeTxInWitnessSigning readTxInWitnessSigning signingOnly
proof
  show "readTxInWitnessSigning (writeTxInWitnessSigning x @ r) = Inr (x, r)" if "signingOnly x" for x r
  proof -
    have "readTxInWitnessSigning (writeTxInWitnessSigning x @ r) =
        Inr (zeroTxIn\<lparr>SignatureScript := SignatureScript x\<rparr>, r)"
      using that by (simp add: readTxInWitnessSigning_def writeTxInWitnessSigning_def element_dec_enc signingOnly_def)
    then show ?thesis using that by (simp add: signingOnly_def)
  qed
  show "signingOnly x \<and> s = writeTxInWitnessSigning x @ r" if "readTxInWitnessSigning s = Inr (x, r)" for s x r
    using that
    by (auto simp: readTxInWitnessSigning_def writeTxInWitnessSigning_def bindE_eq_Inr element_dec_iff signingOnly_def)
qed

interpretation inValueSigning: codec writeTxInWitnessValueSigning readTxInWitnessValueSigning valueSigningOnly
proof
  show "readTxInWitnessValueSigning (writeTxInWitnessValueSigning x @ r) = Inr (x, r)" if "valueSigningOnly x" for x r
  proof -
    have "readTxInWitnessValueSigning (writeTxInWitnessValueSigning x @ r) =
        Inr (zeroTxIn\<lparr>ValueIn := ValueIn x, SignatureScript := SignatureScript x\<rparr>, r)"
      using that
      by (simp add: readTxInWitnessValueSigning_def writeTxInWitnessValueSigning_def element_dec_enc valueSigningOnly_def)
    then show ?thesis using that by (simp add: valueSigningOnly_def)
  qed
  show "valueSigningOnly x \<and> s = writeTxInWitnessValueSigning x @ r"
    if "readTxInWitnessValueSigning s = Inr (x, r)" for s x r
    using that
    by (auto simp: readTxInWitnessValueSigning_def writeTxInWitnessValueSigning_def bindE_eq_Inr element_dec_iff
        valueSigningOnly_def)
qed

interpretation out: codec writeTxOut readTxOut "\<lambda>to. length (PkScript to) \<le> MaxMessagePayload"
  by unfold_locales (auto simp: readTxOut_def writeTxOut_def bindE_eq_Inr element_dec_iff element_dec_enc)

section \<open>Packing the scripts\<close>

primrec partsOf :: "nat \<Rightarrow> bytes list \<Rightarrow> (nat \<times> nat) list" where
  "partsOf offset [] = []"
| "partsOf offset (s # ss) = (offset, offset + length s) # partsOf (offset + length s) ss"

lemma packScripts_eq:
  assumes "offset + length (concat ss) \<le> length buf"
  shows "packScripts buf offset ss =
    Inr (take offset buf @ concat ss @ drop (offset + length (concat ss)) buf, partsOf offset ss, offset + length (concat ss))"
  using assms
proof (induction ss arbitrary: buf offset)
  case (Cons s ss)
  let ?buf = "take offset buf @ s @ drop (offset + length s) buf"
  have "packScripts ?buf (offset + length s) ss =
     Inr (take (offset + length s) ?buf @ concat ss @ drop (offset + length s + length (concat ss)) ?buf,
          partsOf (offset + length s) ss, offset + length s + length (concat ss))"
    using Cons.prems by (intro Cons.IH) simp
  moreover have "take (offset + length s) ?buf = take offset buf @ s" using Cons.prems by simp
  moreover have "drop (offset + length s + length (concat ss)) ?buf = drop (offset + length s + length (concat ss)) buf"
    using Cons.prems by (simp add: ac_simps)
  ultimately show ?case using Cons.prems by (simp add: Let_def add.assoc)
qed simp

lemma sigScriptAt_parts:
  "length pre = offset \<Longrightarrow> buf = pre @ concat (map SignatureScript ins) @ post \<Longrightarrow>
   map2 (sigScriptAt buf) ins (partsOf offset (map SignatureScript ins)) = ins"
proof (induction ins arbitrary: pre offset)
  case (Cons ti ins)
  from Cons.IH [of "pre @ SignatureScript ti" "offset + length (SignatureScript ti)"] Cons.prems
  show ?case by (simp add: sigScriptAt_def)
qed simp

lemma pkScriptAt_parts:
  "length pre = offset \<Longrightarrow> buf = pre @ concat (map PkScript outs) @ post \<Longrightarrow>
   map2 (pkScriptAt buf) outs (partsOf offset (map PkScript outs)) = outs"
proof (induction outs arbitrary: pre offset)
  case (Cons to outs)
  from Cons.IH [of "pre @ PkScript to" "offset + length (PkScript to)"] Cons.prems
  show ?case by (simp add: pkScriptAt_def)
qed simp

text \<open>Packing changes nothing and does not panic when the buffer has the size of the scripts.\<close>

lemma writeTxScripts_id:
  assumes "sz = (if serType = 1 then length (concat (map PkScript (txOut msg)))
     else if serType = 2 \<or> serType = 3 \<or> serType = 4 then length (concat (map SignatureScript (txIn msg)))
     else length (concat (map SignatureScript (txIn msg))) + length (concat (map PkScript (txOut msg))))"
  shows "writeTxScriptsToMsgTx msg sz serType = Inr msg"
proof -
  let ?ins = "concat (map SignatureScript (txIn msg))" and ?outs = "concat (map PkScript (txOut msg))"
  have full: "map2 (sigScriptAt (?ins @ ?outs)) (txIn msg) (partsOf 0 (map SignatureScript (txIn msg))) = txIn msg"
    "map2 (pkScriptAt (?ins @ ?outs)) (txOut msg) (partsOf (length ?ins) (map PkScript (txOut msg))) = txOut msg"
    "map2 (sigScriptAt ?ins) (txIn msg) (partsOf 0 (map SignatureScript (txIn msg))) = txIn msg"
    "map2 (pkScriptAt ?outs) (txOut msg) (partsOf 0 (map PkScript (txOut msg))) = txOut msg"
    using sigScriptAt_parts [of "[]" 0 "?ins @ ?outs" "txIn msg" ?outs] pkScriptAt_parts [of ?ins _ "?ins @ ?outs" "txOut msg" "[]"]
      sigScriptAt_parts [of "[]" 0 ?ins "txIn msg" "[]"] pkScriptAt_parts [of "[]" 0 ?outs "txOut msg" "[]"]
    by simp_all
  then show ?thesis
    by (simp add: assms writeTxScriptsToMsgTx_def Let_def packScripts_eq)
qed

section \<open>The version field\<close>

lemma mask16: "(0xffff :: 32 word) = mask 16"
  by (simp add: mask_eq_exp_minus_1)

lemma version_fields:
  "ucast ((ucast (v :: 16 word) OR push_bit 16 (ucast (t :: 16 word)) :: 32 word) AND 0xffff) = v"
  "ucast (drop_bit 16 (ucast (v :: 16 word) OR push_bit 16 (ucast (t :: 16 word)) :: 32 word)) = t"
  by (rule bit_word_eqI; auto simp: mask16 bit_simps dest: bit_imp_le_length)+

lemma version_join:
  "ucast (ucast ((w :: 32 word) AND 0xffff) :: 16 word) OR push_bit 16 (ucast (ucast (drop_bit 16 w) :: 16 word)) = w"
  by (rule bit_word_eqI) (auto simp: mask16 bit_simps)

section \<open>Decoding what was encoded\<close>

definition wf_tx :: "MsgTx \<Rightarrow> bool" where
  "wf_tx tx \<longleftrightarrow> list_all (\<lambda>ti. length (opHash (PreviousOutPoint ti)) = 32 \<and>
       length (SignatureScript ti) \<le> MaxMessagePayload) (txIn tx) \<and>
     list_all (\<lambda>to. length (PkScript to) \<le> MaxMessagePayload) (txOut tx) \<and>
     length (txIn tx) \<le> maxTxInPerMessage \<and> length (txOut tx) \<le> maxTxOutPerMessage"

definition prefixPart :: "TxIn \<Rightarrow> TxIn" where
  "prefixPart ti = zeroTxIn\<lparr>PreviousOutPoint := PreviousOutPoint ti, Sequence := Sequence ti\<rparr>"

definition witnessPart :: "TxIn \<Rightarrow> TxIn" where
  "witnessPart ti = zeroTxIn\<lparr>ValueIn := ValueIn ti, BlockHeight := BlockHeight ti, BlockIndex := BlockIndex ti,
            SignatureScript := SignatureScript ti\<rparr>"

definition signingPart :: "TxIn \<Rightarrow> TxIn" where
  "signingPart ti = zeroTxIn\<lparr>SignatureScript := SignatureScript ti\<rparr>"

definition valueSigningPart :: "TxIn \<Rightarrow> TxIn" where
  "valueSigningPart ti = zeroTxIn\<lparr>ValueIn := ValueIn ti, SignatureScript := SignatureScript ti\<rparr>"

text \<open>The part of a transaction that its serialization type carries.\<close>

definition carried :: "MsgTx \<Rightarrow> MsgTx" where
  "carried tx =
     (let base = zeroMsgTx\<lparr>SerType := SerType tx, txVersion := txVersion tx\<rparr>
      in if SerType tx = TxSerializeNoWitness then tx\<lparr>CachedHash := None, txIn := map prefixPart (txIn tx)\<rparr>
         else if SerType tx = TxSerializeOnlyWitness then base\<lparr>txIn := map witnessPart (txIn tx)\<rparr>
         else if SerType tx = TxSerializeWitnessSigning then base\<lparr>txIn := map signingPart (txIn tx)\<rparr>
         else if SerType tx = TxSerializeWitnessValueSigning then base\<lparr>txIn := map valueSigningPart (txIn tx)\<rparr>
         else tx\<lparr>CachedHash := None\<rparr>)"

lemmas part_defs = prefixPart_def witnessPart_def signingPart_def valueSigningPart_def

lemma write_parts:
  "writeTxInPrefix (prefixPart ti) = writeTxInPrefix ti" "writeTxInWitness (witnessPart ti) = writeTxInWitness ti"
  "writeTxInWitnessSigning (signingPart ti) = writeTxInWitnessSigning ti"
  "writeTxInWitnessValueSigning (valueSigningPart ti) = writeTxInWitnessValueSigning ti"
  by (simp_all add: part_defs writeTxInPrefix_def writeTxInWitness_def writeTxInWitnessSigning_def
      writeTxInWitnessValueSigning_def)

lemma parts_ok:
  "prefixOnly (prefixPart ti) \<longleftrightarrow> length (opHash (PreviousOutPoint ti)) = 32"
  "witnessOnly (witnessPart ti) \<longleftrightarrow> length (SignatureScript ti) \<le> MaxMessagePayload"
  "signingOnly (signingPart ti) \<longleftrightarrow> length (SignatureScript ti) \<le> MaxMessagePayload"
  "valueSigningOnly (valueSigningPart ti) \<longleftrightarrow> length (SignatureScript ti) \<le> MaxMessagePayload"
  by (simp_all add: part_defs prefixOnly_def witnessOnly_def signingOnly_def valueSigningOnly_def)

lemma fillWitness_parts: "fillWitness (prefixPart ti) (witnessPart ti) = ti"
  by (simp add: part_defs fillWitness_def zeroTxIn_def)

lemma part_scripts:
  "SignatureScript (prefixPart ti) = []" "SignatureScript (witnessPart ti) = SignatureScript ti"
  "SignatureScript (signingPart ti) = SignatureScript ti" "SignatureScript (valueSigningPart ti) = SignatureScript ti"
  by (simp_all add: part_defs zeroTxIn_def)

lemma max_counts: "maxTxInPerMessage < 2 ^ 63" "maxTxOutPerMessage < 2 ^ 63"
  by (simp_all add: maxTxInPerMessage_def maxTxOutPerMessage_def MaxMessagePayload_def)

lemma readMany_parts:
  assumes "codec enc dec ok" "list_all (\<lambda>x. ok (f x)) xs" "\<And>x. enc (f x) = enc x"
  shows "readMany (length xs) dec (concat (map enc xs) @ r) = Inr (map f xs, r)"
  using codec.many_enc [OF assms(1), of "map f xs" r] assms(2,3) by (simp add: list_all_iff comp_def)

lemma count_64: "n \<le> m \<Longrightarrow> m < 2 ^ 63 \<Longrightarrow> unat (word_of_nat n :: 64 word) = n"
  by (rule unat_word_of_nat_64) simp

lemma decodePrefix_enc:
  assumes "wf_tx tx" "SerType msg \<noteq> 2"
  shows "decodePrefix msg (encodePrefix tx @ r) =
     Inr ((length (concat (map PkScript (txOut tx))),
           msg\<lparr>txIn := map prefixPart (txIn tx), txOut := txOut tx, LockTime := LockTime tx, Expiry := Expiry tx\<rparr>), r)"
proof -
  have "readMany (length (txIn tx)) (readTxInPrefix (SerType msg)) (concat (map writeTxInPrefix (txIn tx)) @ r) =
      Inr (map prefixPart (txIn tx), r)" for r
    using assms unfolding readTxInPrefix_any [OF assms(2)]
    by (intro readMany_parts [OF inPrefix.codec_axioms, where f = prefixPart])
       (auto simp: parts_ok write_parts wf_tx_def list_all_iff)
  moreover have "readMany (length (txOut tx)) readTxOut (concat (map writeTxOut (txOut tx)) @ r) = Inr (txOut tx, r)" for r
    using assms by (intro out.many_enc) (simp add: wf_tx_def)
  ultimately show ?thesis using assms
    by (simp add: decodePrefix_def encodePrefix_def wf_tx_def count_64 [OF _ max_counts(1)] count_64 [OF _ max_counts(2)]
        length_concat comp_def)
qed

lemma decodeIns_enc:
  assumes "codec enc dec ok" "list_all (\<lambda>x. ok (f x)) ins" "\<And>x. enc (f x) = enc x"
    "length ins \<le> maxTxInPerMessage" "\<And>x. SignatureScript (f x) = SignatureScript x"
  shows "decodeIns nm dec msg (WriteVarInt (word_of_nat (length ins)) @ concat (map enc ins) @ r) =
     Inr ((length (concat (map SignatureScript ins)), msg\<lparr>txIn := map f ins, txOut := []\<rparr>), r)"
  using readMany_parts [OF assms(1-3), of r] assms(4,5)
  by (simp add: decodeIns_def count_64 [OF _ max_counts(1)] length_concat comp_def)

lemma sint_count:
  assumes "n < 2 ^ 63"
  shows "sint (word_of_nat n :: 64 word) = int n"
  using assms by (simp add: signed_of_nat signed_take_bit_int_eq_self)

lemma decodeWitness_full_enc:
  assumes "wf_tx tx" "txIn msg = map prefixPart (txIn tx)"
  shows "decodeWitness True msg (encodeWitness tx @ r) =
     Inr ((length (concat (map SignatureScript (txIn tx))), msg\<lparr>txIn := txIn tx\<rparr>), r)"
proof -
  have "readMany (length (txIn tx)) readTxInWitness (concat (map writeTxInWitness (txIn tx)) @ r) =
      Inr (map witnessPart (txIn tx), r)"
    using assms by (intro readMany_parts [OF inWitness.codec_axioms, where f = witnessPart])
      (auto simp: parts_ok write_parts wf_tx_def list_all_iff)
  moreover have "map2 fillWitness (map prefixPart xs) (map witnessPart xs) = xs" for xs
    by (induction xs) (simp_all add: fillWitness_parts)
  moreover have "length (txIn tx) \<le> maxTxInPerMessage" using assms by (simp add: wf_tx_def)
  ultimately show ?thesis using assms max_counts
    by (simp add: decodeWitness_def encodeWitness_def count_64 [OF _ max_counts(1)] sint_count length_concat comp_def part_scripts)
qed

lemma serType_cases:
  "BtcEncode tx = Inr b \<Longrightarrow> SerType tx = 0 \<or> SerType tx = 1 \<or> SerType tx = 2 \<or> SerType tx = 3 \<or> SerType tx = 4"
  by (rule ccontr) (simp add: BtcEncode_def)

lemma BtcDecode_header:
  "BtcDecode msg (PutUint32 (ucast (v :: 16 word) OR push_bit 16 (ucast (t :: 16 word))) @ r) =
     (let msg = msg\<lparr>txVersion := v, SerType := t\<rparr>
     in if t = 1 then bindE (decodePrefix msg r) (finishDecode t)
        else if t = 2 then bindE (decodeWitness False msg r) (finishDecode t)
        else if t = 3 then bindE (decodeWitnessSigning msg r) (finishDecode t)
        else if t = 4 then bindE (decodeWitnessValueSigning msg r) (finishDecode t)
        else if t = 0 then
          bindE (decodePrefix msg r) (\<lambda>((totalIns, msg), r).
          bindE (decodeWitness True msg r) (\<lambda>((totalOuts, msg), r).
            finishDecode t ((totalIns + totalOuts, msg), r)))
        else raise (MessageError ''MsgTx.BtcDecode''))"
  by (cases msg) (simp only: BtcDecode_def fixed_dec_enc bindE_Inr prod.case version_fields Let_def MsgTx.select_convs
      MsgTx.update_convs)

lemma packed:
  "finishDecode 1 ((length (concat (map PkScript (txOut msg))), msg), r) = Inr (msg, r)"
  "finishDecode 0 ((length (concat (map PkScript (txOut msg))) + length (concat (map SignatureScript (txIn msg))), msg), r) = Inr (msg, r)"
  "t \<in> {2, 3, 4} \<Longrightarrow> finishDecode t ((length (concat (map SignatureScript (txIn msg))), msg), r) = Inr (msg, r)"
  by (auto simp: finishDecode_def writeTxScripts_id)

lemma BtcDecode_BtcEncode:
  assumes wf: "wf_tx tx" and enc: "BtcEncode tx = Inr b"
  shows "BtcDecode zeroMsgTx (b @ r) = Inr (carried tx, r)"
proof -
  have ins: "list_all (\<lambda>ti. witnessOnly (witnessPart ti)) (txIn tx)" "list_all (\<lambda>ti. signingOnly (signingPart ti)) (txIn tx)"
    "list_all (\<lambda>ti. valueSigningOnly (valueSigningPart ti)) (txIn tx)" "length (txIn tx) \<le> maxTxInPerMessage"
    using wf by (auto simp: wf_tx_def list_all_iff parts_ok)
  note dec = decodeIns_enc [OF inWitness.codec_axioms ins(1) write_parts(2) ins(4) part_scripts(2)]
    decodeIns_enc [OF inSigning.codec_axioms ins(2) write_parts(3) ins(4) part_scripts(3)]
    decodeIns_enc [OF inValueSigning.codec_axioms ins(3) write_parts(4) ins(4) part_scripts(4)]
  define hdr where "hdr = PutUint32 (ucast (txVersion tx) OR push_bit 16 (ucast (SerType tx)))"
  note hd = BtcDecode_header [of _ "txVersion tx" "SerType tx", folded hdr_def]
  consider "SerType tx = 0" | "SerType tx = 1" | "SerType tx = 2" | "SerType tx = 3" | "SerType tx = 4"
    using serType_cases [OF enc] by blast
  then show ?thesis
  proof cases
    case 1
    let ?m = "tx\<lparr>CachedHash := None\<rparr>"
    have b: "b = hdr @ encodePrefix tx @ encodeWitness tx" using enc 1 by (simp add: BtcEncode_def hdr_def)
    have "zeroMsgTx\<lparr>txVersion := txVersion tx, SerType := 0, txOut := txOut tx, LockTime := LockTime tx,
        Expiry := Expiry tx, txIn := txIn tx\<rparr> = ?m" using 1 by (cases tx) (simp add: zeroMsgTx_def)
    then show ?thesis unfolding b append_assoc hd
      using wf 1 packed(2) [of ?m r] by (simp add: decodePrefix_enc decodeWitness_full_enc carried_def)
  next
    case 2
    let ?m = "tx\<lparr>CachedHash := None, txIn := map prefixPart (txIn tx)\<rparr>"
    have b: "b = hdr @ encodePrefix tx" using enc 2 by (simp add: BtcEncode_def hdr_def)
    have "zeroMsgTx\<lparr>txVersion := txVersion tx, SerType := 1, txIn := map prefixPart (txIn tx), txOut := txOut tx,
        LockTime := LockTime tx, Expiry := Expiry tx\<rparr> = ?m" using 2 by (cases tx) (simp add: zeroMsgTx_def)
    then show ?thesis unfolding b append_assoc hd
      using wf 2 packed(1) [of ?m r] by (simp add: decodePrefix_enc carried_def)
  next
    case 3
    let ?m = "zeroMsgTx\<lparr>SerType := 2, txVersion := txVersion tx, txIn := map witnessPart (txIn tx)\<rparr>"
    have b: "b = hdr @ encodeWitness tx" using enc 3 by (simp add: BtcEncode_def hdr_def)
    show ?thesis unfolding b append_assoc hd
      using 3 packed(3) [of 2 ?m r]
      by (simp add: decodeWitness_def encodeWitness_def dec carried_def zeroMsgTx_def comp_def part_scripts)
  next
    case 4
    let ?m = "zeroMsgTx\<lparr>SerType := 3, txVersion := txVersion tx, txIn := map signingPart (txIn tx)\<rparr>"
    have b: "b = hdr @ encodeWitnessSigning tx" using enc 4 by (simp add: BtcEncode_def hdr_def)
    show ?thesis unfolding b append_assoc hd
      using 4 packed(3) [of 3 ?m r]
      by (simp add: decodeWitnessSigning_def encodeWitnessSigning_def dec carried_def zeroMsgTx_def comp_def part_scripts)
  next
    case 5
    let ?m = "zeroMsgTx\<lparr>SerType := 4, txVersion := txVersion tx, txIn := map valueSigningPart (txIn tx)\<rparr>"
    have b: "b = hdr @ encodeWitnessValueSigning tx" using enc 5 by (simp add: BtcEncode_def hdr_def)
    show ?thesis unfolding b append_assoc hd
      using 5 packed(3) [of 4 ?m r]
      by (simp add: decodeWitnessValueSigning_def encodeWitnessValueSigning_def dec carried_def zeroMsgTx_def comp_def part_scripts)
  qed
qed

section \<open>Every encoding a decoder accepts is the canonical one\<close>

lemma varint_count: "ReadVarInt s = Inr (c, r) \<Longrightarrow> s = WriteVarInt (word_of_nat (unat c)) @ r"
  by (simp add: varint.dec_iff)

lemma decodePrefix_dec:
  assumes "decodePrefix msg s = Inr ((n, msg'), r)" "SerType msg \<noteq> 2"
  shows "\<exists>ins outs lt ex. msg' = msg\<lparr>txIn := ins, txOut := outs, LockTime := lt, Expiry := ex\<rparr> \<and>
    list_all prefixOnly ins \<and> list_all (\<lambda>to. length (PkScript to) \<le> MaxMessagePayload) outs \<and>
    length ins \<le> maxTxInPerMessage \<and> length outs \<le> maxTxOutPerMessage \<and>
    n = length (concat (map PkScript outs)) \<and> s = encodePrefix msg' @ r"
proof -
  from assms(1) obtain c1 r1 ins r2 c2 r3 outs r4 lt r5 ex where
    st: "ReadVarInt s = Inr (c1, r1)" "unat c1 \<le> maxTxInPerMessage"
      "readMany (unat c1) (readTxInPrefix (SerType msg)) r1 = Inr (ins, r2)"
      "ReadVarInt r2 = Inr (c2, r3)" "unat c2 \<le> maxTxOutPerMessage"
      "readMany (unat c2) readTxOut r3 = Inr (outs, r4)"
      "Uint32 r4 = Inr (lt, r5)" "Uint32 r5 = Inr (ex, r)"
      "n = sum_list (map (\<lambda>to. length (PkScript to)) outs)"
      "msg' = msg\<lparr>txIn := ins, txOut := outs, LockTime := lt, Expiry := ex\<rparr>"
    by (auto simp: decodePrefix_def bindE_eq_Inr split: if_splits)
  have ins: "length ins = unat c1" "list_all prefixOnly ins" "r1 = concat (map writeTxInPrefix ins) @ r2"
    using inPrefix.many_dec [of "unat c1" r1 ins r2] st(3) by (auto simp: readTxInPrefix_any [OF assms(2)])
  have outs: "length outs = unat c2" "list_all (\<lambda>to. length (PkScript to) \<le> MaxMessagePayload) outs"
      "r3 = concat (map writeTxOut outs) @ r4"
    using out.many_dec [OF st(6)] by auto
  have "s = encodePrefix msg' @ r"
    using varint_count [OF st(1)] varint_count [OF st(4)] st(7,8) ins outs
    by (simp add: st(10) encodePrefix_def fixed_dec_iff)
  then show ?thesis using st(2,5,9,10) ins(1,2) outs(1,2)
    by (intro exI [of _ ins] exI [of _ outs] exI [of _ lt] exI [of _ ex]) (simp add: length_concat comp_def)
qed

lemma decodeIns_dec:
  assumes "codec enc dec ok" "decodeIns nm dec msg s = Inr ((n, msg'), r)"
  shows "\<exists>ins. msg' = msg\<lparr>txIn := ins, txOut := []\<rparr> \<and> list_all ok ins \<and> length ins \<le> maxTxInPerMessage \<and>
    n = length (concat (map SignatureScript ins)) \<and>
    s = WriteVarInt (word_of_nat (length ins)) @ concat (map enc ins) @ r"
proof -
  from assms(2) obtain c r1 ins where
    st: "ReadVarInt s = Inr (c, r1)" "unat c \<le> maxTxInPerMessage" "readMany (unat c) dec r1 = Inr (ins, r)"
      "n = sum_list (map (\<lambda>ti. length (SignatureScript ti)) ins)" "msg' = msg\<lparr>txIn := ins, txOut := []\<rparr>"
    by (auto simp: decodeIns_def bindE_eq_Inr split: if_splits)
  with codec.many_dec [OF assms(1) st(3)] varint_count [OF st(1)] show ?thesis
    by (auto simp: length_concat comp_def)
qed

lemma fillWitness_write:
  "writeTxInPrefix (fillWitness p w) = writeTxInPrefix p" "writeTxInWitness (fillWitness p w) = writeTxInWitness w"
  "SignatureScript (fillWitness p w) = SignatureScript w" "PreviousOutPoint (fillWitness p w) = PreviousOutPoint p"
  by (simp_all add: fillWitness_def writeTxInPrefix_def writeTxInWitness_def)

lemma map_fill:
  assumes "length ps = length ws"
  shows "map writeTxInPrefix (map2 fillWitness ps ws) = map writeTxInPrefix ps"
    "map writeTxInWitness (map2 fillWitness ps ws) = map writeTxInWitness ws"
    "map SignatureScript (map2 fillWitness ps ws) = map SignatureScript ws"
    "map PreviousOutPoint (map2 fillWitness ps ws) = map PreviousOutPoint ps"
  using assms by (induction ps ws rule: list_induct2) (simp_all add: fillWitness_write)

lemma decodeWitness_full_dec:
  assumes "decodeWitness True msg s = Inr ((n, msg'), r)"
  shows "\<exists>ws. msg' = msg\<lparr>txIn := map2 fillWitness (txIn msg) ws\<rparr> \<and> length ws = length (txIn msg) \<and>
    list_all witnessOnly ws \<and> length ws \<le> maxTxInPerMessage \<and> n = length (concat (map SignatureScript ws)) \<and>
    s = encodeWitness msg' @ r"
proof -
  from assms obtain c r1 ws where
    st: "ReadVarInt s = Inr (c, r1)" "sint c = int (length (txIn msg))" "unat c \<le> maxTxInPerMessage"
      "readMany (unat c) readTxInWitness r1 = Inr (ws, r)"
      "n = sum_list (map (\<lambda>ti. length (SignatureScript ti)) ws)"
      "msg' = msg\<lparr>txIn := map2 fillWitness (txIn msg) ws\<rparr>"
    by (auto simp: decodeWitness_def bindE_eq_Inr split: if_splits)
  have ws: "length ws = unat c" "list_all witnessOnly ws" "r1 = concat (map writeTxInWitness ws) @ r"
    using inWitness.many_dec [OF st(4)] by auto
  have c: "word_of_nat (unat c) = c" by simp
  have "sint (word_of_nat (unat c) :: 64 word) = int (unat c)"
    by (rule sint_count) (use st(3) max_counts(1) in linarith)
  then have "int (length (txIn msg)) = int (length ws)" unfolding ws(1) st(2) [symmetric] c .
  then have len: "length (txIn msg) = length ws" by (simp only: of_nat_eq_iff)
  then have "s = encodeWitness msg' @ r"
    using varint_count [OF st(1)] ws by (simp add: st(6) encodeWitness_def map_fill del: map_map)
  then show ?thesis using st ws len by (auto simp: length_concat comp_def)
qed

lemma prefixOnly_part: "prefixOnly ti \<longleftrightarrow> length (opHash (PreviousOutPoint ti)) = 32 \<and> prefixPart ti = ti"
  by (auto simp: prefixOnly_def prefixPart_def)

lemma witnessOnly_part: "witnessOnly ti \<longleftrightarrow> length (SignatureScript ti) \<le> MaxMessagePayload \<and> witnessPart ti = ti"
  by (auto simp: witnessOnly_def witnessPart_def)

lemma signingOnly_part: "signingOnly ti \<longleftrightarrow> length (SignatureScript ti) \<le> MaxMessagePayload \<and> signingPart ti = ti"
  by (auto simp: signingOnly_def signingPart_def)

lemma valueSigningOnly_part:
  "valueSigningOnly ti \<longleftrightarrow> length (SignatureScript ti) \<le> MaxMessagePayload \<and> valueSigningPart ti = ti"
  by (auto simp: valueSigningOnly_def valueSigningPart_def)

lemma part_outpoint:
  "PreviousOutPoint (witnessPart ti) = zeroOutPoint" "PreviousOutPoint (signingPart ti) = zeroOutPoint"
  "PreviousOutPoint (valueSigningPart ti) = zeroOutPoint"
  by (simp_all add: part_defs zeroTxIn_def)

lemma zeroOutPoint_hash: "length (opHash zeroOutPoint) = 32"
  by (simp add: zeroOutPoint_def)

lemma zeroTxIn_fields:
  "prefixPart ti = ti \<Longrightarrow> SignatureScript ti = []"
  "witnessPart ti = ti \<Longrightarrow> length (opHash (PreviousOutPoint ti)) = 32"
  "signingPart ti = ti \<Longrightarrow> length (opHash (PreviousOutPoint ti)) = 32"
  "valueSigningPart ti = ti \<Longrightarrow> length (opHash (PreviousOutPoint ti)) = 32"
  by (metis part_scripts(1), (metis part_outpoint zeroOutPoint_hash)+)

lemmas only_parts = prefixOnly_part witnessOnly_part signingOnly_part valueSigningOnly_part

lemma fill_ok:
  assumes "length ps = length ws" "list_all prefixOnly ps" "list_all witnessOnly ws"
  shows "list_all (\<lambda>ti. length (opHash (PreviousOutPoint ti)) = 32 \<and> length (SignatureScript ti) \<le> MaxMessagePayload)
    (map2 fillWitness ps ws)"
  using assms by (induction ps ws rule: list_induct2) (simp_all add: fillWitness_write only_parts)

lemma map_id_all: "list_all ok xs \<Longrightarrow> (\<And>x. ok x \<Longrightarrow> f x = x) \<Longrightarrow> map f xs = xs"
  by (induction xs) simp_all

text \<open>The three witness forms: the inputs are all that is read.\<close>

lemma witness_form_dec:
  assumes "codec enc dec ok" "decodeIns nm dec (zeroMsgTx\<lparr>txVersion := v, SerType := t\<rparr>) s = Inr ((n, m), r')"
    "finishDecode t ((n, m), r') = Inr (tx, r)" "t \<in> {2, 3, 4}"
    "\<And>x. ok x \<Longrightarrow> length (opHash (PreviousOutPoint x)) = 32 \<and> length (SignatureScript x) \<le> MaxMessagePayload"
  shows "\<exists>ins. tx = zeroMsgTx\<lparr>txVersion := v, SerType := t, txIn := ins\<rparr> \<and> list_all ok ins \<and> wf_tx tx \<and>
    s = WriteVarInt (word_of_nat (length ins)) @ concat (map enc ins) @ r"
proof -
  obtain ins where ins: "m = zeroMsgTx\<lparr>txVersion := v, SerType := t, txIn := ins, txOut := []\<rparr>" "list_all ok ins"
    "length ins \<le> maxTxInPerMessage" "n = length (concat (map SignatureScript ins))"
    "s = WriteVarInt (word_of_nat (length ins)) @ concat (map enc ins) @ r'"
    using decodeIns_dec [OF assms(1,2)] by blast
  have "finishDecode t ((n, m), r') = Inr (m, r')"
    using packed(3) [OF assms(4), of m r'] by (simp add: ins(1,4))
  with assms(3) have "tx = m" "r' = r" by simp_all
  moreover have m: "m = zeroMsgTx\<lparr>txVersion := v, SerType := t, txIn := ins\<rparr>" by (simp add: ins(1) zeroMsgTx_def)
  moreover have "wf_tx m" using ins(2,3) assms(5) by (auto simp: m wf_tx_def zeroMsgTx_def list_all_iff)
  ultimately show ?thesis using ins by blast
qed

lemma BtcEncode_BtcDecode:
  assumes dec: "BtcDecode zeroMsgTx s = Inr (tx, r)"
  shows "\<exists>b. BtcEncode tx = Inr b \<and> s = b @ r \<and> wf_tx tx \<and> carried tx = tx"
proof -
  obtain w s' where w: "s = PutUint32 w @ s'"
    using dec by (auto simp: BtcDecode_def bindE_eq_Inr fixed_dec_iff)
  define v t where "v = (ucast (w AND 0xffff) :: 16 word)" and "t = (ucast (drop_bit 16 w) :: 16 word)"
  have hw: "w = ucast v OR push_bit 16 (ucast t)" unfolding v_def t_def by (rule version_join [symmetric])
  let ?m = "zeroMsgTx\<lparr>txVersion := v, SerType := t\<rparr>"
  define hdr where "hdr = PutUint32 (ucast v OR push_bit 16 (ucast t))"
  note d = dec [unfolded w hw BtcDecode_header]
  have s: "s = hdr @ s'" using w hw by (simp add: hdr_def)
  have "t = 0 \<or> t = 1 \<or> t = 2 \<or> t = 3 \<or> t = 4" by (rule ccontr) (use d in simp)
  then consider "t = 0" | "t = 1" | "t = 2" | "t = 3" | "t = 4" by blast
  then show ?thesis
  proof cases
    case 1
    obtain n m1 r1 n2 m2 r2 where
      p: "decodePrefix ?m s' = Inr ((n, m1), r1)" and q: "decodeWitness True m1 r1 = Inr ((n2, m2), r2)"
      and f: "finishDecode 0 ((n + n2, m2), r2) = Inr (tx, r)"
      using d unfolding 1 by (auto simp: bindE_eq_Inr Let_def)
    obtain ins outs lt ex where m1: "m1 = ?m\<lparr>txIn := ins, txOut := outs, LockTime := lt, Expiry := ex\<rparr>"
      and ok: "list_all prefixOnly ins" "list_all (\<lambda>to. length (PkScript to) \<le> MaxMessagePayload) outs"
        "length outs \<le> maxTxOutPerMessage" "n = length (concat (map PkScript outs))" "s' = encodePrefix m1 @ r1"
      using decodePrefix_dec [OF p] 1 by auto
    obtain ws where m2: "m2 = m1\<lparr>txIn := map2 fillWitness ins ws\<rparr>" and ws: "length ins = length ws" "list_all witnessOnly ws"
        "length ws \<le> maxTxInPerMessage" "n2 = length (concat (map SignatureScript ws))" "r1 = encodeWitness m2 @ r2"
      using decodeWitness_full_dec [OF q] by (auto simp: m1)
    have "finishDecode 0 ((n + n2, m2), r2) = Inr (m2, r2)"
      using packed(2) [of m2 r2] by (simp add: m2 m1 ok(4) ws(1,4) map_fill del: map_map)
    with f have tx: "tx = m2" "r2 = r" by simp_all
    have "encodePrefix m1 = encodePrefix m2" by (simp add: m2 m1 encodePrefix_def map_fill ws(1) del: map_map)
    then have "s = (hdr @ encodePrefix m2 @ encodeWitness m2) @ r" by (simp add: s ok(5) ws(5) tx(2))
    moreover have "BtcEncode m2 = Inr (hdr @ encodePrefix m2 @ encodeWitness m2)"
      using 1 by (simp add: BtcEncode_def hdr_def m2 m1)
    moreover have "wf_tx m2" using fill_ok [OF ws(1) ok(1) ws(2)] ok(2,3) ws(1,3) by (simp add: wf_tx_def m2 m1)
    moreover have "carried m2 = m2" using 1 by (simp add: carried_def m2 m1 zeroMsgTx_def)
    ultimately show ?thesis unfolding tx by blast
  next
    case 2
    obtain n m1 r1 where p: "decodePrefix ?m s' = Inr ((n, m1), r1)" and f: "finishDecode 1 ((n, m1), r1) = Inr (tx, r)"
      using d unfolding 2 by (auto simp: bindE_eq_Inr Let_def)
    obtain ins outs lt ex where m1: "m1 = ?m\<lparr>txIn := ins, txOut := outs, LockTime := lt, Expiry := ex\<rparr>"
      and ok: "list_all prefixOnly ins" "list_all (\<lambda>to. length (PkScript to) \<le> MaxMessagePayload) outs"
        "length outs \<le> maxTxOutPerMessage" "length ins \<le> maxTxInPerMessage"
        "n = length (concat (map PkScript outs))" "s' = encodePrefix m1 @ r1"
      using decodePrefix_dec [OF p] 2 by auto
    have "finishDecode 1 ((n, m1), r1) = Inr (m1, r1)" using packed(1) [of m1 r1] by (simp add: m1 ok(5))
    with f have tx: "tx = m1" "r1 = r" by simp_all
    have "BtcEncode m1 = Inr (hdr @ encodePrefix m1)" using 2 by (simp add: BtcEncode_def hdr_def m1)
    moreover have "wf_tx m1" using ok by (auto simp: wf_tx_def m1 list_all_iff only_parts zeroTxIn_fields(1))
    moreover have "map prefixPart ins = ins" using ok(1) by (rule map_id_all) (simp add: only_parts)
    then have "carried m1 = m1" using 2 by (simp add: carried_def m1 zeroMsgTx_def)
    ultimately show ?thesis unfolding tx s ok(6) by auto
  next
    case 3
    obtain n m1 r1 where p: "decodeIns ''MsgTx.decodeWitness'' readTxInWitness ?m s' = Inr ((n, m1), r1)"
      and f: "finishDecode t ((n, m1), r1) = Inr (tx, r)"
      using d unfolding 3 by (auto simp: bindE_eq_Inr Let_def decodeWitness_def)
    obtain ins where tx: "tx = zeroMsgTx\<lparr>txVersion := v, SerType := t, txIn := ins\<rparr>" "list_all witnessOnly ins" "wf_tx tx"
      "s' = WriteVarInt (word_of_nat (length ins)) @ concat (map writeTxInWitness ins) @ r"
      using witness_form_dec [OF inWitness.codec_axioms p f] 3 by (auto simp: only_parts dest: zeroTxIn_fields)
    have "map witnessPart ins = ins" using tx(2) by (rule map_id_all) (simp add: only_parts)
    then have "carried tx = tx" using 3 by (simp add: carried_def tx zeroMsgTx_def)
    moreover have "BtcEncode tx = Inr (hdr @ encodeWitness tx)" using 3 by (simp add: BtcEncode_def hdr_def tx)
    ultimately show ?thesis using tx by (auto simp: s encodeWitness_def)
  next
    case 4
    obtain n m1 r1 where p: "decodeIns ''MsgTx.decodeWitness'' readTxInWitnessSigning ?m s' = Inr ((n, m1), r1)"
      and f: "finishDecode t ((n, m1), r1) = Inr (tx, r)"
      using d unfolding 4 by (auto simp: bindE_eq_Inr Let_def decodeWitnessSigning_def)
    obtain ins where tx: "tx = zeroMsgTx\<lparr>txVersion := v, SerType := t, txIn := ins\<rparr>" "list_all signingOnly ins" "wf_tx tx"
      "s' = WriteVarInt (word_of_nat (length ins)) @ concat (map writeTxInWitnessSigning ins) @ r"
      using witness_form_dec [OF inSigning.codec_axioms p f] 4 by (auto simp: only_parts dest: zeroTxIn_fields)
    have "map signingPart ins = ins" using tx(2) by (rule map_id_all) (simp add: only_parts)
    then have "carried tx = tx" using 4 by (simp add: carried_def tx zeroMsgTx_def)
    moreover have "BtcEncode tx = Inr (hdr @ encodeWitnessSigning tx)" using 4 by (simp add: BtcEncode_def hdr_def tx)
    ultimately show ?thesis using tx by (auto simp: s encodeWitnessSigning_def)
  next
    case 5
    obtain n m1 r1 where p: "decodeIns ''MsgTx.decodeWitness'' readTxInWitnessValueSigning ?m s' = Inr ((n, m1), r1)"
      and f: "finishDecode t ((n, m1), r1) = Inr (tx, r)"
      using d unfolding 5 by (auto simp: bindE_eq_Inr Let_def decodeWitnessValueSigning_def)
    obtain ins where tx: "tx = zeroMsgTx\<lparr>txVersion := v, SerType := t, txIn := ins\<rparr>" "list_all valueSigningOnly ins" "wf_tx tx"
      "s' = WriteVarInt (word_of_nat (length ins)) @ concat (map writeTxInWitnessValueSigning ins) @ r"
      using witness_form_dec [OF inValueSigning.codec_axioms p f] 5 by (auto simp: only_parts dest: zeroTxIn_fields)
    have "map valueSigningPart ins = ins" using tx(2) by (rule map_id_all) (simp add: only_parts)
    then have "carried tx = tx" using 5 by (simp add: carried_def tx zeroMsgTx_def)
    moreover have "BtcEncode tx = Inr (hdr @ encodeWitnessValueSigning tx)" using 5 by (simp add: BtcEncode_def hdr_def tx)
    ultimately show ?thesis using tx by (auto simp: s encodeWitnessValueSigning_def)
  qed
qed

section \<open>Sizes and script locations\<close>

definition hashes_ok :: "MsgTx \<Rightarrow> bool" where
  "hashes_ok tx \<longleftrightarrow> list_all (\<lambda>ti. length (opHash (PreviousOutPoint ti)) = 32) (txIn tx)"

lemma length_writeTxInPrefix:
  "length (opHash (PreviousOutPoint ti)) = 32 \<Longrightarrow> length (writeTxInPrefix ti) = SerializeSizePrefix ti"
  by (simp add: writeTxInPrefix_def WriteOutPoint_def SerializeSizePrefix_def)

lemma length_writers:
  "length (writeTxInWitness ti) = SerializeSizeWitness ti"
  "length (writeTxInWitnessSigning ti) = SerializeSizeWitnessSigning ti"
  "length (writeTxInWitnessValueSigning ti) = SerializeSizeWitnessValueSigning ti"
  "length (writeTxOut to) = TxOut_SerializeSize to"
  by (simp_all add: writeTxInWitness_def writeTxInWitnessSigning_def writeTxInWitnessValueSigning_def writeTxOut_def
      SerializeSizeWitness_def SerializeSizeWitnessSigning_def SerializeSizeWitnessValueSigning_def TxOut_SerializeSize_def)

lemma length_concat_eq: "list_all (\<lambda>x. length (f x) = g x) xs \<Longrightarrow> length (concat (map f xs)) = sum_list (map g xs)"
  by (induction xs) simp_all

lemma length_prefixes:
  "hashes_ok tx \<Longrightarrow> length (concat (map writeTxInPrefix (txIn tx))) = sum_list (map SerializeSizePrefix (txIn tx))"
  by (rule length_concat_eq) (auto simp: hashes_ok_def list_all_iff length_writeTxInPrefix)

lemma length_all_writers:
  "length (concat (map writeTxInWitness ins)) = sum_list (map SerializeSizeWitness ins)"
  "length (concat (map writeTxInWitnessSigning ins)) = sum_list (map SerializeSizeWitnessSigning ins)"
  "length (concat (map writeTxInWitnessValueSigning ins)) = sum_list (map SerializeSizeWitnessValueSigning ins)"
  "length (concat (map writeTxOut outs)) = sum_list (map TxOut_SerializeSize outs)"
  by (rule length_concat_eq; simp add: length_writers list_all_iff)+

lemmas encode_defs = encodePrefix_def encodeWitness_def encodeWitnessSigning_def encodeWitnessValueSigning_def

text \<open>Where the scripts lie in the bytes of the outputs.\<close>

lemma pkScriptLocsLoop_at:
  assumes "length pre = n" "i < length outs"
  shows "take (length (PkScript (outs ! i))) (drop (pkScriptLocsLoop n outs ! i) (pre @ concat (map writeTxOut outs) @ post)) =
    PkScript (outs ! i)"
  using assms
proof (induction outs arbitrary: i n pre)
  case (Cons to outs)
  let ?hd = "PutUint64 (txoValue to) @ PutUint16 (txoVersion to) @ WriteVarInt (word_of_nat (length (PkScript to)))"
  have w: "writeTxOut to = ?hd @ PkScript to" by (simp add: writeTxOut_def WriteVarBytes_def)
  have l: "length ?hd = 8 + 2 + VarIntSerializeSize (word_of_nat (length (PkScript to)))" by simp
  show ?case
  proof (cases i)
    case 0
    have "drop (pkScriptLocsLoop n (to # outs) ! i) (pre @ concat (map writeTxOut (to # outs)) @ post) =
        PkScript to @ concat (map writeTxOut outs) @ post"
      using Cons.prems(1) l by (simp add: 0 Let_def w)
    then show ?thesis by (simp add: 0)
  next
    case (Suc j)
    have "length (pre @ writeTxOut to) = n + 8 + 2 + VarIntSerializeSize (word_of_nat (length (PkScript to))) + length (PkScript to)"
      using Cons.prems(1) by (simp add: length_writers TxOut_SerializeSize_def)
    from Cons.IH [OF this, of j] Cons.prems(2) show ?thesis by (simp add: Suc Let_def add.assoc)
  qed
qed simp

section \<open>Properties\<close>

text \<open>
  C8. Encoding a transaction and decoding the bytes, with anything after them, gives the part of
  the transaction its serialization type carries, the whole of it (but for the cached hash) for
  the full type, and leaves the reader right after the transaction. The single buffer the scripts
  are packed into never overflows.
\<close>

theorem tx_decode_encode:
  assumes "wf_tx tx" "BtcEncode tx = Inr b"
  shows "BtcDecode zeroMsgTx (b @ r) = Inr (carried tx, r)"
  using assms by (rule BtcDecode_BtcEncode)

theorem tx_decode_encode_witness:
  "\<exists>b. BtcEncode (AddTxOut (NewTxOut 5 [1, 2]) NewMsgTx) = Inr b \<and>
     BtcDecode zeroMsgTx (b @ [7]) = Inr (AddTxOut (NewTxOut 5 [1, 2]) NewMsgTx, [7])"
proof -
  let ?tx = "AddTxOut (NewTxOut 5 [1, 2]) NewMsgTx"
  have wf: "wf_tx ?tx"
    by (simp add: wf_tx_def AddTxOut_def NewMsgTx_def NewTxOut_def MaxMessagePayload_def maxTxInPerMessage_def maxTxOutPerMessage_def)
  have c: "carried ?tx = ?tx" by (simp add: carried_def AddTxOut_def NewMsgTx_def)
  obtain b where b: "BtcEncode ?tx = Inr b" by (simp add: BtcEncode_def AddTxOut_def NewMsgTx_def)
  show ?thesis using tx_decode_encode [OF wf b, of "[7]"] b c by simp
qed

text \<open>
  C31. A byte string that decodes to a transaction starts with the encoding of that transaction, and
  the transaction is well formed: no two byte strings decode to the same transaction, so a
  transaction cannot be re-encoded into different bytes that nodes would accept.
\<close>

theorem tx_encode_decode:
  assumes "BtcDecode zeroMsgTx s = Inr (tx, r)"
  shows "\<exists>b. BtcEncode tx = Inr b \<and> s = b @ r \<and> wf_tx tx \<and> carried tx = tx"
  using assms by (rule BtcEncode_BtcDecode)

theorem tx_encode_decode_witness:
  "\<exists>b. BtcEncode zeroMsgTx = Inr b \<and> [0, 0, 0, 0, 0, 0, 0, 0, 0, 0, 0, 0, 0, 0, 0, 9] = b @ [9]"
proof -
  have "BtcDecode zeroMsgTx [0, 0, 0, 0, 0, 0, 0, 0, 0, 0, 0, 0, 0, 0, 0, 9] = Inr (zeroMsgTx, [9])"
    by (simp add: BtcDecode_def Uint32_def Uint8_def readFull_def decodePrefix_def ReadVarInt_def decodeWitness_def
        finishDecode_def writeTxScriptsToMsgTx_def zeroMsgTx_def maxTxInPerMessage_def maxTxOutPerMessage_def)
  from tx_encode_decode [OF this] show ?thesis by auto
qed

lemma length_BtcEncode:
  assumes "hashes_ok tx" "BtcEncode tx = Inr b"
  shows "length b = SerializeSize tx"
  using serType_cases [OF assms(2)] assms
  by (auto simp: BtcEncode_def SerializeSize_def encode_defs length_prefixes length_all_writers simp del: length_concat)

text \<open>
  \<^verbatim>\<open>SerializeSize\<close> is exactly the number of bytes the encoder writes, for every serialization
  type that can be encoded.
\<close>

theorem tx_serialize_size:
  assumes "hashes_ok tx" "BtcEncode tx = Inr b"
  shows "length b = SerializeSize tx"
  using assms by (rule length_BtcEncode)

theorem tx_serialize_size_witness:
  "\<exists>b. BtcEncode (AddTxOut (NewTxOut 5 [1, 2]) NewMsgTx) = Inr b \<and> length b = 28"
proof -
  let ?tx = "AddTxOut (NewTxOut 5 [1, 2]) NewMsgTx"
  obtain b where b: "BtcEncode ?tx = Inr b" by (simp add: BtcEncode_def AddTxOut_def NewMsgTx_def)
  have "hashes_ok ?tx" by (simp add: hashes_ok_def AddTxOut_def NewMsgTx_def)
  from tx_serialize_size [OF this b] b show ?thesis
    by (simp add: SerializeSize_def AddTxOut_def NewMsgTx_def NewTxOut_def VarIntSerializeSize_def TxOut_SerializeSize_def)
qed

text \<open>
  C32. The locations \<^verbatim>\<open>PkScriptLocs\<close> returns are where the public key scripts are in the serialized
  transaction, for the full and the prefix serialization: the bytes from there on are the script.
\<close>

theorem pkScriptLocs_correct:
  assumes "hashes_ok tx" "BtcEncode tx = Inr b" "SerType tx = 0 \<or> SerType tx = 1" "i < length (txOut tx)"
  shows "length (PkScriptLocs tx) = length (txOut tx) \<and>
    take (length (PkScript (txOut tx ! i))) (drop (PkScriptLocs tx ! i) b) = PkScript (txOut tx ! i)"
proof -
  define pre where "pre = PutUint32 (ucast (txVersion tx) OR push_bit 16 (ucast (SerType tx))) @
     WriteVarInt (word_of_nat (length (txIn tx))) @ concat (map writeTxInPrefix (txIn tx)) @
     WriteVarInt (word_of_nat (length (txOut tx)))"
  obtain post where b: "b = pre @ concat (map writeTxOut (txOut tx)) @ post"
    using assms(2,3) by (auto simp: BtcEncode_def encodePrefix_def pre_def)
  have "length pre = 4 + VarIntSerializeSize (word_of_nat (length (txIn tx))) +
      VarIntSerializeSize (word_of_nat (length (txOut tx))) + sum_list (map SerializeSizePrefix (txIn tx))"
    using length_prefixes [OF assms(1)] by (simp add: pre_def del: length_concat)
  from pkScriptLocsLoop_at [OF this assms(4), of post]
  have "take (length (PkScript (txOut tx ! i))) (drop (PkScriptLocs tx ! i) b) = PkScript (txOut tx ! i)"
    using assms(4) unfolding b by (auto simp: PkScriptLocs_def)
  moreover have "length (pkScriptLocsLoop n outs) = length outs" for n outs
    by (induction outs arbitrary: n) (simp_all add: Let_def)
  ultimately show ?thesis by (simp add: PkScriptLocs_def)
qed

theorem pkScriptLocs_correct_witness:
  "\<exists>b. BtcEncode (AddTxOut (NewTxOut 5 [1, 2]) NewMsgTx) = Inr b \<and>
     PkScriptLocs (AddTxOut (NewTxOut 5 [1, 2]) NewMsgTx) = [17] \<and> take 2 (drop 17 b) = [1, 2]"
proof -
  let ?tx = "AddTxOut (NewTxOut 5 [1, 2]) NewMsgTx"
  obtain b where b: "BtcEncode ?tx = Inr b" by (simp add: BtcEncode_def AddTxOut_def NewMsgTx_def)
  have h: "hashes_ok ?tx" by (simp add: hashes_ok_def AddTxOut_def NewMsgTx_def)
  have l: "PkScriptLocs ?tx = [17]"
    by (simp add: PkScriptLocs_def AddTxOut_def NewMsgTx_def NewTxOut_def VarIntSerializeSize_def)
  show ?thesis using pkScriptLocs_correct [OF h b, of 0] b l by (simp add: AddTxOut_def NewMsgTx_def NewTxOut_def numeral_2_eq_2)
qed

text \<open>
  C33. The transaction hash is a function of the prefix alone: it is never a panic, and filling in
  other witness data, signature scripts included, or another cached hash does not change it.
\<close>

theorem txHash_not_malleable:
  assumes "length ws = length (txIn tx)"
  shows "\<exists>h. TxHash hashB tx = Inr h \<and>
    TxHash hashB (tx\<lparr>CachedHash := c, SerType := t, txIn := map2 fillWitness (txIn tx) ws\<rparr>) = Inr h"
proof -
  have "TxHash hashB x = Inr (hashB (PutUint32 (ucast (txVersion x) OR push_bit 16 1) @ encodePrefix x))" for x
    by (simp add: TxHash_def mustSerialize_def serialize_def Serialize_def BtcEncode_def encodePrefix_def)
  moreover have "encodePrefix (tx\<lparr>CachedHash := c, SerType := t, txIn := map2 fillWitness (txIn tx) ws\<rparr>) = encodePrefix tx"
    using assms by (simp add: encodePrefix_def map_fill del: map_map)
  ultimately show ?thesis by simp
qed

theorem txHash_not_malleable_witness:
  "\<exists>h. TxHash id (NewMsgTx\<lparr>txIn := [zeroTxIn]\<rparr>) = Inr h \<and>
     TxHash id (NewMsgTx\<lparr>txIn := [zeroTxIn\<lparr>SignatureScript := [1]\<rparr>]\<rparr>) = Inr h"
  using txHash_not_malleable [of "[zeroTxIn\<lparr>SignatureScript := [1]\<rparr>]" "NewMsgTx\<lparr>txIn := [zeroTxIn]\<rparr>" id 0 None]
  by (simp add: fillWitness_def zeroTxIn_def NewMsgTx_def)

end
