(* ===== verification/SigHash.thy ===== *)
theory SigHash
  imports ScriptStandard MsgTx
begin

unbundle bit_operations_syntax

text \<open>
  The signature hash of \<^verbatim>\<open>src/txscript/script.go\<close>: what a signature with a given hash type signs. The
  hash function is the argument \<open>hashB\<close>. Transaction outputs and inputs that the hash type leaves
  open are blanked in a copy of the transaction before it is hashed; the lemmas say what the hash
  still depends on.
\<close>

section \<open>Definitions\<close>

abbreviation (input) SigHashOld :: byte where "SigHashOld \<equiv> 0x0"
abbreviation (input) SigHashAll :: byte where "SigHashAll \<equiv> 0x1"
abbreviation (input) SigHashNone :: byte where "SigHashNone \<equiv> 0x2"
abbreviation (input) SigHashSingle :: byte where "SigHashSingle \<equiv> 0x3"
abbreviation (input) SigHashAllValue :: byte where "SigHashAllValue \<equiv> 0x4"
abbreviation (input) SigHashAnyOneCanPay :: byte where "SigHashAnyOneCanPay \<equiv> 0x80"
abbreviation (input) sigHashMask :: byte where "sigHashMask \<equiv> 0x1f"

text \<open>A loop \<^verbatim>\<open>for i := range xs\<close> that updates the elements.\<close>

definition mapi :: "(nat \<Rightarrow> 'a \<Rightarrow> 'a) \<Rightarrow> 'a list \<Rightarrow> 'a list" where
  "mapi f xs = map2 f [0..<length xs] xs"

text \<open>The hashes panic when the transaction does not serialize.\<close>

definition hashOrPanic :: "(wire_error, bytes) result \<Rightarrow> bytes sres" where
  "hashOrPanic r = (case r of Inl _ \<Rightarrow> panic | Inr h \<Rightarrow> Inr h)"

text \<open>The first loop: the script being satisfied goes into the input that is signed.\<close>

definition blankScripts :: "bytes \<Rightarrow> int \<Rightarrow> TxIn list \<Rightarrow> TxIn list" where
  "blankScripts sigScript idx = mapi (\<lambda>i ti. ti\<lparr>SignatureScript := if int i = idx then sigScript else []\<rparr>)"

definition zeroSequences :: "int \<Rightarrow> TxIn list \<Rightarrow> TxIn list" where
  "zeroSequences idx = mapi (\<lambda>i ti. if int i \<noteq> idx then ti\<lparr>Sequence := 0\<rparr> else ti)"

text \<open>
  The blanked copy that is hashed; \<open>opt\<close> of \<^verbatim>\<open>calcSignatureHash\<close> is \<^verbatim>\<open>chaincfg.SigHashOptimization\<close>.
\<close>

definition sigHashCopy :: "parsedOpcode list \<Rightarrow> byte \<Rightarrow> MsgTx \<Rightarrow> int \<Rightarrow> MsgTx sres" where
  "sigHashCopy script hashType tx idx =
     (let script = removeOpcode script OP_CODESEPARATOR;
          txCopy = Copy tx;
          sigScript = (case unparseScript script of Inr s \<Rightarrow> s | Inl _ \<Rightarrow> []);
          txCopy = txCopy\<lparr>txIn := blankScripts sigScript idx (txIn txCopy)\<rparr>
      in bindE (if hashType AND sigHashMask = SigHashNone
                then Inr (txCopy\<lparr>txOut := [], txIn := zeroSequences idx (txIn txCopy)\<rparr>)
                else if hashType AND sigHashMask = SigHashSingle
                then bindE (slice (txOut txCopy) 0 (idx + 1)) (\<lambda>outs.
                       Inr (txCopy\<lparr>txOut := mapi (\<lambda>i to. if int i < idx then to\<lparr>txoValue := - 1, PkScript := []\<rparr> else to) outs,
                                  txIn := zeroSequences idx (txIn txCopy)\<rparr>))
                else Inr txCopy) (\<lambda>txCopy.
         if hashType AND SigHashAnyOneCanPay \<noteq> 0
         then bindE (slice (txIn txCopy) idx (idx + 1)) (\<lambda>ins. Inr (txCopy\<lparr>txIn := ins\<rparr>))
         else Inr txCopy))"

definition calcSignatureHash ::
  "(bytes \<Rightarrow> bytes) \<Rightarrow> bool \<Rightarrow> parsedOpcode list \<Rightarrow> byte \<Rightarrow> MsgTx \<Rightarrow> int \<Rightarrow> bytes option \<Rightarrow> bytes sres" where
  "calcSignatureHash hashB opt script hashType tx idx cachedPrefix =
     (if hashType AND sigHashMask = SigHashSingle \<and> idx \<ge> int (length (txOut tx)) then raise ErrSighashSingleIdx
      else bindE (sigHashCopy script hashType tx idx) (\<lambda>txCopy.
        let wbuf = PutUint32 (ucast hashType)
        in bindE (case cachedPrefix of
                    Some h \<Rightarrow> if hashType AND sigHashMask = SigHashAll \<and> hashType AND SigHashAnyOneCanPay = 0 \<and> opt
                             then Inr h else hashOrPanic (TxHash hashB txCopy)
                  | None \<Rightarrow> hashOrPanic (TxHash hashB txCopy)) (\<lambda>prefixHash.
           bindE (hashOrPanic (if hashType AND sigHashMask \<noteq> SigHashAllValue then TxHashWitnessSigning hashB txCopy
                               else TxHashWitnessValueSigning hashB txCopy)) (\<lambda>witnessHash.
             Inr (hashB (wbuf @ prefixHash @ witnessHash))))))"

section \<open>The blanked copy\<close>

lemma length_mapi [simp]: "length (mapi f xs) = length xs"
  by (simp add: mapi_def)

lemma nth_mapi [simp]: "i < length xs \<Longrightarrow> mapi f xs ! i = f i (xs ! i)"
  by (simp add: mapi_def)

lemma map_mapi:
  "(\<And>i x. i < length xs \<Longrightarrow> x = xs ! i \<Longrightarrow> g (f i x) = h x) \<Longrightarrow> map g (mapi f xs) = map h xs"
  by (rule nth_equalityI) simp_all

lemma mapi_eq_iff:
  "mapi f xs = mapi g ys \<longleftrightarrow> length xs = length ys \<and> (\<forall>i < length xs. f i (xs ! i) = g i (ys ! i))"
  by (auto simp: list_eq_iff_nth_eq)

lemma slice_one: "0 \<le> i \<Longrightarrow> i < int (length xs) \<Longrightarrow> slice xs i (i + 1) = Inr [xs ! nat i]"
  by (simp add: slice_def take_Suc_conv_app_nth nat_less_iff hd_drop_conv_nth take_Suc)

lemma slice_prefix: "0 \<le> i \<Longrightarrow> i < int (length xs) \<Longrightarrow> slice xs 0 (i + 1) = Inr (take (Suc (nat i)) xs)"
  by (simp add: slice_def nat_add_distrib)

lemma mustSerialize_forms:
  "mustSerialize tx TxSerializeNoWitness = Inr (PutUint32 (ucast (txVersion tx) OR push_bit 16 1) @ encodePrefix tx)"
  "mustSerialize tx TxSerializeWitnessSigning = Inr (PutUint32 (ucast (txVersion tx) OR push_bit 16 3) @ encodeWitnessSigning tx)"
  "mustSerialize tx TxSerializeWitnessValueSigning = Inr (PutUint32 (ucast (txVersion tx) OR push_bit 16 4) @ encodeWitnessValueSigning tx)"
  by (simp_all add: mustSerialize_def serialize_def Serialize_def BtcEncode_def encode_defs)

text \<open>
  What a signature hash depends on: the inputs and outputs the hash type does not leave open.
\<close>

definition looseType :: "byte \<Rightarrow> bool" where
  "looseType hashType \<longleftrightarrow> hashType AND sigHashMask = SigHashNone \<or> hashType AND sigHashMask = SigHashSingle"

definition signedIns :: "byte \<Rightarrow> MsgTx \<Rightarrow> int \<Rightarrow> TxIn list" where
  "signedIns hashType tx idx =
     (let ins = mapi (\<lambda>i ti. if looseType hashType \<and> int i \<noteq> idx then ti\<lparr>Sequence := 0\<rparr> else ti) (txIn tx)
      in if hashType AND SigHashAnyOneCanPay \<noteq> 0 then [ins ! nat idx] else ins)"

definition signedOuts :: "byte \<Rightarrow> MsgTx \<Rightarrow> int \<Rightarrow> TxOut list" where
  "signedOuts hashType tx idx =
     (if hashType AND sigHashMask = SigHashNone then []
      else if hashType AND sigHashMask = SigHashSingle
      then mapi (\<lambda>i to. if int i < idx then to\<lparr>txoValue := - 1, PkScript := []\<rparr> else to) (take (Suc (nat idx)) (txOut tx))
      else txOut tx)"

definition signedScript :: "parsedOpcode list \<Rightarrow> bytes" where
  "signedScript script = (case unparseScript (removeOpcode script OP_CODESEPARATOR) of Inr s \<Rightarrow> s | Inl _ \<Rightarrow> [])"

definition inputView :: "byte \<Rightarrow> TxIn \<Rightarrow> OutPoint \<times> 32 word \<times> 64 word option" where
  "inputView hashType ti = (PreviousOutPoint ti, Sequence ti,
     if hashType AND sigHashMask = SigHashAllValue then Some (ValueIn ti) else None)"

definition sigView ::
  "byte \<Rightarrow> MsgTx \<Rightarrow> int \<Rightarrow> 16 word \<times> 32 word \<times> 32 word \<times> (OutPoint \<times> 32 word \<times> 64 word option) list \<times> TxOut list" where
  "sigView hashType tx idx = (txVersion tx, LockTime tx, Expiry tx,
     map (inputView hashType) (signedIns hashType tx idx), signedOuts hashType tx idx)"

lemma copyTxIn_id [simp]: "copyTxIn ti = ti"
  by (simp add: copyTxIn_def)

lemma copyTxOut_id [simp]: "copyTxOut to = to"
  by (simp add: copyTxOut_def)

lemma Copy_eq: "Copy tx = tx\<lparr>CachedHash := None\<rparr>"
  by (cases tx) (simp add: Copy_def map_idI)

definition inIdx :: "byte \<Rightarrow> int \<Rightarrow> nat" where
  "inIdx hashType idx = (if hashType AND SigHashAnyOneCanPay \<noteq> 0 then 0 else nat idx)"

definition signedCopy :: "parsedOpcode list \<Rightarrow> byte \<Rightarrow> MsgTx \<Rightarrow> int \<Rightarrow> MsgTx" where
  "signedCopy script hashType tx idx = tx\<lparr>CachedHash := None,
     txIn := mapi (\<lambda>i ti. ti\<lparr>SignatureScript := if i = inIdx hashType idx then signedScript script else []\<rparr>) (signedIns hashType tx idx),
     txOut := signedOuts hashType tx idx\<rparr>"

lemma mapi_mapi: "mapi f (mapi g xs) = mapi (\<lambda>i x. f i (g i x)) xs"
  by (rule nth_equalityI) simp_all

lemma mapi_cong: "xs = ys \<Longrightarrow> (\<And>i x. i < length ys \<Longrightarrow> x = ys ! i \<Longrightarrow> f i x = g i x) \<Longrightarrow> mapi f xs = mapi g ys"
  by (rule nth_equalityI) simp_all

lemma mapi_id [simp]: "mapi (\<lambda>i x. x) xs = xs"
  by (rule nth_equalityI) simp_all

lemma mapi_single [simp]: "mapi f [x] = [f 0 x]"
  by (simp add: mapi_def)

lemma sigHashCopy_eq:
  assumes "0 \<le> idx" "idx < int (length (txIn tx))"
    "hashType AND sigHashMask = SigHashSingle \<longrightarrow> idx < int (length (txOut tx))"
  shows "sigHashCopy script hashType tx idx = Inr (signedCopy script hashType tx idx)"
proof -
  let ?f = "\<lambda>i ti. ti\<lparr>SignatureScript := if int i = idx then signedScript script else []\<rparr>"
  let ?z = "\<lambda>i ti. if int i \<noteq> idx then ti\<lparr>Sequence := 0\<rparr> else ti"
  have z: "zeroSequences idx (blankScripts (signedScript script) idx (txIn tx)) = mapi ?f (mapi ?z (txIn tx))"
    by (auto simp: zeroSequences_def blankScripts_def mapi_mapi intro!: mapi_cong)
  define ins where "ins = (if looseType hashType then mapi ?z (txIn tx) else txIn tx)"
  have len: "length ins = length (txIn tx)" by (simp add: ins_def)
  have sIns: "signedIns hashType tx idx = (if hashType AND SigHashAnyOneCanPay \<noteq> 0 then [ins ! nat idx] else ins)"
    by (simp add: signedIns_def ins_def)
  have "(let txCopy = Copy tx;
          txCopy = txCopy\<lparr>txIn := blankScripts (signedScript script) idx (txIn txCopy)\<rparr>
      in if hashType AND sigHashMask = SigHashNone
                then Inr (txCopy\<lparr>txOut := [], txIn := zeroSequences idx (txIn txCopy)\<rparr>)
                else if hashType AND sigHashMask = SigHashSingle
                then bindE (slice (txOut txCopy) 0 (idx + 1)) (\<lambda>outs.
                       Inr (txCopy\<lparr>txOut := mapi (\<lambda>i to. if int i < idx then to\<lparr>txoValue := - 1, PkScript := []\<rparr> else to) outs,
                                  txIn := zeroSequences idx (txIn txCopy)\<rparr>))
                else Inr txCopy) = (Inr (tx\<lparr>CachedHash := None, txIn := mapi ?f ins, txOut := signedOuts hashType tx idx\<rparr>) :: MsgTx sres)"
    using assms z by (auto simp: Copy_eq ins_def looseType_def signedOuts_def slice_prefix blankScripts_def)
  then have "sigHashCopy script hashType tx idx =
      bindE (Inr (tx\<lparr>CachedHash := None, txIn := mapi ?f ins, txOut := signedOuts hashType tx idx\<rparr>)) (\<lambda>txCopy.
         if hashType AND SigHashAnyOneCanPay \<noteq> 0
         then bindE (slice (txIn txCopy) idx (idx + 1)) (\<lambda>ins. Inr (txCopy\<lparr>txIn := ins\<rparr>))
         else Inr txCopy)"
    by (simp only: sigHashCopy_def Let_def signedScript_def)
  also have "\<dots> = Inr (signedCopy script hashType tx idx)"
    using assms(1,2) len
    by (auto simp: signedCopy_def sIns inIdx_def slice_one nat_less_iff mapi_single eq_nat_nat_iff intro!: arg_cong [of _ _ "\<lambda>x. tx\<lparr>CachedHash := None, txIn := x, txOut := signedOuts hashType tx idx\<rparr>"] mapi_cong)
  finally show ?thesis .
qed

lemma signedCopy_fields [simp]:
  "txVersion (signedCopy script hashType tx idx) = txVersion tx" "LockTime (signedCopy script hashType tx idx) = LockTime tx"
  "Expiry (signedCopy script hashType tx idx) = Expiry tx" "txOut (signedCopy script hashType tx idx) = signedOuts hashType tx idx"
  "length (txIn (signedCopy script hashType tx idx)) = length (signedIns hashType tx idx)"
  by (simp_all add: signedCopy_def)

text \<open>The bytes hashed for the prefix and for the witness, and the message made of the two hashes.\<close>

definition prefixBytes :: "MsgTx \<Rightarrow> bytes" where
  "prefixBytes tx = PutUint32 (ucast (txVersion tx) OR push_bit 16 1) @ encodePrefix tx"

definition witnessBytes :: "byte \<Rightarrow> MsgTx \<Rightarrow> bytes" where
  "witnessBytes hashType tx = (if hashType AND sigHashMask \<noteq> SigHashAllValue
     then PutUint32 (ucast (txVersion tx) OR push_bit 16 3) @ encodeWitnessSigning tx
     else PutUint32 (ucast (txVersion tx) OR push_bit 16 4) @ encodeWitnessValueSigning tx)"

definition sigMessage :: "(bytes \<Rightarrow> bytes) \<Rightarrow> byte \<Rightarrow> MsgTx \<Rightarrow> bytes" where
  "sigMessage hashB hashType tx =
     PutUint32 (ucast hashType) @ hashB (prefixBytes tx) @ hashB (witnessBytes hashType tx)"

lemma hash_forms:
  "hashOrPanic (TxHash hashB tx) = Inr (hashB (prefixBytes tx))"
  "hashOrPanic (if hashType AND sigHashMask \<noteq> SigHashAllValue then TxHashWitnessSigning hashB tx
     else TxHashWitnessValueSigning hashB tx) = Inr (hashB (witnessBytes hashType tx))"
  by (simp_all add: hashOrPanic_def TxHash_def TxHashWitnessSigning_def TxHashWitnessValueSigning_def
      mustSerialize_forms prefixBytes_def witnessBytes_def)

text \<open>The signature hash in closed form; it fails only for a \<^verbatim>\<open>SigHashSingle\<close> without its output.\<close>

lemma calcSignatureHash_eq:
  assumes "0 \<le> idx" "idx < int (length (txIn tx))"
  shows "calcSignatureHash hashB opt script hashType tx idx None =
    (if hashType AND sigHashMask = SigHashSingle \<and> idx \<ge> int (length (txOut tx)) then raise ErrSighashSingleIdx
     else Inr (hashB (sigMessage hashB hashType (signedCopy script hashType tx idx))))"
proof (cases "hashType AND sigHashMask = SigHashSingle \<and> idx \<ge> int (length (txOut tx))")
  case True
  then show ?thesis by (simp add: calcSignatureHash_def)
next
  case False
  then show ?thesis using sigHashCopy_eq [OF assms, of hashType script]
    by (auto simp: calcSignatureHash_def hash_forms sigMessage_def)
qed

lemma prefixBytes_cong:
  assumes "txVersion tx = txVersion tx'" "LockTime tx = LockTime tx'" "Expiry tx = Expiry tx'" "txOut tx = txOut tx'"
    "map (\<lambda>ti. (PreviousOutPoint ti, Sequence ti)) (txIn tx) = map (\<lambda>ti. (PreviousOutPoint ti, Sequence ti)) (txIn tx')"
  shows "prefixBytes tx = prefixBytes tx'"
proof -
  have w: "writeTxInPrefix = (\<lambda>(p, s). WriteOutPoint p @ PutUint32 s) \<circ> (\<lambda>ti. (PreviousOutPoint ti, Sequence ti))"
    by (auto simp: writeTxInPrefix_def)
  have "map writeTxInPrefix (txIn tx) = map writeTxInPrefix (txIn tx')"
    unfolding w using assms(5) by (simp only: map_map [symmetric])
  with assms map_eq_imp_length_eq [OF assms(5)] show ?thesis by (simp add: prefixBytes_def encodePrefix_def)
qed

lemma witnessBytes_cong:
  assumes "txVersion tx = txVersion tx'" "map SignatureScript (txIn tx) = map SignatureScript (txIn tx')"
    "hashType AND sigHashMask = SigHashAllValue \<Longrightarrow> map ValueIn (txIn tx) = map ValueIn (txIn tx')"
  shows "witnessBytes hashType tx = witnessBytes hashType tx'"
proof -
  note len = map_eq_imp_length_eq [OF assms(2)]
  have w: "writeTxInWitnessSigning = WriteVarBytes \<circ> SignatureScript" by (auto simp: writeTxInWitnessSigning_def)
  have "map writeTxInWitnessSigning (txIn tx) = map writeTxInWitnessSigning (txIn tx')"
    unfolding w using assms(2) by (simp only: map_map [symmetric])
  moreover have "map writeTxInWitnessValueSigning (txIn tx) = map writeTxInWitnessValueSigning (txIn tx')"
    if "hashType AND sigHashMask = SigHashAllValue"
  proof (rule nth_equalityI)
    fix i
    assume i: "i < length (map writeTxInWitnessValueSigning (txIn tx))"
    have "map SignatureScript (txIn tx) ! i = map SignatureScript (txIn tx') ! i" "map ValueIn (txIn tx) ! i = map ValueIn (txIn tx') ! i"
      using assms(2) assms(3) [OF that] by simp_all
    with i len show "map writeTxInWitnessValueSigning (txIn tx) ! i = map writeTxInWitnessValueSigning (txIn tx') ! i"
      by (simp add: writeTxInWitnessValueSigning_def)
  qed (simp add: len)
  ultimately show ?thesis using assms(1) len
    by (auto simp: witnessBytes_def encodeWitnessSigning_def encodeWitnessValueSigning_def)
qed

lemma signedCopy_views:
  "map (\<lambda>ti. (PreviousOutPoint ti, Sequence ti)) (txIn (signedCopy script hashType tx idx)) =
     map (\<lambda>(p, s, v). (p, s)) (map (inputView hashType) (signedIns hashType tx idx))"
  "map SignatureScript (txIn (signedCopy script hashType tx idx)) =
     map (\<lambda>i. if i = inIdx hashType idx then signedScript script else []) [0..<length (signedIns hashType tx idx)]"
  "map ValueIn (txIn (signedCopy script hashType tx idx)) = map ValueIn (signedIns hashType tx idx)"
  by (auto simp: signedCopy_def inputView_def intro!: nth_equalityI)

lemma sigView_length: "sigView hashType tx idx = sigView hashType tx' idx \<Longrightarrow>
  length (signedIns hashType tx idx) = length (signedIns hashType tx' idx)"
  unfolding sigView_def by (metis Pair_inject length_map)

lemma signedCopy_message:
  assumes "sigView hashType tx idx = sigView hashType tx' idx" "signedScript script = signedScript script'"
  shows "sigMessage hashB hashType (signedCopy script hashType tx idx) = sigMessage hashB hashType (signedCopy script' hashType tx' idx)"
proof -
  have v: "map (inputView hashType) (signedIns hashType tx idx) = map (inputView hashType) (signedIns hashType tx' idx)"
    using assms(1) by (simp add: sigView_def)
  have "prefixBytes (signedCopy script hashType tx idx) = prefixBytes (signedCopy script' hashType tx' idx)"
    by (rule prefixBytes_cong) (use assms(1) in \<open>simp_all only: signedCopy_views signedCopy_fields sigView_def prod.inject\<close>)
  moreover have "map ValueIn (signedIns hashType tx idx) = map ValueIn (signedIns hashType tx' idx)"
    if "hashType AND sigHashMask = SigHashAllValue"
    using arg_cong [OF v, of "map (\<lambda>(p, s, v). the v)"] that by (simp add: inputView_def comp_def)
  then have "witnessBytes hashType (signedCopy script hashType tx idx) = witnessBytes hashType (signedCopy script' hashType tx' idx)"
    using assms sigView_length [OF assms(1)]
    by (intro witnessBytes_cong) (simp_all only: signedCopy_views signedCopy_fields sigView_def prod.inject)
  ultimately show ?thesis by (simp add: sigMessage_def)
qed

lemma signedOuts_range:
  assumes "signedOuts hashType tx idx = signedOuts hashType tx' idx" "hashType AND sigHashMask = SigHashSingle" "0 \<le> idx"
  shows "idx \<ge> int (length (txOut tx)) \<longleftrightarrow> idx \<ge> int (length (txOut tx'))"
  using arg_cong [OF assms(1), of length] assms(2,3) by (auto simp: signedOuts_def min_def split: if_splits)

text \<open>
  C35. A signature hash depends on nothing but the signed view of the transaction (version, lock
  time, expiry, and the inputs and outputs that the hash type does not leave open) and the script
  without its code separators: in particular not on any signature script.
\<close>

theorem sighash_depends_on_view:
  assumes "0 \<le> idx" "idx < int (length (txIn tx))" "idx < int (length (txIn tx'))"
    "sigView hashType tx idx = sigView hashType tx' idx" "signedScript script = signedScript script'"
  shows "calcSignatureHash hashB opt script hashType tx idx None = calcSignatureHash hashB opt script' hashType tx' idx None"
proof -
  have o: "signedOuts hashType tx idx = signedOuts hashType tx' idx" using assms(4) by (simp add: sigView_def)
  from calcSignatureHash_eq [OF assms(1,2)] calcSignatureHash_eq [OF assms(1,3)] signedCopy_message [OF assms(4,5)]
    signedOuts_range [OF o _ assms(1)] show ?thesis by auto
qed

definition sampleTx :: "bytes \<Rightarrow> MsgTx" where
  "sampleTx sig = \<lparr>CachedHash = None, SerType = 0, txVersion = 1,
     txIn = [\<lparr>PreviousOutPoint = \<lparr>opHash = replicate 32 7, opIndex = 1, opTree = 0\<rparr>, Sequence = 5, ValueIn = 9,
              BlockHeight = 0, BlockIndex = 0, SignatureScript = sig\<rparr>],
     txOut = [\<lparr>txoValue = 3, txoVersion = 0, PkScript = [0x51]\<rparr>], LockTime = 0, Expiry = 0\<rparr>"

lemma sampleTx_view: "sigView 1 (sampleTx sig) 0 = sigView 1 (sampleTx sig') 0"
  by (simp add: sigView_def sampleTx_def signedIns_def signedOuts_def looseType_def inputView_def)

theorem sighash_depends_on_view_witness:
  "calcSignatureHash id False [] 1 (sampleTx [1, 2]) 0 None = calcSignatureHash id False [] 1 (sampleTx []) 0 None"
  by (rule sighash_depends_on_view) (simp_all add: sampleTx_view, simp_all add: sampleTx_def)

lemma serialize_carried:
  assumes "wf_tx tx" "wf_tx tx'" "mustSerialize tx t = Inr b" "mustSerialize tx' t = Inr b"
  shows "carried (tx\<lparr>SerType := t\<rparr>) = carried (tx'\<lparr>SerType := t\<rparr>)"
proof -
  have e: "BtcEncode (tx\<lparr>SerType := t\<rparr>) = Inr b" "BtcEncode (tx'\<lparr>SerType := t\<rparr>) = Inr b"
    using assms(3,4) by (auto simp: mustSerialize_def serialize_def Serialize_def split: sum.splits)
  have "wf_tx (tx\<lparr>SerType := t\<rparr>)" "wf_tx (tx'\<lparr>SerType := t\<rparr>)" using assms(1,2) by (simp_all add: wf_tx_def)
  from BtcDecode_BtcEncode [OF this(1) e(1), of "[]"] BtcDecode_BtcEncode [OF this(2) e(2), of "[]"] show ?thesis by simp
qed

lemma prefixBytes_inject:
  assumes "wf_tx tx" "wf_tx tx'" "prefixBytes tx = prefixBytes tx'"
  shows "txVersion tx = txVersion tx' \<and> LockTime tx = LockTime tx' \<and> Expiry tx = Expiry tx' \<and> txOut tx = txOut tx' \<and>
    map (\<lambda>ti. (PreviousOutPoint ti, Sequence ti)) (txIn tx) = map (\<lambda>ti. (PreviousOutPoint ti, Sequence ti)) (txIn tx')"
proof -
  have "carried (tx\<lparr>SerType := 1\<rparr>) = carried (tx'\<lparr>SerType := 1\<rparr>)"
    by (rule serialize_carried [OF assms(1,2) mustSerialize_forms(1)])
       (use assms(3) in \<open>simp add: mustSerialize_forms prefixBytes_def\<close>)
  then have "tx\<lparr>SerType := 1, CachedHash := None, txIn := map prefixPart (txIn tx)\<rparr> =
      tx'\<lparr>SerType := 1, CachedHash := None, txIn := map prefixPart (txIn tx')\<rparr>"
    by (simp add: carried_def)
  then have f: "txVersion tx = txVersion tx'" "LockTime tx = LockTime tx'" "Expiry tx = Expiry tx'" "txOut tx = txOut tx'"
    "map prefixPart (txIn tx) = map prefixPart (txIn tx')"
    by (cases tx; cases tx'; simp)+
  from arg_cong [OF f(5), of "map (\<lambda>ti. (PreviousOutPoint ti, Sequence ti))"]
  have "map (\<lambda>ti. (PreviousOutPoint ti, Sequence ti)) (txIn tx) = map (\<lambda>ti. (PreviousOutPoint ti, Sequence ti)) (txIn tx')"
    by (simp add: prefixPart_def comp_def)
  with f show ?thesis by simp
qed

lemma witnessBytes_inject:
  assumes "wf_tx tx" "wf_tx tx'" "witnessBytes hashType tx = witnessBytes hashType tx'"
  shows "map SignatureScript (txIn tx) = map SignatureScript (txIn tx')"
    "hashType AND sigHashMask = SigHashAllValue \<Longrightarrow> map ValueIn (txIn tx) = map ValueIn (txIn tx')"
proof -
  let ?t = "if hashType AND sigHashMask \<noteq> SigHashAllValue then 3 else 4 :: 16 word"
  have "carried (tx\<lparr>SerType := ?t\<rparr>) = carried (tx'\<lparr>SerType := ?t\<rparr>)"
    by (rule serialize_carried [OF assms(1,2), of _ "witnessBytes hashType tx"])
       (use assms(3) in \<open>auto simp: mustSerialize_forms witnessBytes_def split: if_splits\<close>)
  then have a: "hashType AND sigHashMask \<noteq> SigHashAllValue \<Longrightarrow> map signingPart (txIn tx) = map signingPart (txIn tx')"
    and b: "hashType AND sigHashMask = SigHashAllValue \<Longrightarrow> map valueSigningPart (txIn tx) = map valueSigningPart (txIn tx')"
    by (auto simp: carried_def zeroMsgTx_def split: if_splits)
  from arg_cong [OF a, of "map SignatureScript"] arg_cong [OF b, of "map SignatureScript"]
  show "map SignatureScript (txIn tx) = map SignatureScript (txIn tx')"
    by (cases "hashType AND sigHashMask = SigHashAllValue") (simp_all add: signingPart_def valueSigningPart_def comp_def)
  assume v: "hashType AND sigHashMask = SigHashAllValue"
  from arg_cong [OF b [OF v], of "map ValueIn"] show "map ValueIn (txIn tx) = map ValueIn (txIn tx')"
    by (simp add: valueSigningPart_def comp_def)
qed

lemma signedIns_set:
  "0 \<le> idx \<Longrightarrow> idx < int (length (txIn tx)) \<Longrightarrow> ti \<in> set (signedIns hashType tx idx) \<Longrightarrow>
     \<exists>t \<in> set (txIn tx). PreviousOutPoint ti = PreviousOutPoint t"
  by (auto simp: signedIns_def Let_def in_set_conv_nth nat_less_iff split: if_splits intro!: bexI [OF _ nth_mem])

lemma signedCopy_wf:
  assumes "wf_tx tx" "0 \<le> idx" "idx < int (length (txIn tx))" "length (signedScript script) \<le> MaxMessagePayload"
  shows "wf_tx (signedCopy script hashType tx idx)"
proof -
  have "length (opHash (PreviousOutPoint ti)) = 32 \<and> length (SignatureScript ti) \<le> MaxMessagePayload"
    if t: "ti \<in> set (txIn (signedCopy script hashType tx idx))" for ti
  proof -
    from t obtain i where i: "i < length (signedIns hashType tx idx)"
      "ti = (signedIns hashType tx idx ! i)\<lparr>SignatureScript := if i = inIdx hashType idx then signedScript script else []\<rparr>"
      by (auto simp: signedCopy_def in_set_conv_nth)
    from signedIns_set [OF assms(2,3) nth_mem [OF i(1)]] obtain t where "t \<in> set (txIn tx)"
      "PreviousOutPoint ti = PreviousOutPoint t" by (auto simp: i(2))
    with assms(1,4) i(2) show ?thesis by (auto simp: wf_tx_def list_all_iff)
  qed
  moreover have "list_all (\<lambda>to. length (PkScript to) \<le> MaxMessagePayload) (signedOuts hashType tx idx)"
    using assms(1) by (auto simp: wf_tx_def list_all_length signedOuts_def)
  moreover have "length (signedOuts hashType tx idx) \<le> length (txOut tx)" by (simp add: signedOuts_def)
  moreover have "length (signedIns hashType tx idx) \<le> length (txIn tx)"
    using assms(2,3) by (cases "txIn tx") (auto simp: signedIns_def Let_def)
  ultimately show ?thesis using assms(1) by (auto simp: wf_tx_def list_all_iff)
qed

text \<open>The strings whose hashes a signature hash is made of.\<close>

definition sigPreimages :: "(bytes \<Rightarrow> bytes) \<Rightarrow> byte \<Rightarrow> MsgTx \<Rightarrow> bytes set" where
  "sigPreimages hashB hashType tx = {prefixBytes tx, witnessBytes hashType tx, sigMessage hashB hashType tx}"

lemma inputView_eq:
  "map (inputView hashType) xs = map (inputView hashType) ys \<longleftrightarrow>
     map (\<lambda>ti. (PreviousOutPoint ti, Sequence ti)) xs = map (\<lambda>ti. (PreviousOutPoint ti, Sequence ti)) ys \<and>
     (hashType AND sigHashMask = SigHashAllValue \<longrightarrow> map ValueIn xs = map ValueIn ys)"
  by (auto simp: inputView_def list_eq_iff_nth_eq)

lemma inIdx_less:
  "0 \<le> idx \<Longrightarrow> idx < int (length (txIn tx)) \<Longrightarrow> inIdx hashType idx < length (signedIns hashType tx idx)"
  by (auto simp: inIdx_def signedIns_def Let_def)

text \<open>
  C9. A signature hash commits to the hash type, to the signed view of the transaction and to the
  script: unless the hash function collides on the serializations at hand, transactions with the
  same signature hash have the same view.
\<close>

theorem sighash_commits_to_view:
  assumes "wf_tx tx" "wf_tx tx'" "0 \<le> idx" "idx < int (length (txIn tx))" "idx < int (length (txIn tx'))"
    "length (signedScript script) \<le> MaxMessagePayload" "length (signedScript script') \<le> MaxMessagePayload"
    "calcSignatureHash hashB opt script hashType tx idx None = Inr h"
    "calcSignatureHash hashB opt script' hashType' tx' idx None = Inr h"
    "\<forall>x. length (hashB x) = 32"
    "inj_on hashB (sigPreimages hashB hashType (signedCopy script hashType tx idx) \<union>
       sigPreimages hashB hashType' (signedCopy script' hashType' tx' idx))"
  shows "hashType' = hashType \<and> sigView hashType tx' idx = sigView hashType tx idx \<and> signedScript script' = signedScript script"
proof -
  let ?c = "signedCopy script hashType tx idx" and ?c' = "signedCopy script' hashType' tx' idx"
  have h: "hashB (sigMessage hashB hashType ?c) = hashB (sigMessage hashB hashType' ?c')"
    using assms(8,9) calcSignatureHash_eq [OF assms(3,4)] calcSignatureHash_eq [OF assms(3,5)] by (auto split: if_splits)
  from inj_onD [OF assms(11) h] have "sigMessage hashB hashType ?c = sigMessage hashB hashType' ?c'"
    by (simp add: sigPreimages_def)
  then have "PutUint32 (ucast hashType) = PutUint32 (ucast hashType' :: 32 word)" and
    hp: "hashB (prefixBytes ?c) = hashB (prefixBytes ?c')" and
    hw: "hashB (witnessBytes hashType ?c) = hashB (witnessBytes hashType' ?c')"
    using assms(10) by (auto simp: sigMessage_def)
  then have "ucast hashType = (ucast hashType' :: 32 word)" using u32.enc_inject by blast
  then have "uint (ucast hashType :: 32 word) = uint (ucast hashType' :: 32 word)" by simp
  moreover have "uint (ucast b :: 32 word) = uint b" for b :: byte 
    by (simp add: unsigned_ucast_eq take_bit_int_eq_self_iff order_less_trans [OF uint_byte_bounds(2)])
  ultimately have ht: "hashType' = hashType" by (simp add: word_uint_eq_iff)
  have p: "prefixBytes ?c = prefixBytes ?c'" and w: "witnessBytes hashType ?c = witnessBytes hashType ?c'"
    using inj_onD [OF assms(11) hp] inj_onD [OF assms(11) hw] by (simp_all add: sigPreimages_def ht)
  note wf = signedCopy_wf [OF assms(1,3,4,6), of hashType] signedCopy_wf [OF assms(2,3,5,7), of hashType]
  note pv = prefixBytes_inject [OF wf p [unfolded ht]]
  note sv = witnessBytes_inject [OF wf w [unfolded ht]]
  have v: "map (\<lambda>ti. (PreviousOutPoint ti, Sequence ti)) (signedIns hashType tx idx) =
      map (\<lambda>ti. (PreviousOutPoint ti, Sequence ti)) (signedIns hashType tx' idx)"
    using pv by (simp add: signedCopy_views inputView_def comp_def split_def)
  note len = map_eq_imp_length_eq [OF v]
  have "map (inputView hashType) (signedIns hashType tx idx) = map (inputView hashType) (signedIns hashType tx' idx)"
    using v sv(2) by (simp add: inputView_eq signedCopy_views)
  moreover have "signedScript script = signedScript script'"
    using arg_cong [OF sv(1), of "\<lambda>xs. xs ! inIdx hashType idx"] inIdx_less [OF assms(3,4), of hashType] len
    by (simp add: signedCopy_views)
  ultimately show ?thesis using pv by (simp add: ht sigView_def)
qed

definition sampleHash :: "bytes \<Rightarrow> bytes" where
  "sampleHash b = take 32 (b @ replicate 32 0)"

theorem sighash_commits_to_view_witness:
  "1 = (1 :: byte) \<and> sigView 1 (sampleTx []) 0 = sigView 1 (sampleTx [1, 2]) 0 \<and> signedScript [] = signedScript []"
proof (rule sighash_commits_to_view)
  let ?c = "signedCopy [] 1 (sampleTx []) 0"
  have c: "signedCopy [] 1 (sampleTx [1, 2]) 0 = ?c"
    by (simp add: signedCopy_def sampleTx_def signedIns_def signedOuts_def looseType_def)
  have "sampleHash (prefixBytes ?c) ! 2 = 1" "sampleHash (witnessBytes 1 ?c) ! 2 = 3" "sampleHash (sigMessage sampleHash 1 ?c) ! 2 = 0"
    by (simp_all add: sampleHash_def prefixBytes_def witnessBytes_def sigMessage_def PutUint32_def lenBytes_def nth_append signedCopy_def sampleTx_def)
  then have "sampleHash (prefixBytes ?c) \<noteq> sampleHash (witnessBytes 1 ?c)"
    "sampleHash (prefixBytes ?c) \<noteq> sampleHash (sigMessage sampleHash 1 ?c)"
    "sampleHash (witnessBytes 1 ?c) \<noteq> sampleHash (sigMessage sampleHash 1 ?c)" by auto
  then show "inj_on sampleHash (sigPreimages sampleHash 1 (signedCopy [] 1 (sampleTx [1, 2]) 0) \<union> sigPreimages sampleHash 1 ?c)"
    unfolding c Un_absorb sigPreimages_def by (auto simp: inj_on_def)
  show "calcSignatureHash sampleHash False [] 1 (sampleTx [1, 2]) 0 None = Inr (sampleHash (sigMessage sampleHash 1 ?c))"
    by (subst calcSignatureHash_eq) (simp_all add: c, simp_all add: sampleTx_def)
  show "calcSignatureHash sampleHash False [] 1 (sampleTx []) 0 None = Inr (sampleHash (sigMessage sampleHash 1 ?c))"
    by (subst calcSignatureHash_eq) (simp_all add: c, simp_all add: sampleTx_def)
qed (simp_all add: wf_tx_def sampleTx_def sampleHash_def signedScript_def removeOpcode_def MaxMessagePayload_def
      maxTxInPerMessage_def maxTxOutPerMessage_def min_def)

text \<open>
  The optimisation of \<^verbatim>\<open>SigHashAll\<close> is sound: with the hash of the transaction as cached prefix
  the signature hash is the one computed without it, for every hash type.
\<close>

theorem sighash_cached_prefix:
  assumes "0 \<le> idx" "idx < int (length (txIn tx))" "TxHash hashB tx = Inr h"
  shows "calcSignatureHash hashB True script hashType tx idx (Some h) = calcSignatureHash hashB opt script hashType tx idx None"
proof -
  have h: "h = hashB (prefixBytes tx)"
    using assms(3) hash_forms(1) [of hashB tx] by (simp add: hashOrPanic_def)
  have "prefixBytes (signedCopy script hashType tx idx) = prefixBytes tx"
    if "hashType AND sigHashMask = SigHashAll" "hashType AND SigHashAnyOneCanPay = 0"
    using that by (intro prefixBytes_cong)
      (simp_all only: signedCopy_views, simp_all add: signedOuts_def signedIns_def looseType_def inputView_def comp_def)
  then show ?thesis
    using calcSignatureHash_eq [OF assms(1,2), of hashB opt script hashType] sigHashCopy_eq [OF assms(1,2), of hashType script]
    by (auto simp: calcSignatureHash_def hash_forms sigMessage_def h split: if_splits)
qed

theorem sighash_cached_prefix_witness:
  "calcSignatureHash id True [] 1 (sampleTx []) 0 (Some (prefixBytes (sampleTx []))) = calcSignatureHash id False [] 1 (sampleTx []) 0 None"
  by (rule sighash_cached_prefix) (simp_all add: TxHash_def mustSerialize_forms prefixBytes_def, simp_all add: sampleTx_def)

end
