(* ===== verification/SigCache.thy ===== *)
theory SigCache
  imports Prelude "HOL-Library.AList"
begin

text \<open>
  The signature verification cache (\<^verbatim>\<open>src/txscript/sigcache.go\<close>). A Go map has no order, so the map is
  an association list and the entry that a full cache evicts, the one a \<^verbatim>\<open>range\<close> over the map meets
  first, is given by the argument \<open>pick\<close>. The operations run under a lock, one at a time. The signature
  schemes behind \<^verbatim>\<open>chainec\<close>, \<^verbatim>\<open>bliss\<close> and \<^verbatim>\<open>lms\<close> are values of \<open>dsa\<close> and \<open>pqdsa\<close>: parsing, serializing
  and verifying, on keys and signatures of unknown types.
\<close>

section \<open>Signature schemes\<close>

record ('pk, 'sg) dsa =
  ParsePubKey :: "bytes \<Rightarrow> 'pk option"
  ParseSignature :: "bytes \<Rightarrow> 'sg option"
  ParseDERSignature :: "bytes \<Rightarrow> 'sg option"
  Verify :: "'pk \<Rightarrow> bytes \<Rightarrow> int \<Rightarrow> int \<Rightarrow> bool"
  GetR :: "'sg \<Rightarrow> int"
  GetS :: "'sg \<Rightarrow> int"
  SerializeCompressed :: "'pk \<Rightarrow> bytes"
  SerializeSig :: "'sg \<Rightarrow> bytes"

record ('pk, 'sg) pqdsa =
  pq_ParsePubKey :: "bytes \<Rightarrow> 'pk option"
  pq_ParseSignature :: "bytes \<Rightarrow> 'sg option"
  pq_Verify :: "'pk \<Rightarrow> bytes \<Rightarrow> 'sg \<Rightarrow> bool"

section \<open>The cache\<close>

record ('pk, 'sg) sigCacheEntry =
  entry_sig :: 'sg
  entry_pubKey :: 'pk

record ('pk, 'sg) SigCache =
  validSigs :: "(bytes \<times> ('pk, 'sg) sigCacheEntry) list"
  maxEntries :: nat

definition NewSigCache :: "nat \<Rightarrow> ('pk, 'sg) SigCache" where
  "NewSigCache n = \<lparr>validSigs = [], maxEntries = n\<rparr>"

definition Exists :: "('pk, 'sg) dsa \<Rightarrow> ('pk, 'sg) SigCache \<Rightarrow> bytes \<Rightarrow> 'sg \<Rightarrow> 'pk \<Rightarrow> bool" where
  "Exists ec s sigHash sig pubKey = (case map_of (validSigs s) sigHash of
     Some entry \<Rightarrow>
       (let pkEqual = (SerializeCompressed ec (entry_pubKey entry) = SerializeCompressed ec pubKey);
            sigEqual = (SerializeSig ec (entry_sig entry) = SerializeSig ec sig)
        in pkEqual \<and> sigEqual)
   | None \<Rightarrow> False)"

definition evict :: "(nat \<Rightarrow> nat) \<Rightarrow> ('k \<times> 'v) list \<Rightarrow> ('k \<times> 'v) list" where
  "evict pick m = (if m = [] then [] else AList.delete (fst (m ! (pick (length m) mod length m))) m)"

definition Add ::
  "(nat \<Rightarrow> nat) \<Rightarrow> ('pk, 'sg) SigCache \<Rightarrow> bytes \<Rightarrow> 'sg \<Rightarrow> 'pk \<Rightarrow> ('pk, 'sg) SigCache" where
  "Add pick s sigHash sig pubKey =
     (if maxEntries s \<le> 0 then s
      else let m = (if length (validSigs s) + 1 > maxEntries s then evict pick (validSigs s) else validSigs s)
           in s\<lparr>validSigs := AList.update sigHash \<lparr>entry_sig = sig, entry_pubKey = pubKey\<rparr> m\<rparr>)"

section \<open>The interface of a cache\<close>

text \<open>
  A cache may forget what was put into it, but it holds nothing that was not: up to the likeness of
  keys, a member is a key that was added.
\<close>

locale cache =
  fixes empty :: 'c and mem :: "'c \<Rightarrow> 'k \<Rightarrow> bool" and add :: "'k \<Rightarrow> 'c \<Rightarrow> 'c" and like :: "'k \<Rightarrow> 'k \<Rightarrow> bool"
  assumes mem_empty: "\<not> mem empty k"
    and mem_add: "mem (add k c) k' \<Longrightarrow> like k k' \<or> mem c k'"
begin

lemma add_keeps:
  assumes "\<And>k. mem c k \<Longrightarrow> good k" "\<And>k'. like k k' \<Longrightarrow> good k'" "mem (add k c) k'"
  shows "good k'"
  using mem_add [OF assms(3)] assms(1,2) by blast

lemma fold_adds:
  assumes "mem (fold add ks c) k'"
  shows "mem c k' \<or> (\<exists>k \<in> set ks. like k k')"
  using assms by (induction ks arbitrary: c) (auto dest: mem_add)

lemma only_added:
  assumes "mem (fold add ks empty) k'"
  shows "\<exists>k \<in> set ks. like k k'"
  using fold_adds [OF assms] mem_empty by blast

end

definition cacheMem :: "('pk, 'sg) dsa \<Rightarrow> ('pk, 'sg) SigCache \<Rightarrow> bytes \<times> 'sg \<times> 'pk \<Rightarrow> bool" where
  "cacheMem ec s k = (case k of (h, sig, pk) \<Rightarrow> Exists ec s h sig pk)"

definition cacheAdd :: "(nat \<Rightarrow> nat) \<Rightarrow> bytes \<times> 'sg \<times> 'pk \<Rightarrow> ('pk, 'sg) SigCache \<Rightarrow> ('pk, 'sg) SigCache" where
  "cacheAdd pick k s = (case k of (h, sig, pk) \<Rightarrow> Add pick s h sig pk)"

definition sameSig :: "('pk, 'sg) dsa \<Rightarrow> bytes \<times> 'sg \<times> 'pk \<Rightarrow> bytes \<times> 'sg \<times> 'pk \<Rightarrow> bool" where
  "sameSig ec k k' = (case (k, k') of ((h, sig, pk), (h', sig', pk')) \<Rightarrow>
     h = h' \<and> SerializeSig ec sig = SerializeSig ec sig' \<and> SerializeCompressed ec pk = SerializeCompressed ec pk')"

lemma map_of_evict: "map_of (evict pick m) k = Some v \<Longrightarrow> map_of m k = Some v"
  by (auto simp: evict_def delete_conv' split: if_splits)

interpretation sigcache: cache "NewSigCache n" "cacheMem ec" "cacheAdd pick" "sameSig ec"
proof
  show "\<not> cacheMem ec (NewSigCache n) k" for k
    by (simp add: cacheMem_def Exists_def NewSigCache_def split: prod.splits)
  show "cacheMem ec (cacheAdd pick k c) k' \<Longrightarrow> sameSig ec k k' \<or> cacheMem ec c k'" for k c k'
    by (auto simp: cacheMem_def cacheAdd_def sameSig_def Exists_def Add_def Let_def update_conv' dest: map_of_evict
        split: prod.splits option.splits if_splits)
qed

section \<open>Bounds\<close>

definition wf_cache :: "('pk, 'sg) SigCache \<Rightarrow> bool" where
  "wf_cache s \<longleftrightarrow> distinct (map fst (validSigs s)) \<and> length (validSigs s) \<le> maxEntries s"

lemma length_update: "length (AList.update k v m) \<le> Suc (length m)"
  by (induction m) auto

lemma length_evict: "m \<noteq> [] \<Longrightarrow> length (evict pick m) < length m"
proof -
  assume m: "m \<noteq> []"
  let ?k = "fst (m ! (pick (length m) mod length m))"
  have "m ! (pick (length m) mod length m) \<in> set m" using m by simp
  then have "length (filter (\<lambda>(k', _). ?k \<noteq> k') m) < length m" by (rule length_filter_less) (simp add: split_def)
  then show ?thesis using m by (simp add: evict_def AList.delete_eq)
qed

lemma distinct_evict: "distinct (map fst m) \<Longrightarrow> distinct (map fst (evict pick m))"
  by (simp add: evict_def distinct_delete)

text \<open>
  C36. The cache never holds more entries than its limit and never two for one hash, whichever entry
  is evicted; a signature that was just added is found unless the limit is zero.
\<close>

theorem sigcache_bounded:
  "wf_cache (NewSigCache n :: ('pk, 'sg) SigCache) \<and>
   (wf_cache (s :: ('pk, 'sg) SigCache) \<longrightarrow> wf_cache (Add pick s h sig pk) \<and>
      maxEntries (Add pick s h sig pk) = maxEntries s \<and> (Exists ec (Add pick s h sig pk) h sig pk \<or> maxEntries s = 0))"
proof -
  have "wf_cache (Add pick s h sig pk)" if w: "wf_cache s"
  proof (cases "maxEntries s = 0")
    case False
    let ?m = "if length (validSigs s) + 1 > maxEntries s then evict pick (validSigs s) else validSigs s"
    have "length ?m < maxEntries s" "distinct (map fst ?m)"
      using w False length_evict [of "validSigs s" pick] distinct_evict [of "validSigs s" pick]
      by (cases "validSigs s = []"; force simp: wf_cache_def)+
    with False length_update [of h "\<lparr>entry_sig = sig, entry_pubKey = pk\<rparr>" ?m] show ?thesis
      by (simp add: wf_cache_def Add_def Let_def distinct_update)
  qed (use w in \<open>simp add: Add_def\<close>)
  then show ?thesis by (auto simp: wf_cache_def NewSigCache_def Add_def Exists_def Let_def update_conv')
qed

definition sampleDsa :: "(bytes, bytes) dsa" where
  "sampleDsa = \<lparr>ParsePubKey = Some, ParseSignature = Some, ParseDERSignature = Some, Verify = (\<lambda>pk h r s. pk = h), GetR = (\<lambda>_. 0),
     GetS = (\<lambda>_. 0), SerializeCompressed = id, SerializeSig = id\<rparr>"

theorem sigcache_bounded_witness:
  "wf_cache (Add (\<lambda>_. 0) (Add (\<lambda>_. 0) (NewSigCache 1) [1] [2] [3]) [4] [5] [6] :: (bytes, bytes) SigCache) \<and>
   Exists sampleDsa (Add (\<lambda>_. 0) (Add (\<lambda>_. 0) (NewSigCache 1) [1] [2] [3]) [4] [5] [6]) [4] [5] [6]"
proof -
  have "wf_cache (Add (\<lambda>_. 0) (NewSigCache 1) [1] [2] [3] :: (bytes, bytes) SigCache)"
    "maxEntries (Add (\<lambda>_. 0) (NewSigCache 1) [1] [2] [3] :: (bytes, bytes) SigCache) = 1"
    by (simp_all add: wf_cache_def Add_def NewSigCache_def)
  with sigcache_bounded [of 1 "Add (\<lambda>_. 0) (NewSigCache 1) [1] [2] [3]" "\<lambda>_. 0" "[4]" "[5]" "[6]" sampleDsa]
  show ?thesis by simp
qed

end
