(* ===== verification/Engine.thy ===== *)
theory Engine
  imports SigHash SigCache "HOL-Library.Signed_Division"
begin

unbundle bit_operations_syntax

text \<open>
  The script engine: \<^verbatim>\<open>src/txscript/engine.go\<close> and the opcode handlers of \<^verbatim>\<open>src/txscript/opcode.go\<close>. A
  handler takes the parsed opcode and the engine and returns the engine it leaves, an error, or a
  panic. As the code warns, an engine is not used after an error, so an error carries no engine.

  Hash functions and signature schemes are code outside the package: they are the fields of
  \<open>crypto\<close>, which every handler receives, with the order of the secp256k1 group and the choice the
  signature cache makes when it evicts. Byte slices are values here: two stack elements never share
  memory.
\<close>

section \<open>The engine\<close>

record ('pk, 'sg) crypto =
  c_ripemd160 :: "bytes \<Rightarrow> bytes"
  c_sha1 :: "bytes \<Rightarrow> bytes"
  c_hashB :: "bytes \<Rightarrow> bytes"
  c_secp256k1 :: "('pk, 'sg) dsa"
  c_edwards :: "('pk, 'sg) dsa"
  c_secSchnorr :: "('pk, 'sg) dsa"
  c_bliss :: "('pk, 'sg) pqdsa"
  c_lms :: "('pk, 'sg) pqdsa"
  c_order :: int
  c_pick :: "nat \<Rightarrow> nat"

abbreviation (input) ScriptBip16 :: "32 word" where "ScriptBip16 \<equiv> 0x1"
abbreviation (input) ScriptStrictMultiSig :: "32 word" where "ScriptStrictMultiSig \<equiv> 0x2"
abbreviation (input) ScriptDiscourageUpgradableNops :: "32 word" where "ScriptDiscourageUpgradableNops \<equiv> 0x4"
abbreviation (input) ScriptVerifyCheckLockTimeVerify :: "32 word" where "ScriptVerifyCheckLockTimeVerify \<equiv> 0x8"
abbreviation (input) ScriptVerifyCheckSequenceVerify :: "32 word" where "ScriptVerifyCheckSequenceVerify \<equiv> 0x10"
abbreviation (input) ScriptVerifyCleanStack :: "32 word" where "ScriptVerifyCleanStack \<equiv> 0x20"
abbreviation (input) ScriptVerifyDERSignatures :: "32 word" where "ScriptVerifyDERSignatures \<equiv> 0x40"
abbreviation (input) ScriptVerifyLowS :: "32 word" where "ScriptVerifyLowS \<equiv> 0x80"
abbreviation (input) ScriptVerifyMinimalData :: "32 word" where "ScriptVerifyMinimalData \<equiv> 0x100"
abbreviation (input) ScriptVerifySigPushOnly :: "32 word" where "ScriptVerifySigPushOnly \<equiv> 0x200"
abbreviation (input) ScriptVerifyStrictEncoding :: "32 word" where "ScriptVerifyStrictEncoding \<equiv> 0x400"

definition maxStackSize :: int where "maxStackSize = 1024"

definition halfOrder :: "('pk, 'sg) crypto \<Rightarrow> int" where
  "halfOrder cr = drop_bit 1 (c_order cr)"

text \<open>The value of \<^verbatim>\<open>chaincfg.SigHashOptimization\<close>, and so of \<^verbatim>\<open>optimizeSigVerification\<close>.\<close>

definition SigHashOptimization :: bool where "SigHashOptimization = False"

record ('pk, 'sg) Engine =
  version :: "16 word"
  scripts :: "parsedOpcode list list"
  scriptIdx :: int
  scriptOff :: int
  lastCodeSep :: int
  dstack :: stack
  astack :: stack
  tx :: MsgTx
  txIdx :: int
  condStack :: "int list"
  numOps :: int
  flags :: "32 word"
  sigCache :: "('pk, 'sg) SigCache option"
  bip16 :: bool
  savedFirstStack :: "bytes list"

type_synonym ('pk, 'sg) handler = "parsedOpcode \<Rightarrow> ('pk, 'sg) Engine \<Rightarrow> ('pk, 'sg) Engine sres"

abbreviation (input) OpCondFalse :: int where "OpCondFalse \<equiv> 0"
abbreviation (input) OpCondTrue :: int where "OpCondTrue \<equiv> 1"
abbreviation (input) OpCondSkip :: int where "OpCondSkip \<equiv> 2"

definition hasFlag :: "('pk, 'sg) Engine \<Rightarrow> 32 word \<Rightarrow> bool" where
  "hasFlag vm flag = (flags vm AND flag = flag)"

definition isBranchExecuting :: "('pk, 'sg) Engine \<Rightarrow> bool" where
  "isBranchExecuting vm = (if length (condStack vm) = 0 then True else last (condStack vm) = OpCondTrue)"

text \<open>The calls \<^verbatim>\<open>vm.dstack.PopByteArray()\<close>, \<^verbatim>\<open>vm.dstack.PushInt(n)\<close> and so on.\<close>

definition popBytes :: "('pk, 'sg) Engine \<Rightarrow> (bytes \<times> ('pk, 'sg) Engine) sres" where
  "popBytes vm = bindE (PopByteArray (dstack vm)) (\<lambda>(so, s). Inr (so, vm\<lparr>dstack := s\<rparr>))"

definition popInt :: "int \<Rightarrow> ('pk, 'sg) Engine \<Rightarrow> (int \<times> ('pk, 'sg) Engine) sres" where
  "popInt maxLen vm = bindE (PopInt (dstack vm) maxLen) (\<lambda>(n, s). Inr (n, vm\<lparr>dstack := s\<rparr>))"

definition popBool :: "('pk, 'sg) Engine \<Rightarrow> (bool \<times> ('pk, 'sg) Engine) sres" where
  "popBool vm = bindE (PopBool (dstack vm)) (\<lambda>(b, s). Inr (b, vm\<lparr>dstack := s\<rparr>))"

definition pushBytes :: "bytes \<Rightarrow> ('pk, 'sg) Engine \<Rightarrow> ('pk, 'sg) Engine sres" where
  "pushBytes so vm = Inr (vm\<lparr>dstack := PushByteArray (dstack vm) so\<rparr>)"

definition pushInt :: "int \<Rightarrow> ('pk, 'sg) Engine \<Rightarrow> ('pk, 'sg) Engine sres" where
  "pushInt n vm = bindE (PushInt (dstack vm) n) (\<lambda>s. Inr (vm\<lparr>dstack := s\<rparr>))"

definition pushBool :: "bool \<Rightarrow> ('pk, 'sg) Engine \<Rightarrow> ('pk, 'sg) Engine sres" where
  "pushBool b vm = Inr (vm\<lparr>dstack := PushBool (dstack vm) b\<rparr>)"

definition onStack :: "(stack \<Rightarrow> stack sres) \<Rightarrow> ('pk, 'sg) Engine \<Rightarrow> ('pk, 'sg) Engine sres" where
  "onStack f vm = bindE (f (dstack vm)) (\<lambda>s. Inr (vm\<lparr>dstack := s\<rparr>))"

section \<open>Pushes and flow control\<close>

definition opcodeDisabled :: "('pk, 'sg) handler" where
  "opcodeDisabled op vm = raise ErrStackOpDisabled"

definition opcodeReserved :: "('pk, 'sg) handler" where
  "opcodeReserved op vm = raise ErrStackReservedOpcode"

definition opcodeInvalid :: "('pk, 'sg) handler" where
  "opcodeInvalid op vm = raise ErrStackInvalidOpcode"

definition opcodeFalse :: "('pk, 'sg) handler" where
  "opcodeFalse op vm = pushBytes [] vm"

definition opcodePushData :: "('pk, 'sg) handler" where
  "opcodePushData op vm = pushBytes (pop_data op) vm"

definition opcode1Negate :: "('pk, 'sg) handler" where
  "opcode1Negate op vm = pushInt (- 1) vm"

definition opcodeN :: "('pk, 'sg) handler" where
  "opcodeN op vm = pushInt (uint (pop_value op - (OP_1 - 1))) vm"

definition opcodeNop :: "('pk, 'sg) handler" where
  "opcodeNop op vm =
     (let v = pop_value op
      in if v = OP_NOP1 \<or> OP_NOP4 \<le> v \<and> v \<le> OP_NOP10 \<or> 0xc0 \<le> v \<and> v \<le> 0xf8
         then (if hasFlag vm ScriptDiscourageUpgradableNops then raise (ErrMsg ''reserved for soft-fork upgrades'') else Inr vm)
         else Inr vm)"

definition opcodeIf :: "('pk, 'sg) handler" where
  "opcodeIf op vm =
     bindE (if isBranchExecuting vm
            then bindE (popBool vm) (\<lambda>(ok, vm). Inr (if ok then OpCondTrue else OpCondFalse, vm))
            else Inr (OpCondSkip, vm)) (\<lambda>(condVal, vm).
       Inr (vm\<lparr>condStack := condStack vm @ [condVal]\<rparr>))"

definition opcodeNotIf :: "('pk, 'sg) handler" where
  "opcodeNotIf op vm =
     bindE (if isBranchExecuting vm
            then bindE (popBool vm) (\<lambda>(ok, vm). Inr (if \<not> ok then OpCondTrue else OpCondFalse, vm))
            else Inr (OpCondSkip, vm)) (\<lambda>(condVal, vm).
       Inr (vm\<lparr>condStack := condStack vm @ [condVal]\<rparr>))"

definition opcodeElse :: "('pk, 'sg) handler" where
  "opcodeElse op vm =
     (if length (condStack vm) = 0 then raise ErrStackNoIf
      else let conditionalIdx = length (condStack vm) - 1; c = condStack vm ! conditionalIdx
           in if c = OpCondTrue then Inr (vm\<lparr>condStack := (condStack vm)[conditionalIdx := OpCondFalse]\<rparr>)
              else if c = OpCondFalse then Inr (vm\<lparr>condStack := (condStack vm)[conditionalIdx := OpCondTrue]\<rparr>)
              else Inr vm)"

definition opcodeEndif :: "('pk, 'sg) handler" where
  "opcodeEndif op vm =
     (if length (condStack vm) = 0 then raise ErrStackNoIf else Inr (vm\<lparr>condStack := butlast (condStack vm)\<rparr>))"

definition opcodeVerify :: "('pk, 'sg) handler" where
  "opcodeVerify op vm = bindE (popBool vm) (\<lambda>(verified, vm).
     if \<not> verified then raise ErrStackVerifyFailed else Inr vm)"

definition opcodeReturn :: "('pk, 'sg) handler" where
  "opcodeReturn op vm = raise ErrStackEarlyReturn"

section \<open>Lock times\<close>

abbreviation (input) LockTimeThreshold :: int where "LockTimeThreshold \<equiv> 500000000"
abbreviation (input) MaxTxInSequenceNum :: "32 word" where "MaxTxInSequenceNum \<equiv> 0xffffffff"
abbreviation (input) SequenceLockTimeDisabled :: int where "SequenceLockTimeDisabled \<equiv> 0x80000000"
abbreviation (input) SequenceLockTimeIsSeconds :: int where "SequenceLockTimeIsSeconds \<equiv> 0x400000"
abbreviation (input) SequenceLockTimeMask :: int where "SequenceLockTimeMask \<equiv> 0xffff"

definition verifyLockTime :: "int \<Rightarrow> int \<Rightarrow> int \<Rightarrow> unit sres" where
  "verifyLockTime txLockTime threshold lockTime =
     (if \<not> (txLockTime < threshold \<and> lockTime < threshold \<or> txLockTime \<ge> threshold \<and> lockTime \<ge> threshold)
      then raise (ErrMsg ''mismatched locktime types'')
      else if lockTime > txLockTime then raise (ErrMsg ''locktime requirement not satisfied'')
      else Inr ())"

definition opcodeCheckLockTimeVerify :: "('pk, 'sg) handler" where
  "opcodeCheckLockTimeVerify op vm =
     (if \<not> hasFlag vm ScriptVerifyCheckLockTimeVerify
      then (if hasFlag vm ScriptDiscourageUpgradableNops then raise (ErrMsg ''OP_NOP2 reserved for soft-fork upgrades'') else Inr vm)
      else bindE (PeekByteArray (dstack vm) 0) (\<lambda>so.
        bindE (makeScriptNum so (verifyMinimalData (dstack vm)) 5) (\<lambda>lockTime.
          if lockTime < 0 then raise (ErrMsg ''negative locktime'')
          else bindE (verifyLockTime (uint (LockTime (tx vm))) LockTimeThreshold lockTime) (\<lambda>_.
            bindE (at (txIn (tx vm)) (txIdx vm)) (\<lambda>ti.
              if Sequence ti = MaxTxInSequenceNum then raise (ErrMsg ''transaction input is finalized'')
              else Inr vm)))))"

definition opcodeCheckSequenceVerify :: "('pk, 'sg) handler" where
  "opcodeCheckSequenceVerify op vm =
     (if \<not> hasFlag vm ScriptVerifyCheckSequenceVerify
      then (if hasFlag vm ScriptDiscourageUpgradableNops then raise (ErrMsg ''OP_NOP3 reserved for soft-fork upgrades'') else Inr vm)
      else if txVersion (tx vm) < 2 then raise (ErrMsg ''invalid transaction version'')
      else bindE (PeekByteArray (dstack vm) 0) (\<lambda>so.
        bindE (makeScriptNum so (verifyMinimalData (dstack vm)) 5) (\<lambda>stackSequence.
          if stackSequence < 0 then raise (ErrMsg ''negative sequence'')
          else if stackSequence AND SequenceLockTimeDisabled \<noteq> 0 then Inr vm
          else bindE (at (txIn (tx vm)) (txIdx vm)) (\<lambda>ti.
            let txSequence = uint (Sequence ti); lockTimeMask = SequenceLockTimeIsSeconds OR SequenceLockTimeMask
            in if txSequence AND SequenceLockTimeDisabled \<noteq> 0
               then raise (ErrMsg ''transaction sequence has sequence locktime disabled bit set'')
               else bindE (verifyLockTime (txSequence AND lockTimeMask) SequenceLockTimeIsSeconds
                             (stackSequence AND lockTimeMask)) (\<lambda>_. Inr vm)))))"

section \<open>Stack manipulation\<close>

definition opcodeToAltStack :: "('pk, 'sg) handler" where
  "opcodeToAltStack op vm = bindE (popBytes vm) (\<lambda>(so, vm). Inr (vm\<lparr>astack := PushByteArray (astack vm) so\<rparr>))"

definition opcodeFromAltStack :: "('pk, 'sg) handler" where
  "opcodeFromAltStack op vm = bindE (PopByteArray (astack vm)) (\<lambda>(so, s). pushBytes so (vm\<lparr>astack := s\<rparr>))"

definition opcode2Drop :: "('pk, 'sg) handler" where "opcode2Drop op = onStack (\<lambda>s. DropN s 2)"
definition opcode2Dup :: "('pk, 'sg) handler" where "opcode2Dup op = onStack (\<lambda>s. DupN s 2)"
definition opcode3Dup :: "('pk, 'sg) handler" where "opcode3Dup op = onStack (\<lambda>s. DupN s 3)"
definition opcode2Over :: "('pk, 'sg) handler" where "opcode2Over op = onStack (\<lambda>s. OverN s 2)"
definition opcode2Rot :: "('pk, 'sg) handler" where "opcode2Rot op = onStack (\<lambda>s. RotN s 2)"
definition opcode2Swap :: "('pk, 'sg) handler" where "opcode2Swap op = onStack (\<lambda>s. SwapN s 2)"

definition opcodeIfDup :: "('pk, 'sg) handler" where
  "opcodeIfDup op vm = bindE (PeekByteArray (dstack vm) 0) (\<lambda>so. if asBool so then pushBytes so vm else Inr vm)"

definition opcodeDepth :: "('pk, 'sg) handler" where
  "opcodeDepth op vm = pushInt (Depth (dstack vm)) vm"

definition opcodeDrop :: "('pk, 'sg) handler" where "opcodeDrop op = onStack (\<lambda>s. DropN s 1)"
definition opcodeDup :: "('pk, 'sg) handler" where "opcodeDup op = onStack (\<lambda>s. DupN s 1)"
definition opcodeNip :: "('pk, 'sg) handler" where "opcodeNip op = onStack (\<lambda>s. NipN s 1)"
definition opcodeOver :: "('pk, 'sg) handler" where "opcodeOver op = onStack (\<lambda>s. OverN s 1)"

definition opcodePick :: "('pk, 'sg) handler" where
  "opcodePick op vm = bindE (popInt mathOpCodeMaxScriptNumLen vm) (\<lambda>(val, vm). onStack (\<lambda>s. PickN s (scriptNum_Int32 val)) vm)"

definition opcodeRoll :: "('pk, 'sg) handler" where
  "opcodeRoll op vm = bindE (popInt mathOpCodeMaxScriptNumLen vm) (\<lambda>(val, vm). onStack (\<lambda>s. RollN s (scriptNum_Int32 val)) vm)"

definition opcodeRot :: "('pk, 'sg) handler" where "opcodeRot op = onStack (\<lambda>s. RotN s 1)"
definition opcodeSwap :: "('pk, 'sg) handler" where "opcodeSwap op = onStack (\<lambda>s. SwapN s 1)"
definition opcodeTuck :: "('pk, 'sg) handler" where "opcodeTuck op = onStack Tuck"

section \<open>Splicing\<close>

definition opcodeCat :: "('pk, 'sg) handler" where
  "opcodeCat op vm = bindE (popBytes vm) (\<lambda>(a, vm). bindE (popBytes vm) (\<lambda>(b, vm).
     if length a = 0 \<and> length b > 0 then pushBytes b vm
     else if length b = 0 \<and> length a > 0 then pushBytes a vm
     else if length b = 0 \<and> length a = 0 then pushBytes [] vm
     else if int (length a) + int (length b) > MaxScriptElementSize then raise ErrStackElementTooBig
     else pushBytes (b @ a) vm))"

definition opcodeSubstr :: "('pk, 'sg) handler" where
  "opcodeSubstr op vm =
     bindE (popInt mathOpCodeMaxScriptNumLen vm) (\<lambda>(v0, vm).
     bindE (popInt mathOpCodeMaxScriptNumLen vm) (\<lambda>(v1, vm).
     bindE (popBytes vm) (\<lambda>(a, vm).
       let aLen = int (length a); v0Recast = scriptNum_Int32 v0; v1Recast = scriptNum_Int32 v1
       in if aLen = 0 then pushBytes [] vm
          else if v0Recast < 0 \<or> v1Recast < 0 then raise ErrSubstrIdxNegative
          else if v0Recast > aLen then raise ErrSubstrIdxOutOfBounds
          else if v1Recast > aLen then raise ErrSubstrIdxOutOfBounds
          else if v0Recast > v1Recast then raise ErrSubstrIdxOutOfBounds
          else if v0Recast = v1Recast then pushBytes [] vm
          else bindE (slice a v0Recast v1Recast) (\<lambda>b. pushBytes b vm))))"

definition opcodeLeft :: "('pk, 'sg) handler" where
  "opcodeLeft op vm =
     bindE (popInt mathOpCodeMaxScriptNumLen vm) (\<lambda>(v0, vm).
     bindE (popBytes vm) (\<lambda>(a, vm).
       let aLen = int (length a); v0Recast = scriptNum_Int32 v0
       in if aLen = 0 then pushBytes [] vm
          else if v0Recast < 0 then raise ErrSubstrIdxNegative
          else if v0Recast > aLen then raise ErrSubstrIdxOutOfBounds
          else if v0Recast = 0 then pushBytes [] vm
          else bindE (slice a 0 v0Recast) (\<lambda>b. pushBytes b vm)))"

definition opcodeRight :: "('pk, 'sg) handler" where
  "opcodeRight op vm =
     bindE (popInt mathOpCodeMaxScriptNumLen vm) (\<lambda>(v0, vm).
     bindE (popBytes vm) (\<lambda>(a, vm).
       let aLen = int (length a); v0Recast = scriptNum_Int32 v0
       in if aLen = 0 then pushBytes [] vm
          else if v0Recast < 0 then raise ErrSubstrIdxNegative
          else if v0Recast > aLen then raise ErrSubstrIdxOutOfBounds
          else if v0Recast = aLen then pushBytes [] vm
          else bindE (slice a v0Recast aLen) (\<lambda>b. pushBytes b vm)))"

definition opcodeSize :: "('pk, 'sg) handler" where
  "opcodeSize op vm = bindE (PeekByteArray (dstack vm) 0) (\<lambda>so. pushInt (int (length so)) vm)"

section \<open>Numbers\<close>

text \<open>
  The shape of the unary and binary numeric handlers: pop the operands, the top one first, and push
  the result.
\<close>

definition unaryOp :: "(int \<Rightarrow> int sres) \<Rightarrow> ('pk, 'sg) Engine \<Rightarrow> ('pk, 'sg) Engine sres" where
  "unaryOp f vm = bindE (popInt mathOpCodeMaxScriptNumLen vm) (\<lambda>(m, vm). bindE (f m) (\<lambda>r. pushInt r vm))"

definition binaryOp :: "(int \<Rightarrow> int \<Rightarrow> int sres) \<Rightarrow> ('pk, 'sg) Engine \<Rightarrow> ('pk, 'sg) Engine sres" where
  "binaryOp f vm =
     bindE (popInt mathOpCodeMaxScriptNumLen vm) (\<lambda>(v0, vm).
     bindE (popInt mathOpCodeMaxScriptNumLen vm) (\<lambda>(v1, vm). bindE (f v0 v1) (\<lambda>r. pushInt r vm)))"

definition opcodeInvert :: "('pk, 'sg) handler" where
  "opcodeInvert op = unaryOp (\<lambda>v0. Inr (NOT (scriptNum_Int32 v0)))"

definition opcodeAnd :: "('pk, 'sg) handler" where
  "opcodeAnd op = binaryOp (\<lambda>v0 v1. Inr (scriptNum_Int32 v0 AND scriptNum_Int32 v1))"

definition opcodeOr :: "('pk, 'sg) handler" where
  "opcodeOr op = binaryOp (\<lambda>v0 v1. Inr (scriptNum_Int32 v0 OR scriptNum_Int32 v1))"

definition opcodeXor :: "('pk, 'sg) handler" where
  "opcodeXor op = binaryOp (\<lambda>v0 v1. Inr (scriptNum_Int32 v0 XOR scriptNum_Int32 v1))"

definition opcodeEqual :: "('pk, 'sg) handler" where
  "opcodeEqual op vm = bindE (popBytes vm) (\<lambda>(a, vm). bindE (popBytes vm) (\<lambda>(b, vm). pushBool (a = b) vm))"

definition opcodeEqualVerify :: "('pk, 'sg) handler" where
  "opcodeEqualVerify op vm = bindE (opcodeEqual op vm) (opcodeVerify op)"

definition rotateRight :: "int \<Rightarrow> int \<Rightarrow> int" where
  "rotateRight value count =
     (let v = word_of_int value :: 32 word; c = word_of_int count :: 32 word
      in sint (drop_bit (unat c) v OR push_bit (unat (32 - c)) v))"

definition opcodeRotr :: "('pk, 'sg) handler" where
  "opcodeRotr op = binaryOp (\<lambda>v0 v1.
     let v032 = scriptNum_Int32 v0; v132 = scriptNum_Int32 v1
     in if v032 < 0 then raise ErrNegativeRotation
        else if v032 > 31 then raise ErrRotationOverflow
        else Inr (rotateRight v132 v032))"

definition rotateLeft :: "int \<Rightarrow> int \<Rightarrow> int" where
  "rotateLeft value count =
     (let v = word_of_int value :: 32 word; c = word_of_int count :: 32 word
      in sint (push_bit (unat c) v OR drop_bit (unat (32 - c)) v))"

definition opcodeRotl :: "('pk, 'sg) handler" where
  "opcodeRotl op = binaryOp (\<lambda>v0 v1.
     let v032 = scriptNum_Int32 v0; v132 = scriptNum_Int32 v1
     in if v032 < 0 then raise ErrNegativeRotation
        else if v032 > 31 then raise ErrRotationOverflow
        else Inr (rotateLeft v132 v032))"

definition opcode1Add :: "('pk, 'sg) handler" where "opcode1Add op = unaryOp (\<lambda>m. Inr (wrap64 (m + 1)))"
definition opcode1Sub :: "('pk, 'sg) handler" where "opcode1Sub op = unaryOp (\<lambda>m. Inr (wrap64 (m - 1)))"
definition opcodeNegate :: "('pk, 'sg) handler" where "opcodeNegate op = unaryOp (\<lambda>m. Inr (wrap64 (- m)))"

definition opcodeAbs :: "('pk, 'sg) handler" where
  "opcodeAbs op = unaryOp (\<lambda>m. Inr (if m < 0 then wrap64 (- m) else m))"

definition opcodeNot :: "('pk, 'sg) handler" where
  "opcodeNot op = unaryOp (\<lambda>m. Inr (if m = 0 then 1 else 0))"

definition opcode0NotEqual :: "('pk, 'sg) handler" where
  "opcode0NotEqual op = unaryOp (\<lambda>m. Inr (if m \<noteq> 0 then 1 else m))"

definition opcodeAdd :: "('pk, 'sg) handler" where "opcodeAdd op = binaryOp (\<lambda>v0 v1. Inr (wrap64 (v0 + v1)))"
definition opcodeSub :: "('pk, 'sg) handler" where "opcodeSub op = binaryOp (\<lambda>v0 v1. Inr (wrap64 (v1 - v0)))"

definition opcodeMul :: "('pk, 'sg) handler" where
  "opcodeMul op = binaryOp (\<lambda>v0 v1. Inr (wrap32 (scriptNum_Int32 v0 * scriptNum_Int32 v1)))"

definition opcodeDiv :: "('pk, 'sg) handler" where
  "opcodeDiv op = binaryOp (\<lambda>v0 v1.
     if scriptNum_Int32 v0 = 0 then raise ErrDivideByZero else Inr (wrap32 (scriptNum_Int32 v1 sdiv scriptNum_Int32 v0)))"

definition opcodeMod :: "('pk, 'sg) handler" where
  "opcodeMod op = binaryOp (\<lambda>v0 v1.
     if scriptNum_Int32 v0 = 0 then raise ErrDivideByZero else Inr (wrap32 (scriptNum_Int32 v1 smod scriptNum_Int32 v0)))"

definition opcodeLShift :: "('pk, 'sg) handler" where
  "opcodeLShift op = binaryOp (\<lambda>v0 v1.
     let v032 = scriptNum_Int32 v0; v132 = scriptNum_Int32 v1
     in if v032 < 0 then raise ErrNegativeShift
        else if v032 > 32 then raise ErrShiftOverflow
        else Inr (wrap32 (push_bit (nat v032) v132)))"

definition opcodeRShift :: "('pk, 'sg) handler" where
  "opcodeRShift op = binaryOp (\<lambda>v0 v1.
     let v032 = scriptNum_Int32 v0; v132 = scriptNum_Int32 v1
     in if v032 < 0 then raise ErrNegativeShift
        else if v032 > 32 then raise ErrShiftOverflow
        else Inr (drop_bit (nat v032) v132))"

definition numBool :: "bool \<Rightarrow> int" where "numBool b = (if b then 1 else 0)"

definition opcodeBoolAnd :: "('pk, 'sg) handler" where "opcodeBoolAnd op = binaryOp (\<lambda>v0 v1. Inr (numBool (v0 \<noteq> 0 \<and> v1 \<noteq> 0)))"
definition opcodeBoolOr :: "('pk, 'sg) handler" where "opcodeBoolOr op = binaryOp (\<lambda>v0 v1. Inr (numBool (v0 \<noteq> 0 \<or> v1 \<noteq> 0)))"
definition opcodeNumEqual :: "('pk, 'sg) handler" where "opcodeNumEqual op = binaryOp (\<lambda>v0 v1. Inr (numBool (v0 = v1)))"

definition opcodeNumEqualVerify :: "('pk, 'sg) handler" where
  "opcodeNumEqualVerify op vm = bindE (opcodeNumEqual op vm) (opcodeVerify op)"

definition opcodeNumNotEqual :: "('pk, 'sg) handler" where "opcodeNumNotEqual op = binaryOp (\<lambda>v0 v1. Inr (numBool (v0 \<noteq> v1)))"
definition opcodeLessThan :: "('pk, 'sg) handler" where "opcodeLessThan op = binaryOp (\<lambda>v0 v1. Inr (numBool (v1 < v0)))"
definition opcodeGreaterThan :: "('pk, 'sg) handler" where "opcodeGreaterThan op = binaryOp (\<lambda>v0 v1. Inr (numBool (v1 > v0)))"

definition opcodeLessThanOrEqual :: "('pk, 'sg) handler" where
  "opcodeLessThanOrEqual op = binaryOp (\<lambda>v0 v1. Inr (numBool (v1 \<le> v0)))"

definition opcodeGreaterThanOrEqual :: "('pk, 'sg) handler" where
  "opcodeGreaterThanOrEqual op = binaryOp (\<lambda>v0 v1. Inr (numBool (v1 \<ge> v0)))"

definition opcodeMin :: "('pk, 'sg) handler" where "opcodeMin op = binaryOp (\<lambda>v0 v1. Inr (if v1 < v0 then v1 else v0))"
definition opcodeMax :: "('pk, 'sg) handler" where "opcodeMax op = binaryOp (\<lambda>v0 v1. Inr (if v1 > v0 then v1 else v0))"

definition opcodeWithin :: "('pk, 'sg) handler" where
  "opcodeWithin op vm =
     bindE (popInt mathOpCodeMaxScriptNumLen vm) (\<lambda>(maxVal, vm).
     bindE (popInt mathOpCodeMaxScriptNumLen vm) (\<lambda>(minVal, vm).
     bindE (popInt mathOpCodeMaxScriptNumLen vm) (\<lambda>(x, vm).
       if x \<ge> minVal \<and> x < maxVal then pushInt 1 vm else pushInt 0 vm)))"

section \<open>Hashes\<close>

definition opcodeRipemd160 :: "('pk, 'sg) crypto \<Rightarrow> ('pk, 'sg) handler" where
  "opcodeRipemd160 cr op vm = bindE (popBytes vm) (\<lambda>(buf, vm). pushBytes (c_ripemd160 cr buf) vm)"

definition opcodeSha1 :: "('pk, 'sg) crypto \<Rightarrow> ('pk, 'sg) handler" where
  "opcodeSha1 cr op vm = bindE (popBytes vm) (\<lambda>(buf, vm). pushBytes (c_sha1 cr buf) vm)"

definition opcodeSha256 :: "('pk, 'sg) crypto \<Rightarrow> ('pk, 'sg) handler" where
  "opcodeSha256 cr op vm = bindE (popBytes vm) (\<lambda>(buf, vm). pushBytes (c_hashB cr buf) vm)"

definition opcodeHash160 :: "('pk, 'sg) crypto \<Rightarrow> ('pk, 'sg) handler" where
  "opcodeHash160 cr op vm = bindE (popBytes vm) (\<lambda>(buf, vm). pushBytes (c_ripemd160 cr (c_hashB cr buf)) vm)"

definition opcodeHash256 :: "('pk, 'sg) crypto \<Rightarrow> ('pk, 'sg) handler" where
  "opcodeHash256 cr op vm = bindE (popBytes vm) (\<lambda>(buf, vm). pushBytes (c_hashB cr (c_hashB cr buf)) vm)"


section \<open>Signature checks\<close>

definition subScript :: "('pk, 'sg) Engine \<Rightarrow> parsedOpcode list sres" where
  "subScript vm = bindE (at (scripts vm) (scriptIdx vm)) (\<lambda>s. slice s (lastCodeSep vm) (int (length s)))"

definition checkHashTypeEncoding :: "('pk, 'sg) Engine \<Rightarrow> byte \<Rightarrow> unit sres" where
  "checkHashTypeEncoding vm hashType =
     (if \<not> hasFlag vm ScriptVerifyStrictEncoding then Inr ()
      else let sigHashType = hashType AND NOT SigHashAnyOneCanPay
           in if sigHashType < SigHashAll \<or> sigHashType > SigHashSingle then raise (ErrMsg ''invalid hashtype'') else Inr ())"

definition checkPubKeyEncoding :: "('pk, 'sg) Engine \<Rightarrow> bytes \<Rightarrow> unit sres" where
  "checkPubKeyEncoding vm pubKey =
     (if \<not> hasFlag vm ScriptVerifyStrictEncoding then Inr ()
      else if length pubKey = 33 \<and> (pubKey ! 0 = 0x02 \<or> pubKey ! 0 = 0x03) then Inr ()
      else if length pubKey = 65 \<and> pubKey ! 0 = 0x04 then Inr ()
      else raise ErrStackInvalidPubKey)"

text \<open>\<^verbatim>\<open>big.Int.SetBytes\<close>: the value of a big-endian byte string.\<close>

definition setBytes :: "bytes \<Rightarrow> int" where
  "setBytes bs = fold (\<lambda>b a. a * 256 + uint b) bs 0"

definition checkSignatureEncoding :: "('pk, 'sg) crypto \<Rightarrow> ('pk, 'sg) Engine \<Rightarrow> bytes \<Rightarrow> unit sres" where
  "checkSignatureEncoding cr vm sig =
     (let n = int (length sig)
      in if \<not> hasFlag vm ScriptVerifyDERSignatures \<and> \<not> hasFlag vm ScriptVerifyLowS \<and> \<not> hasFlag vm ScriptVerifyStrictEncoding
      then Inr ()
      else if n < 8 then raise (ErrMsg ''malformed signature: too short'')
      else if n > 72 then raise (ErrMsg ''malformed signature: too long'')
      else bindE (at sig 0) (\<lambda>b0. if b0 \<noteq> 0x30 then raise (ErrMsg ''malformed signature: format has wrong type'')
      else bindE (at sig 1) (\<lambda>b1. if uint b1 \<noteq> n - 2 then raise (ErrMsg ''malformed signature: bad length'')
      else bindE (at sig 3) (\<lambda>b3.
        let rLen = uint b3
        in if rLen + 5 > n then raise (ErrMsg ''malformed signature: S out of bounds'')
      else bindE (at sig (rLen + 5)) (\<lambda>bS.
        let sLen = uint bS
        in if rLen + sLen + 6 \<noteq> n then raise (ErrMsg ''malformed signature: invalid R length'')
      else bindE (at sig 2) (\<lambda>b2. if b2 \<noteq> 0x02 then raise (ErrMsg ''malformed signature: missing first integer marker'')
      else if rLen = 0 then raise (ErrMsg ''malformed signature: R length is zero'')
      else bindE (at sig 4) (\<lambda>b4. if b4 AND 0x80 \<noteq> 0 then raise (ErrMsg ''malformed signature: R value is negative'')
      else bindE (if rLen > 1 \<and> b4 = 0x00 then bindE (at sig 5) (\<lambda>b5. Inr (b5 AND 0x80 = 0)) else Inr False) (\<lambda>badR.
        if badR then raise (ErrMsg ''malformed signature: invalid R value'')
      else bindE (at sig (rLen + 4)) (\<lambda>m. if m \<noteq> 0x02 then raise (ErrMsg ''malformed signature: missing second integer marker'')
      else if sLen = 0 then raise (ErrMsg ''malformed signature: S length is zero'')
      else bindE (at sig (rLen + 6)) (\<lambda>s0. if s0 AND 0x80 \<noteq> 0 then raise (ErrMsg ''malformed signature: S value is negative'')
      else bindE (if sLen > 1 \<and> s0 = 0x00 then bindE (at sig (rLen + 7)) (\<lambda>s1. Inr (s1 AND 0x80 = 0)) else Inr False) (\<lambda>badS.
        if badS then raise (ErrMsg ''malformed signature: invalid S value'')
      else if hasFlag vm ScriptVerifyLowS
      then bindE (slice sig (rLen + 6) (rLen + 6 + sLen)) (\<lambda>sv.
             if setBytes sv > halfOrder cr then raise ErrStackInvalidLowSSignature else Inr ())
      else Inr ())))))))))))"

text \<open>The prefix hash that is passed to \<^verbatim>\<open>calcSignatureHash\<close>; \<^verbatim>\<open>CachedTxHash\<close> stores it in the transaction.\<close>

definition cachedPrefix ::
  "('pk, 'sg) crypto \<Rightarrow> byte \<Rightarrow> ('pk, 'sg) Engine \<Rightarrow> (bytes option \<times> ('pk, 'sg) Engine) sres" where
  "cachedPrefix cr hashType vm =
     (if hashType AND sigHashMask = SigHashAll \<and> SigHashOptimization
      then (case CachedTxHash (c_hashB cr) (tx vm) of
              Inl _ \<Rightarrow> panic
            | Inr (h, t) \<Rightarrow> Inr (Some h, vm\<lparr>tx := t\<rparr>))
      else Inr (None, vm))"

definition signatureHash ::
  "('pk, 'sg) crypto \<Rightarrow> parsedOpcode list \<Rightarrow> byte \<Rightarrow> ('pk, 'sg) Engine \<Rightarrow> (bytes sres \<times> ('pk, 'sg) Engine) sres" where
  "signatureHash cr script hashType vm = bindE (cachedPrefix cr hashType vm) (\<lambda>(prefixHash, vm).
     Inr (calcSignatureHash (c_hashB cr) SigHashOptimization script hashType (tx vm) (txIdx vm) prefixHash, vm))"

text \<open>\<^verbatim>\<open>copy(sigHash[:], hash)\<close>, the check of the cache and the verification, as both signature opcodes do them.\<close>

definition toHash :: "bytes \<Rightarrow> bytes" where
  "toHash h = take 32 (h @ replicate 32 0)"

definition verifyWithCache ::
  "('pk, 'sg) crypto \<Rightarrow> 'pk \<Rightarrow> 'sg \<Rightarrow> bytes \<Rightarrow> ('pk, 'sg) Engine \<Rightarrow> bool \<times> ('pk, 'sg) Engine" where
  "verifyWithCache cr pubKey sig hash vm =
     (let ec = c_secp256k1 cr
      in case sigCache vm of
           Some c \<Rightarrow>
             (let sigHash = toHash hash
              in if Exists ec c sigHash sig pubKey then (True, vm)
                 else if Verify ec pubKey hash (GetR ec sig) (GetS ec sig)
                 then (True, vm\<lparr>sigCache := Some (Add (c_pick cr) c sigHash sig pubKey)\<rparr>)
                 else (False, vm))
         | None \<Rightarrow> (Verify ec pubKey hash (GetR ec sig) (GetS ec sig), vm))"

definition parseSig :: "('pk, 'sg) crypto \<Rightarrow> ('pk, 'sg) Engine \<Rightarrow> bytes \<Rightarrow> 'sg option" where
  "parseSig cr vm sigBytes =
     (if hasFlag vm ScriptVerifyStrictEncoding \<or> hasFlag vm ScriptVerifyDERSignatures
      then ParseDERSignature (c_secp256k1 cr) sigBytes else ParseSignature (c_secp256k1 cr) sigBytes)"

definition opcodeCheckSig :: "('pk, 'sg) crypto \<Rightarrow> ('pk, 'sg) handler" where
  "opcodeCheckSig cr op vm =
     bindE (popBytes vm) (\<lambda>(pkBytes, vm).
     bindE (popBytes vm) (\<lambda>(fullSigBytes, vm).
       if length fullSigBytes < 1 then pushBool False vm
       else let hashType = last fullSigBytes; sigBytes = butlast fullSigBytes
       in bindE (checkHashTypeEncoding vm hashType) (\<lambda>_.
          bindE (checkSignatureEncoding cr vm sigBytes) (\<lambda>_.
          bindE (checkPubKeyEncoding vm pkBytes) (\<lambda>_.
          bindE (subScript vm) (\<lambda>script.
          let script = removeOpcodeByData script fullSigBytes
          in bindE (signatureHash cr script hashType vm) (\<lambda>(h, vm).
             case h of
               Inl GoPanic \<Rightarrow> panic
             | Inl (GoErr _) \<Rightarrow> pushBool False vm
             | Inr hash \<Rightarrow>
                 (case ParsePubKey (c_secp256k1 cr) pkBytes of
                    None \<Rightarrow> pushBool False vm
                  | Some pubKey \<Rightarrow>
                      (case parseSig cr vm sigBytes of
                         None \<Rightarrow> pushBool False vm
                       | Some sig \<Rightarrow>
                           (let (valid, vm) = verifyWithCache cr pubKey sig hash vm in pushBool valid vm))))))))))"

definition opcodeCheckSigVerify :: "('pk, 'sg) crypto \<Rightarrow> ('pk, 'sg) handler" where
  "opcodeCheckSigVerify cr op vm = bindE (opcodeCheckSig cr op vm) (opcodeVerify op)"

record 'sg parsedSigInfo =
  si_signature :: bytes
  si_parsedSignature :: "'sg option"
  si_parsed :: bool

text \<open>The loops that pop a given number of elements.\<close>

primrec popMany :: "nat \<Rightarrow> ('pk, 'sg) Engine \<Rightarrow> (bytes list \<times> ('pk, 'sg) Engine) sres" where
  "popMany 0 vm = Inr ([], vm)"
| "popMany (Suc n) vm = bindE (popBytes vm) (\<lambda>(x, vm). bindE (popMany n vm) (\<lambda>(xs, vm). Inr (x # xs, vm)))"

text \<open>
  The parsing of a signature inside the loop of \<^verbatim>\<open>opcodeCheckMultiSig\<close>: the updated entry and, unless
  the loop moves on to the next key, the parsed signature.
\<close>

definition sigOfInfo ::
  "('pk, 'sg) crypto \<Rightarrow> ('pk, 'sg) Engine \<Rightarrow> 'sg parsedSigInfo \<Rightarrow> ('sg parsedSigInfo \<times> 'sg option) sres" where
  "sigOfInfo cr vm si =
     (if \<not> si_parsed si
      then bindE (checkHashTypeEncoding vm (last (si_signature si))) (\<lambda>_.
           bindE (checkSignatureEncoding cr vm (butlast (si_signature si))) (\<lambda>_.
           case parseSig cr vm (butlast (si_signature si)) of
             None \<Rightarrow> Inr (si\<lparr>si_parsed := True\<rparr>, None)
           | Some s \<Rightarrow> Inr (si\<lparr>si_parsed := True, si_parsedSignature := Some s\<rparr>, Some s)))
      else Inr (si, si_parsedSignature si))"

text \<open>
  The loop of \<^verbatim>\<open>opcodeCheckMultiSig\<close>, with its counters; it returns the value of \<^verbatim>\<open>success\<close>. The arguments are
  \<^verbatim>\<open>numSignatures\<close>, \<^verbatim>\<open>numPubKeys\<close>, \<^verbatim>\<open>pubKeyIdx\<close>, \<^verbatim>\<open>signatureIdx\<close> and the entries of the signatures.
\<close>

function multiSigLoop ::
  "('pk, 'sg) crypto \<Rightarrow> parsedOpcode list \<Rightarrow> bytes list \<Rightarrow> int \<Rightarrow> int \<Rightarrow> int \<Rightarrow> int \<Rightarrow> 'sg parsedSigInfo list \<Rightarrow>
     ('pk, 'sg) Engine \<Rightarrow> (bool \<times> ('pk, 'sg) Engine) sres" where
  "multiSigLoop cr script pubKeys numSignatures numPubKeys pubKeyIdx signatureIdx sigs vm =
     (if numSignatures > 0
      then let pubKeyIdx = pubKeyIdx + 1; numPubKeys = numPubKeys - 1
           in if numSignatures > numPubKeys then Inr (False, vm)
              else bindE (at sigs signatureIdx) (\<lambda>sigInfo.
                bindE (at pubKeys pubKeyIdx) (\<lambda>pubKey.
                  if length (si_signature sigInfo) = 0
                  then multiSigLoop cr script pubKeys numSignatures numPubKeys pubKeyIdx signatureIdx sigs vm
                  else bindE (sigOfInfo cr vm sigInfo) (\<lambda>(sigInfo', parsed).
                    let sigs = sigs[nat signatureIdx := sigInfo']
                    in case parsed of
                         None \<Rightarrow> multiSigLoop cr script pubKeys numSignatures numPubKeys pubKeyIdx signatureIdx sigs vm
                       | Some parsedSig \<Rightarrow>
                           bindE (checkPubKeyEncoding vm pubKey) (\<lambda>_.
                           case ParsePubKey (c_secp256k1 cr) pubKey of
                             None \<Rightarrow> multiSigLoop cr script pubKeys numSignatures numPubKeys pubKeyIdx signatureIdx sigs vm
                           | Some parsedPubKey \<Rightarrow>
                               bindE (signatureHash cr script (last (si_signature sigInfo)) vm) (\<lambda>(h, vm).
                               bindE h (\<lambda>hash.
                                 let (valid, vm) = verifyWithCache cr parsedPubKey parsedSig hash vm
                                 in if valid
                                    then multiSigLoop cr script pubKeys (numSignatures - 1) numPubKeys pubKeyIdx (signatureIdx + 1) sigs vm
                                    else multiSigLoop cr script pubKeys numSignatures numPubKeys pubKeyIdx signatureIdx sigs vm))))))
      else Inr (True, vm))"
  by pat_completeness auto
termination
  by (relation "measure (\<lambda>(cr, script, pubKeys, numSignatures, numPubKeys, rest). nat numPubKeys)") auto

declare multiSigLoop.simps [simp del]

definition opcodeCheckMultiSig :: "('pk, 'sg) crypto \<Rightarrow> ('pk, 'sg) handler" where
  "opcodeCheckMultiSig cr op vm =
     bindE (popInt mathOpCodeMaxScriptNumLen vm) (\<lambda>(numKeys, vm).
     let numPubKeys = scriptNum_Int32 numKeys
     in if numPubKeys < 0 \<or> numPubKeys > MaxPubKeysPerMultiSig then raise ErrStackTooManyPubKeys
     else let vm = vm\<lparr>numOps := numOps vm + numPubKeys\<rparr>
     in if numOps vm > MaxOpsPerScript then raise ErrStackTooManyOperations
     else bindE (popMany (nat numPubKeys) vm) (\<lambda>(pubKeys, vm).
     bindE (popInt mathOpCodeMaxScriptNumLen vm) (\<lambda>(numSigs, vm).
     let numSignatures = scriptNum_Int32 numSigs
     in if numSignatures < 0 then raise (ErrMsg ''number of signatures is less than 0'')
     else if numSignatures > numPubKeys then raise (ErrMsg ''more signatures than pubkeys'')
     else bindE (popMany (nat numSignatures) vm) (\<lambda>(signatures, vm).
     bindE (subScript vm) (\<lambda>script.
     let script = fold (\<lambda>sig s. removeOpcodeByData s sig) signatures script;
         sigs = map (\<lambda>sig. \<lparr>si_signature = sig, si_parsedSignature = None, si_parsed = False\<rparr>) signatures
     in bindE (multiSigLoop cr script pubKeys numSignatures (numPubKeys + 1) (- 1) 0 sigs vm) (\<lambda>(success, vm).
        pushBool success vm))))))"

definition opcodeCheckMultiSigVerify :: "('pk, 'sg) crypto \<Rightarrow> ('pk, 'sg) handler" where
  "opcodeCheckMultiSigVerify cr op vm = bindE (opcodeCheckMultiSig cr op vm) (opcodeVerify op)"

text \<open>The verification of \<^verbatim>\<open>opcodeCheckSigAlt\<close> once the suite is known; a failure to parse gives false.\<close>

definition verifyAlt :: "('pk, 'sg) crypto \<Rightarrow> int \<Rightarrow> bytes \<Rightarrow> bytes \<Rightarrow> bytes \<Rightarrow> bool" where
  "verifyAlt cr sigType pkBytes sigBytes hash =
     (let ecCheck = (\<lambda>ec. case ParsePubKey ec pkBytes of None \<Rightarrow> False
                      | Some pubKey \<Rightarrow> (case ParseSignature ec sigBytes of None \<Rightarrow> False
                         | Some sig \<Rightarrow> Verify ec pubKey hash (GetR ec sig) (GetS ec sig)));
          pqCheck = (\<lambda>pq. case pq_ParsePubKey pq pkBytes of None \<Rightarrow> False
                      | Some pubKey \<Rightarrow> (case pq_ParseSignature pq sigBytes of None \<Rightarrow> False
                         | Some sig \<Rightarrow> pq_Verify pq pubKey hash sig))
      in if sigType = edwards then ecCheck (c_edwards cr)
         else if sigType = secSchnorr then ecCheck (c_secSchnorr cr)
         else if sigType = bliss then pqCheck (c_bliss cr)
         else if sigType = lm then pqCheck (c_lms cr)
         else False)"

definition opcodeCheckSigAlt :: "('pk, 'sg) crypto \<Rightarrow> ('pk, 'sg) handler" where
  "opcodeCheckSigAlt cr op vm =
     bindE (popInt altSigSuitesMaxscriptNumLen vm) (\<lambda>(sigTypeNum, vm).
     let sigType = uint (word_of_int sigTypeNum :: byte)
     in if sigType = 0 then pushBool False vm
     else if sigType \<noteq> edwards \<and> sigType \<noteq> secSchnorr \<and> sigType \<noteq> bliss \<and> sigType \<noteq> lm then pushBool True vm
     else bindE (popBytes vm) (\<lambda>(pkBytes, vm).
       if sigType = edwards \<and> length pkBytes \<noteq> 32 \<or> sigType = secSchnorr \<and> length pkBytes \<noteq> 33 \<or>
          sigType = bliss \<and> length pkBytes \<noteq> 897 \<or> sigType = lm \<and> length pkBytes \<noteq> 32 then pushBool False vm
     else bindE (popBytes vm) (\<lambda>(fullSigBytes, vm).
       if (sigType = edwards \<or> sigType = secSchnorr) \<and> length fullSigBytes \<noteq> 65 then pushBool False vm
     else bindE (at fullSigBytes (int (length fullSigBytes) - 1)) (\<lambda>hashType.
     bindE (slice fullSigBytes 0 (int (length fullSigBytes) - 1)) (\<lambda>sigBytes.
     bindE (checkHashTypeEncoding vm hashType) (\<lambda>_.
     bindE (subScript vm) (\<lambda>script.
     let script = removeOpcodeByData script fullSigBytes
     in bindE (signatureHash cr script hashType vm) (\<lambda>(h, vm).
        case h of
          Inl GoPanic \<Rightarrow> panic
        | Inl (GoErr _) \<Rightarrow> pushBool False vm
        | Inr hash \<Rightarrow> pushBool (verifyAlt cr sigType pkBytes sigBytes hash) vm))))))))"

definition opcodeCheckSigAltVerify :: "('pk, 'sg) crypto \<Rightarrow> ('pk, 'sg) handler" where
  "opcodeCheckSigAltVerify cr op vm = bindE (opcodeCheckSigAlt cr op vm) (opcodeVerify op)"


section \<open>The opcode table\<close>

text \<open>
  The handlers of \<^verbatim>\<open>opcodeArray\<close>: the data pushes, small integers and undefined opcodes by ranges, the
  others one by one in the order of the table.
\<close>

definition opTable :: "('pk, 'sg) crypto \<Rightarrow> (byte \<times> ('pk, 'sg) handler) list" where
  "opTable cr =
    [(OP_FALSE, opcodeFalse), (OP_1NEGATE, opcode1Negate), (OP_RESERVED, opcodeReserved),
     (OP_NOP, opcodeNop), (OP_VER, opcodeReserved), (OP_IF, opcodeIf), (OP_NOTIF, opcodeNotIf), (OP_VERIF, opcodeReserved),
     (OP_VERNOTIF, opcodeReserved), (OP_ELSE, opcodeElse), (OP_ENDIF, opcodeEndif), (OP_VERIFY, opcodeVerify),
     (OP_RETURN, opcodeReturn), (OP_CHECKLOCKTIMEVERIFY, opcodeCheckLockTimeVerify),
     (OP_CHECKSEQUENCEVERIFY, opcodeCheckSequenceVerify),
     (OP_TOALTSTACK, opcodeToAltStack), (OP_FROMALTSTACK, opcodeFromAltStack), (OP_2DROP, opcode2Drop), (OP_2DUP, opcode2Dup),
     (OP_3DUP, opcode3Dup), (OP_2OVER, opcode2Over), (OP_2ROT, opcode2Rot), (OP_2SWAP, opcode2Swap), (OP_IFDUP, opcodeIfDup),
     (OP_DEPTH, opcodeDepth), (OP_DROP, opcodeDrop), (OP_DUP, opcodeDup), (OP_NIP, opcodeNip), (OP_OVER, opcodeOver),
     (OP_PICK, opcodePick), (OP_ROLL, opcodeRoll), (OP_ROT, opcodeRot), (OP_SWAP, opcodeSwap), (OP_TUCK, opcodeTuck),
     (OP_CAT, opcodeCat), (OP_SUBSTR, opcodeSubstr), (OP_LEFT, opcodeLeft), (OP_RIGHT, opcodeRight), (OP_SIZE, opcodeSize),
     (OP_INVERT, opcodeInvert), (OP_AND, opcodeAnd), (OP_OR, opcodeOr), (OP_XOR, opcodeXor),
     (OP_EQUAL, opcodeEqual), (OP_EQUALVERIFY, opcodeEqualVerify), (OP_ROTR, opcodeRotr), (OP_ROTL, opcodeRotl),
     (OP_1ADD, opcode1Add), (OP_1SUB, opcode1Sub), (OP_2MUL, opcodeNop), (OP_2DIV, opcodeNop), (OP_NEGATE, opcodeNegate),
     (OP_ABS, opcodeAbs), (OP_NOT, opcodeNot), (OP_0NOTEQUAL, opcode0NotEqual), (OP_ADD, opcodeAdd), (OP_SUB, opcodeSub),
     (OP_MUL, opcodeMul), (OP_DIV, opcodeDiv), (OP_MOD, opcodeMod), (OP_LSHIFT, opcodeLShift), (OP_RSHIFT, opcodeRShift),
     (OP_BOOLAND, opcodeBoolAnd), (OP_BOOLOR, opcodeBoolOr), (OP_NUMEQUAL, opcodeNumEqual),
     (OP_NUMEQUALVERIFY, opcodeNumEqualVerify), (OP_NUMNOTEQUAL, opcodeNumNotEqual), (OP_LESSTHAN, opcodeLessThan),
     (OP_GREATERTHAN, opcodeGreaterThan), (OP_LESSTHANOREQUAL, opcodeLessThanOrEqual),
     (OP_GREATERTHANOREQUAL, opcodeGreaterThanOrEqual), (OP_MIN, opcodeMin), (OP_MAX, opcodeMax), (OP_WITHIN, opcodeWithin),
     (OP_RIPEMD160, opcodeRipemd160 cr), (OP_SHA1, opcodeSha1 cr), (OP_SHA256, opcodeSha256 cr), (OP_HASH160, opcodeHash160 cr),
     (OP_HASH256, opcodeHash256 cr), (OP_CODESEPARATOR, opcodeDisabled), (OP_CHECKSIG, opcodeCheckSig cr),
     (OP_CHECKSIGVERIFY, opcodeCheckSigVerify cr), (OP_CHECKMULTISIG, opcodeCheckMultiSig cr),
     (OP_CHECKMULTISIGVERIFY, opcodeCheckMultiSigVerify cr),
     (OP_NOP1, opcodeNop), (OP_NOP4, opcodeNop), (OP_NOP5, opcodeNop), (OP_NOP6, opcodeNop), (OP_NOP7, opcodeNop),
     (OP_NOP8, opcodeNop), (OP_NOP9, opcodeNop), (OP_NOP10, opcodeNop),
     (OP_SSTX, opcodeNop), (OP_SSGEN, opcodeNop), (OP_SSRTX, opcodeNop), (OP_SSTXCHANGE, opcodeNop),
     (OP_CHECKSIGALT, opcodeCheckSigAlt cr), (OP_CHECKSIGALTVERIFY, opcodeCheckSigAltVerify cr)]"

definition opfunc :: "('pk, 'sg) crypto \<Rightarrow> byte \<Rightarrow> ('pk, 'sg) handler" where
  "opfunc cr v =
     (if OP_DATA_1 \<le> v \<and> v \<le> OP_PUSHDATA4 then opcodePushData
      else if OP_1 \<le> v \<and> v \<le> OP_16 then opcodeN
      else if 0xc0 \<le> v \<and> v \<le> 0xf8 then opcodeNop
      else if OP_SMALLDATA \<le> v then opcodeInvalid
      else case map_of (opTable cr) v of Some f \<Rightarrow> f | None \<Rightarrow> opcodeInvalid)"

section \<open>Execution\<close>

definition executeOpcode :: "('pk, 'sg) crypto \<Rightarrow> ('pk, 'sg) handler" where
  "executeOpcode cr pop vm =
     (if isDisabled pop then raise ErrStackOpDisabled
      else if alwaysIllegal pop then raise ErrStackReservedOpcode
      else bindE (if pop_value pop > OP_16
                  then let vm = vm\<lparr>numOps := numOps vm + 1\<rparr>
                       in if numOps vm > MaxOpsPerScript then raise ErrStackTooManyOperations else Inr vm
                  else if int (length (pop_data pop)) > MaxScriptElementSize then raise ErrStackElementTooBig
                  else Inr vm) (\<lambda>vm.
        if \<not> isBranchExecuting vm \<and> \<not> isConditional pop then Inr vm
        else bindE (if verifyMinimalData (dstack vm) \<and> isBranchExecuting vm \<and> pop_value pop \<le> OP_PUSHDATA4
                    then checkMinimalDataPush pop else Inr ()) (\<lambda>_.
               opfunc cr (pop_value pop) pop vm)))"

definition validPC :: "('pk, 'sg) Engine \<Rightarrow> unit sres" where
  "validPC vm =
     (if scriptIdx vm \<ge> int (length (scripts vm)) then raise (ErrMsg ''past input scripts'')
      else bindE (at (scripts vm) (scriptIdx vm)) (\<lambda>s.
        if scriptOff vm \<ge> int (length s) then raise (ErrMsg ''past input scripts'') else Inr ()))"

text \<open>The engine returned has the top of the stack popped, as the code leaves it.\<close>

definition CheckErrorCondition :: "bool \<Rightarrow> ('pk, 'sg) Engine \<Rightarrow> ('pk, 'sg) Engine sres" where
  "CheckErrorCondition finalScript vm =
     (if scriptIdx vm < int (length (scripts vm)) then raise ErrStackScriptUnfinished
      else if finalScript \<and> hasFlag vm ScriptVerifyCleanStack \<and> Depth (dstack vm) \<noteq> 1 then raise ErrStackCleanStack
      else if Depth (dstack vm) < 1 then raise ErrStackEmptyStack
      else bindE (popBool vm) (\<lambda>(v, vm). if \<not> v then raise ErrStackScriptFailed else Inr vm))"

definition getStack :: "stack \<Rightarrow> bytes list sres" where
  "getStack s =
     (if Depth s < 0 then panic
      else Inr (rev (map (\<lambda>i. case PeekByteArray s (int i) of Inr so \<Rightarrow> so | Inl _ \<Rightarrow> []) [0..<nat (Depth s)])))"

text \<open>Dropping all elements; the error of \<^verbatim>\<open>DropN(0)\<close> is ignored.\<close>

definition dropAll :: "stack \<Rightarrow> stack" where
  "dropAll s = (case DropN s (Depth s) of Inr s' \<Rightarrow> s' | Inl _ \<Rightarrow> s)"

definition setStack :: "stack \<Rightarrow> bytes list \<Rightarrow> stack" where
  "setStack s data = fold (\<lambda>x s. PushByteArray s x) data (dropAll s)"

definition GetStack :: "('pk, 'sg) Engine \<Rightarrow> bytes list sres" where
  "GetStack vm = getStack (dstack vm)"

definition SetStack :: "bytes list \<Rightarrow> ('pk, 'sg) Engine \<Rightarrow> ('pk, 'sg) Engine" where
  "SetStack data vm = vm\<lparr>dstack := setStack (dstack vm) data\<rparr>"

definition GetAltStack :: "('pk, 'sg) Engine \<Rightarrow> bytes list sres" where
  "GetAltStack vm = getStack (astack vm)"

definition SetAltStack :: "bytes list \<Rightarrow> ('pk, 'sg) Engine \<Rightarrow> ('pk, 'sg) Engine" where
  "SetAltStack data vm = vm\<lparr>astack := setStack (astack vm) data\<rparr>"

text \<open>The end of a script: the part of \<^verbatim>\<open>Step\<close> that moves on to the next script.\<close>

definition nextScript :: "('pk, 'sg) Engine \<Rightarrow> (bool \<times> ('pk, 'sg) Engine) sres" where
  "nextScript vm =
     (if length (condStack vm) \<noteq> 0 then raise ErrStackMissingEndif
      else let vm = vm\<lparr>astack := dropAll (astack vm), numOps := 0, scriptOff := 0\<rparr>
      in bindE (if scriptIdx vm = 0 \<and> bip16 vm
                then bindE (getStack (dstack vm)) (\<lambda>st. Inr (vm\<lparr>scriptIdx := scriptIdx vm + 1, savedFirstStack := st\<rparr>))
                else if scriptIdx vm = 1 \<and> bip16 vm
                then bindE (CheckErrorCondition False (vm\<lparr>scriptIdx := scriptIdx vm + 1\<rparr>)) (\<lambda>vm.
                     let saved = savedFirstStack vm
                     in bindE (at saved (int (length saved) - 1)) (\<lambda>script.
                        bindE (parseOk script) (\<lambda>pops.
                        bindE (slice saved 0 (int (length saved) - 1)) (\<lambda>rest.
                          Inr (vm\<lparr>scripts := scripts vm @ [pops], dstack := setStack (dstack vm) rest\<rparr>)))))
                else Inr (vm\<lparr>scriptIdx := scriptIdx vm + 1\<rparr>)) (\<lambda>vm.
         bindE (if scriptIdx vm < int (length (scripts vm))
                then bindE (at (scripts vm) (scriptIdx vm)) (\<lambda>s.
                       Inr (if scriptOff vm \<ge> int (length s) then vm\<lparr>scriptIdx := scriptIdx vm + 1\<rparr> else vm))
                else Inr vm) (\<lambda>vm.
           Inr (scriptIdx vm \<ge> int (length (scripts vm)), vm\<lparr>lastCodeSep := 0\<rparr>))))"

definition Step :: "('pk, 'sg) crypto \<Rightarrow> ('pk, 'sg) Engine \<Rightarrow> (bool \<times> ('pk, 'sg) Engine) sres" where
  "Step cr vm =
     bindE (validPC vm) (\<lambda>_.
     bindE (at (scripts vm) (scriptIdx vm)) (\<lambda>script.
     bindE (at script (scriptOff vm)) (\<lambda>opc.
     bindE (executeOpcode cr opc vm) (\<lambda>vm.
       if wrap32 (Depth (dstack vm) + Depth (astack vm)) > maxStackSize then raise ErrStackOverflow
       else let vm = vm\<lparr>scriptOff := scriptOff vm + 1\<rparr>
       in bindE (at (scripts vm) (scriptIdx vm)) (\<lambda>script.
            if scriptOff vm \<ge> int (length script) then nextScript vm else Inr (False, vm))))))"

text \<open>The loop of \<^verbatim>\<open>Execute\<close>: \<open>None\<close> would be a loop that does not end.\<close>

partial_function (option) executeLoop ::
  "('pk, 'sg) crypto \<Rightarrow> ('pk, 'sg) Engine \<Rightarrow> ('pk, 'sg) Engine sres option" where
  "executeLoop cr vm = (case Step cr vm of
     Inl e \<Rightarrow> Some (Inl e)
   | Inr (fin, vm') \<Rightarrow> if fin then Some (Inr vm') else executeLoop cr vm')"

definition Execute :: "('pk, 'sg) crypto \<Rightarrow> ('pk, 'sg) Engine \<Rightarrow> ('pk, 'sg) Engine sres option" where
  "Execute cr vm =
     (if version vm \<noteq> DefaultScriptVersion then Some (Inr vm)
      else map_option (\<lambda>r. bindE r (CheckErrorCondition True)) (executeLoop cr vm))"

section \<open>Construction\<close>

definition NewEngine ::
  "bytes \<Rightarrow> MsgTx \<Rightarrow> int \<Rightarrow> 32 word \<Rightarrow> 16 word \<Rightarrow> ('pk, 'sg) SigCache option \<Rightarrow> ('pk, 'sg) Engine sres" where
  "NewEngine scriptPubKey mtx idx fl scriptVersion sc =
     (if idx < 0 \<or> idx \<ge> int (length (txIn mtx)) then raise ErrInvalidIndex
      else let scriptSig = SignatureScript (txIn mtx ! nat idx);
               vm = \<lparr>version = scriptVersion, scripts = [], scriptIdx = 0, scriptOff = 0, lastCodeSep = 0,
                     dstack = \<lparr>stk = [], verifyMinimalData = False\<rparr>, astack = \<lparr>stk = [], verifyMinimalData = False\<rparr>,
                     tx = zeroMsgTx, txIdx = 0, condStack = [], numOps = 0, flags = fl, sigCache = sc,
                     bip16 = False, savedFirstStack = []\<rparr>
      in if hasFlag vm ScriptVerifyCleanStack \<and> \<not> hasFlag vm ScriptBip16 then raise ErrInvalidFlags
      else if hasFlag vm ScriptVerifySigPushOnly \<and> \<not> IsPushOnlyScript scriptSig then raise ErrStackNonPushOnly
      else bindE (if scriptVersion = DefaultScriptVersion then HasP2SHScriptSigStakeOpCodes scriptVersion scriptSig scriptPubKey
                  else Inr ()) (\<lambda>_.
      bindE (if int (length scriptSig) > maxScriptSize then raise ErrStackLongScript else parseOk scriptSig) (\<lambda>sigPops.
      bindE (if int (length scriptPubKey) > maxScriptSize then raise ErrStackLongScript else parseOk scriptPubKey) (\<lambda>pkPops.
      let vm = vm\<lparr>scripts := [sigPops, pkPops]\<rparr>;
          vm = (if length scriptSig = 0 then vm\<lparr>scriptIdx := scriptIdx vm + 1\<rparr> else vm)
      in bindE (if hasFlag vm ScriptBip16 \<and> isAnyKindOfScriptHash pkPops
                then (if \<not> isPushOnly sigPops then raise ErrStackP2SHNonPushOnly else Inr (vm\<lparr>bip16 := True\<rparr>))
                else Inr vm) (\<lambda>vm.
         let vm = (if hasFlag vm ScriptVerifyMinimalData
                   then vm\<lparr>dstack := (dstack vm)\<lparr>verifyMinimalData := True\<rparr>, astack := (astack vm)\<lparr>verifyMinimalData := True\<rparr>\<rparr>
                   else vm)
         in Inr (vm\<lparr>tx := mtx, txIdx := idx\<rparr>))))))"

end
