(* ===== verification/EngineSafe.thy ===== *)
theory EngineSafe
  imports Engine
begin

unbundle bit_operations_syntax

text \<open>
  Safety of the script engine: no handler reads or slices outside the data it was given, the stacks,
  their elements and the operation count stay within their limits, and execution ends.

  The proofs run on a small calculus: \<open>wp A m Q\<close> says that the result \<open>m\<close>, if it is a value,
  satisfies \<open>Q\<close>, and that it is no panic unless \<open>A\<close>. Each primitive has a rule, and \<open>keeps n vm0 vm\<close>
  says that \<open>vm\<close> came from \<open>vm0\<close> by changing the stacks within their limits, and that these are at
  most \<open>n\<close> elements higher.
\<close>

section \<open>The calculus\<close>

definition wp :: "bool \<Rightarrow> ('e, 'a) result \<Rightarrow> ('a \<Rightarrow> bool) \<Rightarrow> bool" where
  "wp A m Q = (case m of Inr x \<Rightarrow> Q x | Inl GoPanic \<Rightarrow> A | Inl (GoErr _) \<Rightarrow> True)"

named_theorems wp_rules \<open>rules for results that may not panic\<close>

lemma wp_simps [simp]: "wp A (Inr x) Q = Q x" "wp A (raise e) Q" "wp A panic Q = A"
  by (simp_all add: wp_def)

lemma wp_Inr [wp_rules]: "Q x \<Longrightarrow> wp A (Inr x) Q"
  by simp

lemma wp_raise [wp_rules]: "wp A (raise e) Q"
  by simp

lemma wp_bind: "wp A (bindE m f) Q = wp A m (\<lambda>x. wp A (f x) Q)"
  by (simp add: wp_def split: sum.splits failure.splits)

lemma wp_mono: "wp A m P \<Longrightarrow> (\<And>x. m = Inr x \<Longrightarrow> P x \<Longrightarrow> Q x) \<Longrightarrow> wp A m Q"
  by (simp add: wp_def split: sum.splits failure.splits)

lemma wp_bindI: "wp A m P \<Longrightarrow> (\<And>x. P x \<Longrightarrow> wp A (f x) Q) \<Longrightarrow> wp A (bindE m f) Q"
  unfolding wp_bind by (rule wp_mono)

lemma wp_if [wp_rules]: "(c \<Longrightarrow> wp A m Q) \<Longrightarrow> (\<not> c \<Longrightarrow> wp A m' Q) \<Longrightarrow> wp A (if c then m else m') Q"
  by simp

lemma wp_allow: "wp False m Q \<Longrightarrow> wp A m Q"
  by (simp add: wp_def split: sum.splits failure.splits)

lemma wp_iff: "wp A m Q \<longleftrightarrow> (m = panic \<longrightarrow> A) \<and> (\<forall>x. m = Inr x \<longrightarrow> Q x)"
  by (auto simp: wp_def split: sum.splits failure.splits)

section \<open>What a handler keeps\<close>

definition elems :: "stack \<Rightarrow> bool" where
  "elems s \<longleftrightarrow> list_all (\<lambda>x. length x \<le> 8192) (stk s)"

definition height :: "('pk, 'sg) Engine \<Rightarrow> int" where
  "height vm = int (length (stk (dstack vm))) + int (length (stk (astack vm)))"

definition frame :: "('pk, 'sg) Engine \<Rightarrow> ('pk, 'sg) Engine \<Rightarrow> bool" where
  "frame vm0 vm \<longleftrightarrow> version vm = version vm0 \<and> scripts vm = scripts vm0 \<and> scriptIdx vm = scriptIdx vm0 \<and>
     scriptOff vm = scriptOff vm0 \<and> lastCodeSep vm = lastCodeSep vm0 \<and> tx vm = tx vm0 \<and> txIdx vm = txIdx vm0 \<and>
     flags vm = flags vm0 \<and> bip16 vm = bip16 vm0 \<and> savedFirstStack vm = savedFirstStack vm0 \<and>
     verifyMinimalData (dstack vm) = verifyMinimalData (dstack vm0) \<and>
     verifyMinimalData (astack vm) = verifyMinimalData (astack vm0)"

definition inRange :: "('pk, 'sg) Engine \<Rightarrow> bool" where
  "inRange vm \<longleftrightarrow> height vm \<le> 1024 \<and> elems (dstack vm) \<and> elems (astack vm) \<and> numOps vm \<le> 255 \<and>
     0 \<le> scriptIdx vm \<and> scriptIdx vm < int (length (scripts vm)) \<and> lastCodeSep vm = 0 \<and>
     0 \<le> txIdx vm \<and> txIdx vm < int (length (txIn (tx vm)))"

definition keeps :: "int \<Rightarrow> ('pk, 'sg) Engine \<Rightarrow> ('pk, 'sg) Engine \<Rightarrow> bool" where
  "keeps n vm0 vm \<longleftrightarrow> inRange vm0 \<and> frame vm0 vm \<and> elems (dstack vm) \<and> elems (astack vm) \<and>
     height vm \<le> height vm0 + n \<and> numOps vm0 \<le> numOps vm \<and> numOps vm \<le> 255"

lemma frame_refl [simp]: "frame vm vm"
  by (simp add: frame_def)

lemma keeps_refl: "inRange vm \<Longrightarrow> keeps 0 vm vm"
  by (simp add: keeps_def inRange_def)

lemma keeps_mono: "keeps n vm0 vm \<Longrightarrow> n \<le> m \<Longrightarrow> keeps m vm0 vm"
  by (simp add: keeps_def)

lemma keeps_small:
  assumes "keeps n vm0 vm" "n \<le> 100"
  shows "small_stack (dstack vm)" "small_stack (astack vm)" "length (stk (dstack vm)) < 2000" "length (stk (astack vm)) < 2000"
  using assms by (auto simp: keeps_def inRange_def height_def small_stack_def)

lemma keeps_flag: "keeps n vm0 vm \<Longrightarrow> hasFlag vm f = hasFlag vm0 f"
  by (simp add: keeps_def frame_def hasFlag_def)

lemma keeps_update [simp]:
  "keeps n vm0 (vm\<lparr>condStack := c\<rparr>) = keeps n vm0 vm"
  "keeps n vm0 (vm\<lparr>sigCache := sc\<rparr>) = keeps n vm0 vm"
  by (simp_all add: keeps_def frame_def height_def)

lemma elems_last: "elems s \<Longrightarrow> stk s \<noteq> [] \<Longrightarrow> length (last (stk s)) \<le> 8192"
  by (simp add: elems_def list_all_iff)

lemma elems_nth: "elems s \<Longrightarrow> i < length (stk s) \<Longrightarrow> length (tops s ! i) \<le> 8192"
  by (auto simp: elems_def list_all_iff rev_nth)

lemma elems_sub: "elems s \<Longrightarrow> set (stk t) \<subseteq> set (stk s) \<Longrightarrow> elems t"
  by (auto simp: elems_def list_all_iff)

lemma elems_push [simp]: "elems (PushByteArray s x) \<longleftrightarrow> elems s \<and> length x \<le> 8192"
  by (auto simp: elems_def PushByteArray_def)

section \<open>Rules for the primitives\<close>

lemma wp_popBytes [wp_rules]:
  assumes "keeps n vm0 vm" "n \<le> 100"
    "\<And>x vm'. length x \<le> 8192 \<Longrightarrow> keeps (n - 1) vm0 vm' \<Longrightarrow> wp A (f (x, vm')) Q"
  shows "wp A (bindE (popBytes vm) f) Q"
proof (cases "stk (dstack vm) = []")
  case True
  then show ?thesis using keeps_small(1) [OF assms(1,2)] by (simp add: popBytes_def PopByteArray_eq)
next
  case False
  let ?vm = "vm\<lparr>dstack := (dstack vm)\<lparr>stk := butlast (stk (dstack vm))\<rparr>\<rparr>"
  have "set (butlast (stk (dstack vm))) \<subseteq> set (stk (dstack vm))" by (auto dest: in_set_butlastD)
  then have "keeps (n - 1) vm0 ?vm"
    using assms(1) False elems_sub [of "dstack vm" "dstack ?vm"]
    by (cases "stk (dstack vm)") (auto simp: keeps_def frame_def height_def)
  moreover have "length (last (stk (dstack vm))) \<le> 8192"
    using assms(1) False by (intro elems_last) (simp_all add: keeps_def)
  ultimately show ?thesis using assms(3) False keeps_small(1) [OF assms(1,2)]
    by (simp add: popBytes_def PopByteArray_eq)
qed

lemma popInt_popBytes:
  "popInt l vm = bindE (popBytes vm) (\<lambda>(so, vm'). bindE (makeScriptNum so (verifyMinimalData (dstack vm)) l) (\<lambda>n. Inr (n, vm')))"
  by (simp add: popInt_def popBytes_def PopInt_def bindE_assoc split_def)

lemma wp_popInt [wp_rules]:
  assumes "keeps n vm0 vm" "n \<le> 100" "0 < l" "l \<le> 8"
    "\<And>x vm'. \<bar>x\<bar> < 2 ^ (8 * nat l - 1) \<Longrightarrow> keeps (n - 1) vm0 vm' \<Longrightarrow> wp A (f (x, vm')) Q"
  shows "wp A (bindE (popInt l vm) f) Q"
  unfolding popInt_popBytes bindE_assoc
proof (rule wp_popBytes [OF assms(1,2)])
  fix x :: bytes and vm' :: "('a, 'b) Engine"
  assume k: "keeps (n - 1) vm0 vm'"
  have "wp A (makeScriptNum x (verifyMinimalData (dstack vm)) l) (\<lambda>m. wp A (f (m, vm')) Q)"
    unfolding wp_iff [of A "makeScriptNum x _ _"]
    using makeScriptNum_no_panic makeScriptNum_bound [OF _ assms(3,4)] assms(5) [OF _ k] by blast
  then show "wp A (bindE (case (x, vm') of (so, vm') \<Rightarrow> bindE (makeScriptNum so (verifyMinimalData (dstack vm)) l)
      (\<lambda>n. Inr (n, vm'))) f) Q"
    by (simp add: wp_bind)
qed

lemma wp_mathInt [wp_rules]:
  assumes "keeps n vm0 vm" "n \<le> 100"
    "\<And>x vm'. - (2 ^ 31) < x \<Longrightarrow> x < 2 ^ 31 \<Longrightarrow> keeps (n - 1) vm0 vm' \<Longrightarrow> wp A (f (x, vm')) Q"
  shows "wp A (bindE (popInt mathOpCodeMaxScriptNumLen vm) f) Q"
  by (rule wp_popInt [OF assms(1,2)]) (use assms(3) in \<open>auto simp: mathOpCodeMaxScriptNumLen_def abs_less_iff\<close>)

lemma wp_altInt [wp_rules]:
  assumes "keeps n vm0 vm" "n \<le> 100" "\<And>x vm'. keeps (n - 1) vm0 vm' \<Longrightarrow> wp A (f (x, vm')) Q"
  shows "wp A (bindE (popInt altSigSuitesMaxscriptNumLen vm) f) Q"
  by (rule wp_popInt [OF assms(1,2)]) (use assms(3) in \<open>auto simp: altSigSuitesMaxscriptNumLen_def\<close>)

lemma wp_popBool [wp_rules]:
  assumes "keeps n vm0 vm" "n \<le> 100" "\<And>x vm'. keeps (n - 1) vm0 vm' \<Longrightarrow> wp A (f (x, vm')) Q"
  shows "wp A (bindE (popBool vm) f) Q"
proof -
  have "popBool vm = bindE (popBytes vm) (\<lambda>(so, vm). Inr (asBool so, vm))"
    by (simp add: popBool_def popBytes_def PopBool_def bindE_assoc split_def)
  then show ?thesis using wp_popBytes [OF assms(1,2), of A "\<lambda>(so, vm). f (asBool so, vm)" Q] assms(3)
    by (simp add: bindE_assoc split_def)
qed

lemma keeps_push: "keeps n vm0 vm \<Longrightarrow> length x \<le> 8192 \<Longrightarrow> keeps (n + 1) vm0 (vm\<lparr>dstack := PushByteArray (dstack vm) x\<rparr>)"
  by (auto simp: keeps_def frame_def height_def) (auto simp: PushByteArray_def)

lemma wp_pushBytes [wp_rules]:
  assumes "keeps n vm0 vm" "n + 1 \<le> m" "length x \<le> 8192"
  shows "wp A (pushBytes x vm) (keeps m vm0)"
  using keeps_mono [OF keeps_push [OF assms(1,3)] assms(2)] by (simp add: pushBytes_def)

lemma wp_pushBool [wp_rules]:
  assumes "keeps n vm0 vm" "n + 1 \<le> m"
  shows "wp A (pushBool b vm) (keeps m vm0)"
  using keeps_mono [OF keeps_push [OF assms(1), of "fromBool b"] assms(2)] by (simp add: pushBool_def PushBool_def fromBool_def)

lemma wp_pushInt [wp_rules]:
  assumes "keeps n vm0 vm" "n + 1 \<le> m" "- (2 ^ 63) < x" "x < 2 ^ 63"
  shows "wp A (pushInt x vm) (keeps m vm0)"
proof -
  obtain v where v: "scriptNum_Bytes x = Inr v" using Bytes_no_panic [OF assms(3,4)] by blast
  have "length v \<le> 8" using assms(3,4) by (intro Bytes_length [OF v]) (simp_all add: abs_less_iff)
  with keeps_mono [OF keeps_push [OF assms(1), of v] assms(2)] show ?thesis by (simp add: pushInt_def PushInt_def v)
qed

lemma wp_onStack [wp_rules]:
  assumes "keeps n vm0 vm" "n + k \<le> m"
    "wp A (f (dstack vm)) (\<lambda>s. elems s \<and> verifyMinimalData s = verifyMinimalData (dstack vm) \<and>
       int (length (stk s)) \<le> int (length (stk (dstack vm))) + k)"
  shows "wp A (onStack f vm) (keeps m vm0)"
  unfolding onStack_def
  by (rule wp_bindI [OF assms(3)]) (use assms(1,2) in \<open>auto simp: keeps_def frame_def height_def\<close>)

lemma wp_peek [wp_rules]:
  assumes "keeps n vm0 vm" "n \<le> 100" "\<And>x. length x \<le> 8192 \<Longrightarrow> wp A (f x) Q"
  shows "wp A (bindE (PeekByteArray (dstack vm) i) f) Q"
  using keeps_small(1) [OF assms(1,2)] assms(3) elems_nth [of "dstack vm" "nat i"] assms(1)
  by (auto simp: PeekByteArray_eq keeps_def)

section \<open>The handlers\<close>

text \<open>
  The two places where the code can panic: the signature encoding check, which runs under one of
  three flags, and \<^verbatim>\<open>opcodeCheckSigAlt\<close>.
\<close>

definition derChecked :: "('pk, 'sg) Engine \<Rightarrow> bool" where
  "derChecked vm \<longleftrightarrow> hasFlag vm ScriptVerifyDERSignatures \<or> hasFlag vm ScriptVerifyLowS \<or> hasFlag vm ScriptVerifyStrictEncoding"

definition mayPanic :: "byte \<Rightarrow> ('pk, 'sg) Engine \<Rightarrow> bool" where
  "mayPanic v vm \<longleftrightarrow> OP_CHECKSIG \<le> v \<and> v \<le> OP_CHECKMULTISIGVERIFY \<and> derChecked vm \<or> v = OP_CHECKSIGALT \<or> v = OP_CHECKSIGALTVERIFY"

definition handlerOK :: "byte \<Rightarrow> ('pk, 'sg) handler \<Rightarrow> bool" where
  "handlerOK v h \<longleftrightarrow> (\<forall>op vm. inRange vm \<longrightarrow> (v \<le> OP_16 \<longrightarrow> length (pop_data op) \<le> 8192) \<longrightarrow> wp (mayPanic v vm) (h op vm) (keeps 3 vm))"

lemma handlerI: "(\<And>op vm. inRange vm \<Longrightarrow> keeps 0 vm vm \<Longrightarrow> (v \<le> OP_16 \<Longrightarrow> length (pop_data op) \<le> 8192) \<Longrightarrow>
    wp (mayPanic v vm) (h op vm) (keeps 3 vm)) \<Longrightarrow> handlerOK v h"
  by (simp add: handlerOK_def keeps_refl)

lemma keeps_3: "keeps n vm0 vm \<Longrightarrow> n \<le> 3 \<Longrightarrow> keeps 3 vm0 vm"
  by (rule keeps_mono)

named_theorems handlers \<open>the handlers that are safe\<close>


lemma push_handlers [handlers]:
  "handlerOK v opcodeDisabled" "handlerOK v opcodeReserved" "handlerOK v opcodeInvalid" "handlerOK v opcodeFalse"
  "handlerOK v opcode1Negate" "handlerOK v opcodeReturn"
  unfolding opcodeDisabled_def opcodeReserved_def opcodeInvalid_def opcodeFalse_def opcode1Negate_def opcodeReturn_def
  by (rule handlerI, (rule wp_rules | assumption | simp)+)+

lemma opcodePushData_ok: "v \<le> OP_16 \<Longrightarrow> handlerOK v opcodePushData"
  unfolding opcodePushData_def by (rule handlerI, (rule wp_rules | assumption | simp)+)

lemma opcodeN_ok [handlers]: "handlerOK v opcodeN"
proof (rule handlerI)
  fix op :: parsedOpcode and vm :: "('a, 'b) Engine"
  assume k: "keeps 0 vm vm"
  let ?n = "uint (pop_value op - (OP_1 - 1))"
  have "?n < 2 ^ 63" by (rule order.strict_trans [OF uint_byte_bounds(2)]) simp
  moreover have "- (2 ^ 63) < ?n" by (rule order.strict_trans2 [OF _ uint_byte_bounds(1)]) simp
  ultimately show "wp (mayPanic v vm) (opcodeN op vm) (keeps 3 vm)"
    unfolding opcodeN_def by (intro wp_pushInt [OF k]) simp_all
qed

lemma keeps_0_3: "keeps 0 vm0 vm \<Longrightarrow> keeps 3 vm0 vm"
  by (erule keeps_3) simp

lemma opcodeNop_ok [handlers]: "handlerOK v opcodeNop"
  by (rule handlerI) (simp add: opcodeNop_def Let_def keeps_0_3)

lemma cond_handlers [handlers]:
  "handlerOK v opcodeElse" "handlerOK v opcodeEndif"
  by (rule handlerI; simp add: opcodeElse_def opcodeEndif_def Let_def keeps_0_3)+

lemma opcodeIf_ok [handlers]: "handlerOK v opcodeIf"
  unfolding opcodeIf_def if_distrib [of "\<lambda>m. bindE m f" for f] bindE_assoc
  by (rule handlerI, rule wp_if, rule wp_rules, assumption, simp, simp add: keeps_3, simp add: keeps_0_3)

lemma opcodeNotIf_ok [handlers]: "handlerOK v opcodeNotIf"
  unfolding opcodeNotIf_def if_distrib [of "\<lambda>m. bindE m f" for f] bindE_assoc
  by (rule handlerI, rule wp_if, rule wp_rules, assumption, simp, simp add: keeps_3, simp add: keeps_0_3)

lemma opcodeVerify_wp:
  assumes "keeps n vm0 vm" "n \<le> 3"
  shows "wp A (opcodeVerify op vm) (keeps 3 vm0)"
  unfolding opcodeVerify_def by (rule wp_rules, rule assms(1)) (use assms(2) in \<open>auto intro: keeps_3\<close>)

lemma opcodeVerify_ok [handlers]: "handlerOK v opcodeVerify"
  by (rule handlerI) (rule opcodeVerify_wp, auto)

lemma wp_makeNum [wp_rules]: "(\<And>n. wp A (f n) Q) \<Longrightarrow> wp A (bindE (makeScriptNum v rm l) f) Q"
  by (rule wp_bindI [where P = "\<lambda>_. True"]) (auto simp: wp_iff makeScriptNum_no_panic)

lemma wp_verifyLockTime [wp_rules]: "wp A (f ()) Q \<Longrightarrow> wp A (bindE (verifyLockTime a b c) f) Q"
  by (simp add: verifyLockTime_def)

lemma wp_txIn [wp_rules]:
  assumes "keeps n vm0 vm" "\<And>ti. wp A (f ti) Q"
  shows "wp A (bindE (at (txIn (tx vm)) (txIdx vm)) f) Q"
  using assms by (simp add: keeps_def frame_def inRange_def at_def)

lemma lockTime_ok [handlers]: "handlerOK v opcodeCheckLockTimeVerify" "handlerOK v opcodeCheckSequenceVerify"
  unfolding opcodeCheckLockTimeVerify_def opcodeCheckSequenceVerify_def Let_def
  by (rule handlerI, (rule wp_rules | assumption | simp add: keeps_0_3; fail)+)+

lemma wp_push_alt:
  assumes "keeps n vm0 vm" "n + 1 \<le> m" "length x \<le> 8192"
  shows "keeps m vm0 (vm\<lparr>astack := PushByteArray (astack vm) x\<rparr>)"
  using assms by (auto simp: keeps_def frame_def height_def) (auto simp: PushByteArray_def)

lemma alt_handlers [handlers]: "handlerOK v opcodeToAltStack"
  unfolding opcodeToAltStack_def
  by (rule handlerI, rule wp_rules, assumption, simp, simp, rule wp_push_alt, assumption, simp_all)

lemma opcodeFromAltStack_ok [handlers]: "handlerOK v opcodeFromAltStack"
proof (rule handlerI)
  fix op :: parsedOpcode and vm :: "('a, 'b) Engine"
  assume k: "keeps 0 vm vm"
  note small = keeps_small(2) [OF k]
  show "wp (mayPanic v vm) (opcodeFromAltStack op vm) (keeps 3 vm)"
  proof (cases "stk (astack vm) = []")
    case False
    let ?vm = "vm\<lparr>astack := (astack vm)\<lparr>stk := butlast (stk (astack vm))\<rparr>\<rparr>"
    have "set (butlast (stk (astack vm))) \<subseteq> set (stk (astack vm))" by (auto dest: in_set_butlastD)
    then have "keeps 0 vm ?vm" using k False elems_sub [of "astack vm" "astack ?vm"]
      by (auto simp: keeps_def frame_def height_def)
    moreover have "length (last (stk (astack vm))) \<le> 8192" using k False by (intro elems_last) (simp_all add: keeps_def)
    ultimately show ?thesis using False small
      by (simp add: opcodeFromAltStack_def PopByteArray_eq wp_pushBytes)
  qed (use small in \<open>simp add: opcodeFromAltStack_def PopByteArray_eq\<close>)
qed

definition grows :: "stack \<Rightarrow> stack \<Rightarrow> bool" where
  "grows s s' \<longleftrightarrow> elems s' \<and> verifyMinimalData s' = verifyMinimalData s \<and> int (length (stk s')) \<le> int (length (stk s)) + 3"

lemma stack_handler:
  assumes "\<And>op. h op = onStack f" "\<And>s. length (stk s) < 2000 \<Longrightarrow> elems s \<Longrightarrow> wp False (f s) (grows s)"
  shows "handlerOK v h"
proof (rule handlerI)
  fix op :: parsedOpcode and vm :: "('a, 'b) Engine"
  assume k: "keeps 0 vm vm"
  then have "elems (dstack vm)" by (simp add: keeps_def)
  with wp_allow [OF assms(2) [of "dstack vm"]] keeps_small(3) [OF k]
  show "wp (mayPanic v vm) (h op vm) (keeps 3 vm)"
    unfolding assms(1) by (intro wp_onStack [OF k, where k = 3]) (simp_all add: grows_def [abs_def])
qed

lemma elems_stk: "elems (s\<lparr>stk := xs\<rparr>) \<longleftrightarrow> list_all (\<lambda>x. length x \<le> 8192) xs"
  by (simp add: elems_def)

lemma list_all_take_drop: "list_all P xs \<Longrightarrow> list_all P (take n xs)" "list_all P xs \<Longrightarrow> list_all P (drop n xs)"
  by (auto simp: list_all_iff dest: in_set_takeD in_set_dropD)

lemma wp_stack_ops:
  assumes "length (stk s) < 2000" "elems s"
  shows "0 < n \<Longrightarrow> wp False (DropN s (int n)) (grows s)"
    "0 < n \<Longrightarrow> n \<le> 3 \<Longrightarrow> wp False (DupN s (int n)) (grows s)"
    "0 < n \<Longrightarrow> n \<le> 3 \<Longrightarrow> wp False (OverN s (int n)) (grows s)"
    "0 < n \<Longrightarrow> n \<le> 3 \<Longrightarrow> wp False (SwapN s (int n)) (grows s)"
    "0 < n \<Longrightarrow> n \<le> 3 \<Longrightarrow> wp False (RotN s (int n)) (grows s)"
    "wp False (NipN s i) (grows s)" "wp False (PickN s i) (grows s)" "wp False (RollN s i) (grows s)"
  using assms elems_nth [OF assms(2), of "nat i"]
  by (auto simp: stack_op_eqs grows_def small_stack_def elems_stk elems_def nat_less_iff intro!: list_all_take_drop)

lemma wp_Tuck: "length (stk s) < 2000 \<Longrightarrow> elems s \<Longrightarrow> wp False (Tuck s) (grows s)"
  by (cases "stk s" rule: rev_cases; cases "butlast (stk s)" rule: rev_cases)
     (auto simp: Tuck_eq small_stack_def elems_def grows_def butlast_append)

lemma num_nat: "(1 :: int) = int 1" "(2 :: int) = int 2" "(3 :: int) = int 3"
  by simp_all

lemma stack_handlers [handlers]:
  "handlerOK v opcode2Drop" "handlerOK v opcode2Dup" "handlerOK v opcode3Dup" "handlerOK v opcode2Over" "handlerOK v opcode2Rot"
  "handlerOK v opcode2Swap" "handlerOK v opcodeDrop" "handlerOK v opcodeDup" "handlerOK v opcodeNip" "handlerOK v opcodeOver"
  "handlerOK v opcodeRot" "handlerOK v opcodeSwap" "handlerOK v opcodeTuck"
  unfolding opcode2Drop_def opcode2Dup_def opcode3Dup_def opcode2Over_def opcode2Rot_def opcode2Swap_def
    opcodeDrop_def opcodeDup_def opcodeNip_def opcodeOver_def opcodeRot_def opcodeSwap_def opcodeTuck_def num_nat
  by (rule stack_handler, rule refl, rule wp_stack_ops wp_Tuck, assumption, assumption, (simp; fail)?, (simp; fail)?)+

lemma opcodeIfDup_ok [handlers]: "handlerOK v opcodeIfDup"
  unfolding opcodeIfDup_def by (rule handlerI, (rule wp_rules | assumption | simp add: keeps_0_3; fail)+)

lemma Depth_eq: "keeps n vm0 vm \<Longrightarrow> n \<le> 100 \<Longrightarrow> Depth (dstack vm) = int (length (stk (dstack vm)))"
  by (simp add: Depth_def keeps_small)

lemma opcodeDepth_ok [handlers]: "handlerOK v opcodeDepth"
proof (rule handlerI)
  fix op :: parsedOpcode and vm :: "('a, 'b) Engine"
  assume k: "keeps 0 vm vm"
  then show "wp (mayPanic v vm) (opcodeDepth op vm) (keeps 3 vm)"
    unfolding opcodeDepth_def using keeps_small(3) [OF k] by (intro wp_pushInt [OF k]) (simp_all add: Depth_eq)
qed

lemma wp_onStack_grows:
  assumes "keeps n vm0 vm" "n \<le> 0" "\<And>s. length (stk s) < 2000 \<Longrightarrow> elems s \<Longrightarrow> wp False (f s) (grows s)"
  shows "wp A (onStack f vm) (keeps 3 vm0)"
proof (rule wp_onStack [OF assms(1), where k = 3])
  have "elems (dstack vm)" using assms(1) by (simp add: keeps_def)
  with assms(2) keeps_small(3) [OF assms(1)] show "wp A (f (dstack vm)) (\<lambda>s. elems s \<and> verifyMinimalData s = verifyMinimalData (dstack vm) \<and>
    int (length (stk s)) \<le> int (length (stk (dstack vm))) + 3)"
    using wp_allow [OF assms(3) [of "dstack vm"]] by (simp add: grows_def [abs_def])
qed (use assms(2) in simp)

lemma pick_handlers [handlers]: "handlerOK v opcodePick" "handlerOK v opcodeRoll"
  unfolding opcodePick_def opcodeRoll_def
  by (rule handlerI, rule wp_mathInt, assumption, simp, simp, rule wp_onStack_grows, assumption, simp,
      rule wp_stack_ops, assumption, assumption)+

lemma wp_slice [wp_rules]:
  assumes "length xs \<le> 8192" "0 \<le> lo" "lo \<le> hi" "hi \<le> int (length xs)" "\<And>ys. length ys \<le> 8192 \<Longrightarrow> wp A (f ys) Q"
  shows "wp A (bindE (slice xs lo hi) f) Q"
  using assms by (simp add: slice_def)

lemma prod_wp [wp_rules]: "wp A (f a b) Q \<Longrightarrow> wp A (case (a, b) of (x, y) \<Rightarrow> f x y) Q"
  by simp

lemma opcodeCat_ok [handlers]: "handlerOK v opcodeCat"
  unfolding opcodeCat_def MaxScriptElementSize_def
  by (rule handlerI, (rule wp_rules | assumption | simp; fail | linarith)+)

lemma splice_handlers [handlers]: "handlerOK v opcodeSubstr" "handlerOK v opcodeLeft" "handlerOK v opcodeRight"
  unfolding opcodeSubstr_def opcodeLeft_def opcodeRight_def Let_def
  by (rule handlerI, (rule wp_rules | assumption | simp; fail | linarith)+)+

lemma opcodeSize_ok [handlers]: "handlerOK v opcodeSize"
  unfolding opcodeSize_def
  by (rule handlerI, (rule wp_rules | assumption | simp; fail)+)


definition num64 :: "int \<Rightarrow> bool" where
  "num64 r \<longleftrightarrow> - (2 ^ 63) < r \<and> r < 2 ^ 63"

lemma unary_handler:
  assumes "\<And>op. h op = unaryOp f" "\<And>m. - (2 ^ 31) < m \<Longrightarrow> m < 2 ^ 31 \<Longrightarrow> wp False (f m) num64"
  shows "handlerOK v h"
  unfolding handlerOK_def assms(1) unaryOp_def
  by (intro allI impI, rule wp_mathInt, erule keeps_refl, simp, rule prod_wp, rule wp_bindI [OF wp_allow [OF assms(2)]], assumption,
      assumption, rule wp_pushInt, assumption, simp_all add: num64_def)

lemma binary_handler:
  assumes "\<And>op. h op = binaryOp f" "\<And>a b. - (2 ^ 31) < a \<Longrightarrow> a < 2 ^ 31 \<Longrightarrow> - (2 ^ 31) < b \<Longrightarrow> b < 2 ^ 31 \<Longrightarrow> wp False (f a b) num64"
  shows "handlerOK v h"
  unfolding handlerOK_def assms(1) binaryOp_def
  by (intro allI impI, rule wp_mathInt, erule keeps_refl, simp, rule prod_wp, rule wp_mathInt, assumption, simp, rule prod_wp,
      rule wp_bindI [OF wp_allow [OF assms(2)]], assumption, assumption, assumption, assumption, rule wp_pushInt, assumption,
      simp_all add: num64_def)

lemma num64_32: "- (2 ^ 31) \<le> r \<Longrightarrow> r < 2 ^ 31 \<Longrightarrow> num64 r"
  by (simp add: num64_def)

lemma num64_Int32: "num64 (scriptNum_Int32 a)"
  using Int32_bounds by (intro num64_32) auto

lemma num64_wrap32 [simp]: "num64 (wrap32 a)"
  using wrap32_bounds by (intro num64_32) auto

lemma num64_sint [simp]: "num64 (sint (w :: 32 word))"
  using sint_range_size [of w] by (intro num64_32) (simp_all add: word_size)

lemma num64_bits [simp]:
  "num64 (NOT (scriptNum_Int32 a))" "num64 (scriptNum_Int32 a AND scriptNum_Int32 b)" "num64 (scriptNum_Int32 a OR scriptNum_Int32 b)"
  "num64 (scriptNum_Int32 a XOR scriptNum_Int32 b)" "num64 (drop_bit n (scriptNum_Int32 a))"
proof -
  have i: "wrap32 (scriptNum_Int32 x) = scriptNum_Int32 x" for x using Int32_bounds [of x] by (intro wrap32_id) auto
  have "wrap32 (NOT (wrap32 a)) = NOT (wrap32 a)" "wrap32 (wrap32 a AND wrap32 b) = wrap32 a AND wrap32 b"
    "wrap32 (wrap32 a OR wrap32 b) = wrap32 a OR wrap32 b" "wrap32 (wrap32 a XOR wrap32 b) = wrap32 a XOR wrap32 b"
    "wrap32 (drop_bit n (wrap32 a)) = drop_bit n (wrap32 a)" for a b
    by (auto simp: wrap32_def bit_eq_iff bit_simps min_def)
  then show "num64 (NOT (scriptNum_Int32 a))" "num64 (scriptNum_Int32 a AND scriptNum_Int32 b)" "num64 (scriptNum_Int32 a OR scriptNum_Int32 b)"
    "num64 (scriptNum_Int32 a XOR scriptNum_Int32 b)" "num64 (drop_bit n (scriptNum_Int32 a))"
    by (metis i num64_wrap32)+
qed

lemma wrap64_small: "- (2 ^ 32) \<le> r \<Longrightarrow> r \<le> 2 ^ 32 \<Longrightarrow> num64 (wrap64 r)"
  by (simp add: num64_def wrap64_id)

lemma unary_handlers [handlers]:
  "handlerOK v opcodeInvert" "handlerOK v opcode1Add" "handlerOK v opcode1Sub" "handlerOK v opcodeNegate" "handlerOK v opcodeAbs"
  "handlerOK v opcodeNot" "handlerOK v opcode0NotEqual"
  unfolding opcodeInvert_def opcode1Add_def opcode1Sub_def opcodeNegate_def opcodeAbs_def opcodeNot_def opcode0NotEqual_def
  by (rule unary_handler, rule refl, simp add: wrap64_small num64_32, (simp add: num64_32; fail)?)+

lemma binary_handlers [handlers]:
  "handlerOK v opcodeAnd" "handlerOK v opcodeOr" "handlerOK v opcodeXor" "handlerOK v opcodeRotr" "handlerOK v opcodeRotl"
  "handlerOK v opcodeAdd" "handlerOK v opcodeSub" "handlerOK v opcodeMul" "handlerOK v opcodeDiv" "handlerOK v opcodeMod"
  "handlerOK v opcodeLShift" "handlerOK v opcodeRShift" "handlerOK v opcodeBoolAnd" "handlerOK v opcodeBoolOr"
  "handlerOK v opcodeNumEqual" "handlerOK v opcodeNumNotEqual" "handlerOK v opcodeLessThan" "handlerOK v opcodeGreaterThan"
  "handlerOK v opcodeLessThanOrEqual" "handlerOK v opcodeGreaterThanOrEqual" "handlerOK v opcodeMin" "handlerOK v opcodeMax"
  unfolding opcodeAnd_def opcodeOr_def opcodeXor_def opcodeRotr_def opcodeRotl_def opcodeAdd_def opcodeSub_def opcodeMul_def
    opcodeDiv_def opcodeMod_def opcodeLShift_def opcodeRShift_def opcodeBoolAnd_def opcodeBoolOr_def opcodeNumEqual_def
    opcodeNumNotEqual_def opcodeLessThan_def opcodeGreaterThan_def opcodeLessThanOrEqual_def opcodeGreaterThanOrEqual_def
    opcodeMin_def opcodeMax_def rotateRight_def rotateLeft_def numBool_def Let_def
  by (rule binary_handler, rule refl, simp add: wrap64_small num64_32)+

lemma opcodeEqual_wp: "inRange vm \<Longrightarrow> wp A (opcodeEqual op vm) (keeps 0 vm)"
  unfolding opcodeEqual_def
  by (drule keeps_refl, (rule wp_rules | assumption | simp; fail)+)

lemma opcodeNumEqual_wp: "inRange vm \<Longrightarrow> wp A (opcodeNumEqual op vm) (keeps 0 vm)"
  unfolding opcodeNumEqual_def binaryOp_def bindE_Inr
  by (drule keeps_refl, (rule wp_rules | assumption | simp add: numBool_def; fail)+)

lemma wp_then_verify: "wp A m (keeps 0 vm) \<Longrightarrow> wp A (bindE m (opcodeVerify op)) (keeps 3 vm)"
  by (erule wp_bindI) (erule opcodeVerify_wp, simp)

lemma equal_handlers [handlers]: "handlerOK v opcodeEqual" "handlerOK v opcodeEqualVerify" "handlerOK v opcodeNumEqualVerify"
  unfolding opcodeEqualVerify_def opcodeNumEqualVerify_def
  by (rule handlerI, rule wp_mono [OF opcodeEqual_wp], assumption, erule keeps_0_3)
     (rule handlerI, rule wp_then_verify, rule opcodeEqual_wp opcodeNumEqual_wp, assumption)+

lemma opcodeWithin_ok [handlers]: "handlerOK v opcodeWithin"
  unfolding opcodeWithin_def
  by (rule handlerI, (rule wp_rules | assumption | simp; fail)+)

text \<open>The hash functions have the output sizes of their specifications.\<close>

definition hashSizes :: "('pk, 'sg) crypto \<Rightarrow> bool" where
  "hashSizes cr \<longleftrightarrow> (\<forall>b. length (c_ripemd160 cr b) = 20 \<and> length (c_sha1 cr b) = 20 \<and> length (c_hashB cr b) = 32)"

lemma hash_handlers:
  assumes "hashSizes cr"
  shows "handlerOK v (opcodeRipemd160 cr)" "handlerOK v (opcodeSha1 cr)" "handlerOK v (opcodeSha256 cr)"
    "handlerOK v (opcodeHash160 cr)" "handlerOK v (opcodeHash256 cr)"
  unfolding opcodeRipemd160_def opcodeSha1_def opcodeSha256_def opcodeHash160_def opcodeHash256_def
  by (rule handlerI, (rule wp_rules | assumption | simp add: assms [unfolded hashSizes_def]; fail)+)+

section \<open>The signature handlers\<close>

lemma wp_unit: "(m = panic \<Longrightarrow> A) \<Longrightarrow> wp A (f ()) Q \<Longrightarrow> wp A (bindE (m :: unit sres) f) Q"
  unfolding wp_bind by (auto simp: wp_iff [of A m])

lemma wp_hashType [wp_rules]: "wp A (f ()) Q \<Longrightarrow> wp A (bindE (checkHashTypeEncoding vm t) f) Q"
  by (rule wp_unit) (simp_all add: checkHashTypeEncoding_def Let_def split: if_splits)

lemma wp_pubKeyEncoding [wp_rules]: "wp A (f ()) Q \<Longrightarrow> wp A (bindE (checkPubKeyEncoding vm k) f) Q"
  by (rule wp_unit) (simp_all add: checkPubKeyEncoding_def Let_def split: if_splits)

lemma checkSignatureEncoding_unchecked: "\<not> derChecked vm \<Longrightarrow> checkSignatureEncoding cr vm sig = Inr ()"
  by (simp add: checkSignatureEncoding_def derChecked_def Let_def)

lemma wp_sigEncoding:
  assumes "derChecked vm \<Longrightarrow> A" "wp A (f ()) Q"
  shows "wp A (bindE (checkSignatureEncoding cr vm sig) f) Q"
  by (rule wp_unit) (use assms checkSignatureEncoding_unchecked [of vm cr sig] in auto)

lemma wp_subScript [wp_rules]:
  assumes "keeps n vm0 vm" "\<And>s. wp A (f s) Q"
  shows "wp A (bindE (subScript vm) f) Q"
  using assms by (auto simp: subScript_def keeps_def frame_def inRange_def at_def slice_def)

lemma signatureHash_eq:
  "signatureHash cr script hashType vm = Inr (calcSignatureHash (c_hashB cr) False script hashType (tx vm) (txIdx vm) None, vm)"
  by (simp add: signatureHash_def cachedPrefix_def SigHashOptimization_def)

lemma wp_signatureHash [wp_rules]:
  assumes "keeps n vm0 vm" "\<And>h. wp A (f (Inr h, vm)) Q" "\<And>e. wp A (f (raise e, vm)) Q"
  shows "wp A (bindE (signatureHash cr script hashType vm) f) Q"
proof -
  have "0 \<le> txIdx vm" "txIdx vm < int (length (txIn (tx vm)))" using assms(1) by (auto simp: keeps_def frame_def inRange_def)
  from calcSignatureHash_eq [OF this, of "c_hashB cr" False script hashType] assms(2,3) show ?thesis
    by (simp add: signatureHash_eq)
qed

lemma wp_verify:
  assumes "keeps n vm0 vm" "\<And>b vm'. keeps n vm0 vm' \<Longrightarrow> wp A (f b vm') Q"
  shows "wp A (let (b, vm') = verifyWithCache cr pk sig h vm in f b vm') Q"
  using assms by (auto simp: verifyWithCache_def Let_def split: option.splits)

lemma opcodeCheckSig_wp:
  assumes "inRange vm" "derChecked vm \<Longrightarrow> A"
  shows "wp A (opcodeCheckSig cr op vm) (keeps 0 vm)"
proof -
  have d: "keeps n vm vm' \<Longrightarrow> derChecked vm' = derChecked vm" for n vm'
    by (simp add: derChecked_def keeps_flag)
  show ?thesis
    unfolding opcodeCheckSig_def Let_def [of "last _"] Let_def [of "butlast _"] Let_def [of "removeOpcodeByData _ _"]
    apply (rule wp_popBytes [OF keeps_refl [OF assms(1)]], simp, rule prod_wp, rule wp_popBytes, assumption, simp, rule prod_wp)
    apply (rule wp_if, rule wp_pushBool, assumption, simp)
    apply (rule wp_rules wp_sigEncoding)+
    using d assms(2) apply blast
    apply (rule wp_rules, rule wp_rules, assumption, rule wp_rules, assumption)
     apply (rule prod_wp, simp only: sum.case split: option.split)
     apply (intro conjI allI impI)
    apply (rule wp_pushBool, assumption, simp)
      apply (rule wp_pushBool, assumption, simp)
     apply (rule wp_verify, assumption, rule wp_pushBool, assumption, simp)
    apply (simp, rule wp_pushBool, assumption, simp)
    done
qed

lemma wp_sigOfInfo:
  assumes "derChecked vm \<Longrightarrow> A" "\<And>si' p. si_signature si' = si_signature si \<Longrightarrow> wp A (f (si', p)) Q"
  shows "wp A (bindE (sigOfInfo cr vm si) f) Q"
  unfolding sigOfInfo_def if_distrib [of "\<lambda>m. bindE m f"] bindE_assoc
  apply (rule wp_if)
   apply (rule wp_hashType, rule wp_sigEncoding, erule assms(1))
  using assms(2) by (auto split: option.splits)

lemma wp_at [wp_rules]:
  assumes "0 \<le> i" "i < int (length xs)" "\<And>x. x \<in> set xs \<Longrightarrow> wp A (f x) Q"
  shows "wp A (bindE (at xs i) f) Q"
  using assms by (simp add: at_def)

lemma multiSigLoop_wp:
  assumes "keeps n vm0 vm" "derChecked vm0 \<Longrightarrow> A" "0 \<le> signatureIdx" "signatureIdx + numSignatures \<le> int (length sigs)"
    "- 1 \<le> pubKeyIdx" "pubKeyIdx + numPubKeys \<le> int (length pubKeys)"
  shows "wp A (multiSigLoop cr script pubKeys numSignatures numPubKeys pubKeyIdx signatureIdx sigs vm) (\<lambda>(b, vm'). keeps n vm0 vm')"
  using assms(1,3-6)
proof (induction "nat numPubKeys" arbitrary: numSignatures numPubKeys pubKeyIdx signatureIdx sigs vm rule: less_induct)
  case less
  have d: "keeps n vm0 vm' \<Longrightarrow> derChecked vm' = derChecked vm0" for vm'
    by (simp add: derChecked_def keeps_flag)
  show ?case
  proof (cases "numSignatures > 0 \<and> \<not> numSignatures > numPubKeys - 1")
    case False
    then show ?thesis using less.prems(1) by (subst multiSigLoop.simps) (auto simp: Let_def)
  next
    case True
    let ?P = "\<lambda>(b, vm'). keeps n vm0 vm'"
    have IH: "wp A (multiSigLoop cr script pubKeys ns (numPubKeys - 1) (pubKeyIdx + 1) si sigs' vm') ?P"
      if "keeps n vm0 vm'" "length sigs' = length sigs" "ns = numSignatures \<and> si = signatureIdx \<or> ns = numSignatures - 1 \<and> si = signatureIdx + 1"
      for ns si sigs' vm'
      by (rule less.hyps) (use that True less.prems in auto)
    show ?thesis
      unfolding multiSigLoop.simps [of cr script pubKeys numSignatures numPubKeys] Let_def
      apply (rule wp_if [rotated], use True in simp)
      apply (rule wp_if, use True in simp)
      apply (rule wp_at, use less.prems True in simp, use less.prems True in simp)
      apply (rule wp_at, use less.prems True in simp, use less.prems True in simp)
      apply (rule wp_if, rule IH, use less.prems in simp, simp, simp)
      apply (rule wp_sigOfInfo, use d [OF less.prems(1)] assms(2) in blast, rule prod_wp)
      apply (split option.split, intro conjI allI impI, rule IH, use less.prems in simp, simp, simp)
      apply (rule wp_pubKeyEncoding, split option.split, intro conjI allI impI, rule IH, use less.prems in simp, simp, simp)
      apply (rule wp_signatureHash [OF less.prems(1)], rule prod_wp, simp only: bindE_Inr)
       apply (rule wp_verify [OF less.prems(1), unfolded Let_def], rule wp_if, rule IH, assumption, simp, simp, rule IH, assumption, simp, simp)
      apply simp
      done
  qed
qed

lemma wp_popMany:
  assumes "keeps n vm0 vm" "n \<le> 100" "\<And>xs vm'. length xs = k \<Longrightarrow> keeps n vm0 vm' \<Longrightarrow> wp A (f (xs, vm')) Q"
  shows "wp A (bindE (popMany k vm) f) Q"
  using assms(1,3)
proof (induction k arbitrary: vm f)
  case (Suc k)
  show ?case
    unfolding popMany.simps bindE_assoc split_def
  proof (rule wp_popBytes [OF Suc.prems(1) assms(2)])
    fix x and vm' :: "('a, 'b) Engine"
    assume "keeps (n - 1) vm0 vm'"
    then have k: "keeps n vm0 vm'" by (rule keeps_mono) simp
    show "wp A (bindE (popMany k (snd (x, vm'))) (\<lambda>p. bindE (Inr (fst (x, vm') # fst p, snd p)) f)) Q"
      unfolding fst_conv snd_conv bindE_Inr by (rule Suc.IH [OF k]) (simp only: fst_conv snd_conv, rule Suc.prems(2), simp_all)
  qed
qed simp

lemma opcodeCheckMultiSig_wp:
  assumes "inRange vm" "derChecked vm \<Longrightarrow> A"
  shows "wp A (opcodeCheckMultiSig cr op vm) (keeps 0 vm)"
  unfolding opcodeCheckMultiSig_def Let_def
  apply (rule wp_mathInt [OF keeps_refl [OF assms(1)]], simp, rule prod_wp)
  apply (rule wp_if, simp, rule wp_if, simp)
  subgoal for numKeys vm1
    apply (rule wp_popMany [where n = "-1" and ?vm0.0 = vm])
      apply (simp add: keeps_def frame_def height_def MaxOpsPerScript_def, simp, rule prod_wp)
    apply (rule wp_mathInt, assumption, simp, rule prod_wp)
    apply (rule wp_if, simp, rule wp_if, simp)
    apply (rule wp_popMany, assumption, simp, rule prod_wp)
    apply (rule wp_subScript, assumption)
    apply (rule wp_bindI, rule multiSigLoop_wp, assumption, erule assms(2), simp, simp, simp, simp)
    apply (clarsimp, rule wp_pushBool, assumption, simp)
    done
  done

lemma wp_any: "(\<And>x. wp True (f x) Q) \<Longrightarrow> wp True (bindE m f) Q"
  unfolding wp_bind by (simp add: wp_def split: sum.splits failure.splits)

lemma opcodeCheckSigAlt_wp:
  assumes "inRange vm"
  shows "wp True (opcodeCheckSigAlt cr op vm) (keeps 0 vm)"
  unfolding opcodeCheckSigAlt_def Let_def
  apply (rule wp_altInt [OF keeps_refl [OF assms]], simp, rule prod_wp)
  apply (rule wp_if, rule wp_pushBool, assumption, simp, rule wp_if, rule wp_pushBool, assumption, simp)
  apply (rule wp_popBytes, assumption, simp, rule prod_wp, rule wp_if, rule wp_pushBool, assumption, simp)
  apply (rule wp_popBytes, assumption, simp, rule prod_wp, rule wp_if, rule wp_pushBool, assumption, simp)
  apply (rule wp_any, rule wp_any, rule wp_hashType, rule wp_subScript, assumption, rule wp_signatureHash, assumption)
   apply (simp only: prod.case sum.case, rule wp_pushBool, assumption, simp)
  apply (simp only: prod.case sum.case failure.case, rule wp_pushBool, assumption, simp)
  done

lemma mayPanic_der: "OP_CHECKSIG \<le> v \<Longrightarrow> v \<le> OP_CHECKMULTISIGVERIFY \<Longrightarrow> derChecked vm \<Longrightarrow> mayPanic v vm"
  by (simp add: mayPanic_def)

lemma sig_handlers:
  "handlerOK OP_CHECKSIG (opcodeCheckSig cr)" "handlerOK OP_CHECKSIGVERIFY (opcodeCheckSigVerify cr)"
  "handlerOK OP_CHECKMULTISIG (opcodeCheckMultiSig cr)" "handlerOK OP_CHECKMULTISIGVERIFY (opcodeCheckMultiSigVerify cr)"
  unfolding opcodeCheckSigVerify_def opcodeCheckMultiSigVerify_def
  subgoal by (rule handlerI, rule wp_mono [OF opcodeCheckSig_wp], assumption, simp add: mayPanic_def, erule keeps_0_3)
  subgoal by (rule handlerI, rule wp_then_verify, rule opcodeCheckSig_wp, assumption, simp add: mayPanic_def)
  subgoal by (rule handlerI, rule wp_mono [OF opcodeCheckMultiSig_wp], assumption, simp add: mayPanic_def, erule keeps_0_3)
  subgoal by (rule handlerI, rule wp_then_verify, rule opcodeCheckMultiSig_wp, assumption, simp add: mayPanic_def)
  done

lemma alt_sig_handlers:
  "handlerOK OP_CHECKSIGALT (opcodeCheckSigAlt cr)" "handlerOK OP_CHECKSIGALTVERIFY (opcodeCheckSigAltVerify cr)"
proof -
  have p: "mayPanic OP_CHECKSIGALT vm = True" "mayPanic OP_CHECKSIGALTVERIFY vm = True" for vm :: "('a, 'b) Engine"
    by (simp_all add: mayPanic_def)
  show "handlerOK OP_CHECKSIGALT (opcodeCheckSigAlt cr)"
    by (rule handlerI, unfold p, rule wp_mono [OF opcodeCheckSigAlt_wp], assumption, erule keeps_0_3)
  show "handlerOK OP_CHECKSIGALTVERIFY (opcodeCheckSigAltVerify cr)"
    unfolding opcodeCheckSigAltVerify_def
    by (rule handlerI, unfold p, rule wp_then_verify, rule opcodeCheckSigAlt_wp, assumption)
qed

text \<open>Every handler of the table is safe.\<close>

lemma opTable_ok:
  assumes "hashSizes cr"
  shows "list_all (\<lambda>(v, h). handlerOK v h) (opTable cr)"
  unfolding opTable_def
  by (simp only: list.pred_inject prod.case handlers hash_handlers [OF assms] sig_handlers alt_sig_handlers simp_thms)

lemma opfunc_ok:
  assumes "hashSizes cr"
  shows "handlerOK v (opfunc cr v)"
proof -
  have "handlerOK v h" if "map_of (opTable cr) v = Some h" for h
    using opTable_ok [OF assms] map_of_SomeD [OF that] by (auto simp: list_all_iff)
  moreover have "v \<le> OP_PUSHDATA4 \<Longrightarrow> v \<le> OP_16" by (erule order_trans) simp
  ultimately show ?thesis by (auto simp: opfunc_def handlers intro: opcodePushData_ok split: option.splits)
qed

section \<open>Executing an opcode\<close>

lemma inRange_numOps: "inRange vm \<Longrightarrow> n \<le> 255 \<Longrightarrow> inRange (vm\<lparr>numOps := n\<rparr>)"
  by (simp add: inRange_def height_def)

lemma checkMinimalDataPush_no_panic: "checkMinimalDataPush pop \<noteq> panic"
  by (simp add: checkMinimalDataPush_def Let_def)

lemma mayPanic_numOps [simp]: "mayPanic v (vm\<lparr>numOps := n\<rparr>) = mayPanic v vm"
  by (simp add: mayPanic_def derChecked_def hasFlag_def)

lemma keeps_numOps: "keeps n (vm0\<lparr>numOps := numOps vm0 + 1\<rparr>) vm \<Longrightarrow> inRange vm0 \<Longrightarrow> keeps n vm0 vm"
  by (auto simp: keeps_def frame_def height_def inRange_def)

definition countOp :: "parsedOpcode \<Rightarrow> ('pk, 'sg) Engine \<Rightarrow> ('pk, 'sg) Engine sres" where
  "countOp pop vm = (if pop_value pop > OP_16
     then let vm = vm\<lparr>numOps := numOps vm + 1\<rparr> in if numOps vm > MaxOpsPerScript then raise ErrStackTooManyOperations else Inr vm
     else if int (length (pop_data pop)) > MaxScriptElementSize then raise ErrStackElementTooBig
     else Inr vm)"

definition runOp :: "('pk, 'sg) crypto \<Rightarrow> ('pk, 'sg) handler" where
  "runOp cr pop vm = (if \<not> isBranchExecuting vm \<and> \<not> isConditional pop then Inr vm
     else bindE (if verifyMinimalData (dstack vm) \<and> isBranchExecuting vm \<and> pop_value pop \<le> OP_PUSHDATA4
                 then checkMinimalDataPush pop else Inr ()) (\<lambda>_. opfunc cr (pop_value pop) pop vm))"

lemma executeOpcode_parts:
  "executeOpcode cr pop vm = (if isDisabled pop then raise ErrStackOpDisabled
     else if alwaysIllegal pop then raise ErrStackReservedOpcode else bindE (countOp pop vm) (runOp cr pop))"
  by (simp add: executeOpcode_def countOp_def runOp_def [abs_def])

lemma countOp_wp:
  assumes "inRange vm"
  shows "wp A (countOp pop vm) (\<lambda>vm'. (vm' = vm \<or> vm' = vm\<lparr>numOps := numOps vm + 1\<rparr>) \<and> inRange vm' \<and>
    (pop_value pop \<le> OP_16 \<longrightarrow> length (pop_data pop) \<le> 8192))"
  using assms by (auto simp: countOp_def Let_def MaxOpsPerScript_def MaxScriptElementSize_def inRange_numOps)

lemma runOp_wp:
  assumes "hashSizes cr" "inRange vm" "pop_value pop \<le> OP_16 \<longrightarrow> length (pop_data pop) \<le> 8192"
  shows "wp (mayPanic (pop_value pop) vm) (runOp cr pop vm) (keeps 3 vm)"
proof -
  have "wp (mayPanic (pop_value pop) vm) (opfunc cr (pop_value pop) pop vm) (keeps 3 vm)"
    using opfunc_ok [OF assms(1), of "pop_value pop"] assms(2,3) unfolding handlerOK_def by blast
  then show ?thesis
    unfolding runOp_def using keeps_0_3 [OF keeps_refl [OF assms(2)]]
    by (intro wp_if wp_unit wp_Inr) (simp_all add: checkMinimalDataPush_no_panic split: if_splits)
qed

lemma executeOpcode_wp:
  assumes "hashSizes cr" "inRange vm"
  shows "wp (mayPanic (pop_value pop) vm) (executeOpcode cr pop vm) (keeps 3 vm)"
proof -
  have "wp (mayPanic (pop_value pop) vm) (runOp cr pop vm') (keeps 3 vm)"
    if "vm' = vm \<or> vm' = vm\<lparr>numOps := numOps vm + 1\<rparr>" "inRange vm'" "pop_value pop \<le> OP_16 \<longrightarrow> length (pop_data pop) \<le> 8192" for vm'
    using that(1) runOp_wp [OF assms(1) that(2,3)]
    by (elim disjE) (auto elim!: wp_mono intro: keeps_numOps [OF _ assms(2)])
  then show ?thesis
    unfolding executeOpcode_parts by (intro wp_if wp_raise wp_bindI [OF countOp_wp [OF assms(2)]]) blast
qed

end
