(* ===== verification/EngineRun.thy ===== *)
theory EngineRun
  imports EngineSafe
begin

unbundle bit_operations_syntax

text \<open>
  Runs of the script engine: the invariant that \<^verbatim>\<open>NewEngine\<close> establishes and \<^verbatim>\<open>Step\<close> keeps, the measure that
  every step decreases, and what follows for all reachable engines.
\<close>

section \<open>Moving to the next script\<close>

lemma Depth_small: "small_stack s \<Longrightarrow> Depth s = int (length (stk s))"
  by (simp add: Depth_def)

lemma dropAll_eq: "small_stack s \<Longrightarrow> dropAll s = s\<lparr>stk := []\<rparr>"
  by (cases "stk s = []") (simp_all add: dropAll_def Depth_small DropN_eq, simp_all add: DropN_def)

lemma getStack_eq: "small_stack s \<Longrightarrow> getStack s = Inr (stk s)"
proof -
  assume s: "small_stack s"
  have "map (\<lambda>i. case PeekByteArray s (int i) of Inr so \<Rightarrow> so | Inl _ \<Rightarrow> []) [0..<length (stk s)] = tops s"
    by (rule nth_equalityI) (simp_all add: PeekByteArray_eq [OF s])
  then show ?thesis by (simp add: getStack_def Depth_small [OF s])
qed

lemma fold_push: "fold (\<lambda>x s. PushByteArray s x) xs s = s\<lparr>stk := stk s @ xs\<rparr>"
  by (induction xs arbitrary: s) (simp_all add: PushByteArray_def)

lemma setStack_eq: "small_stack s \<Longrightarrow> setStack s xs = s\<lparr>stk := xs\<rparr>"
  by (simp add: setStack_def dropAll_eq fold_push)

text \<open>What an opcode that pushes does, in a branch that is executed.\<close>

lemma push_effect:
  assumes "pop_value pop \<le> OP_16" "executeOpcode cr pop vm = Inr vm'" "isBranchExecuting vm"
  shows "\<exists>x. vm' = vm\<lparr>dstack := PushByteArray (dstack vm) x\<rparr>"
proof -
  have "opfunc cr (pop_value pop) pop vm = Inr vm'"
    using assms by (auto simp: executeOpcode_parts countOp_def runOp_def bindE_eq_Inr Let_def split: if_splits)
  moreover have "pop_value pop = OP_FALSE \<or> (OP_DATA_1 \<le> pop_value pop \<and> pop_value pop \<le> OP_PUSHDATA4) \<or> pop_value pop = OP_1NEGATE \<or>
      pop_value pop = OP_RESERVED \<or> (OP_1 \<le> pop_value pop \<and> pop_value pop \<le> OP_16)"
    using assms(1) by (simp add: word_le_nat_alt word_unat_eq_iff) linarith
  ultimately show ?thesis
    by (elim disjE)
       (auto simp: opfunc_def opTable_def opcodeFalse_def opcodePushData_def opcode1Negate_def opcodeReserved_def opcodeN_def
          pushBytes_def pushInt_def PushInt_def bindE_eq_Inr split: if_splits)
qed

section \<open>The invariant of the engine\<close>

definition engineInv :: "('pk, 'sg) Engine \<Rightarrow> bool" where
  "engineInv vm \<longleftrightarrow> height vm \<le> 1024 \<and> elems (dstack vm) \<and> elems (astack vm) \<and> numOps vm \<le> 255 \<and>
     0 \<le> scriptIdx vm \<and> 0 \<le> scriptOff vm \<and> lastCodeSep vm = 0 \<and> 0 \<le> txIdx vm \<and> txIdx vm < int (length (txIn (tx vm))) \<and>
     list_all (\<lambda>x. length x \<le> 8192) (savedFirstStack vm) \<and> length (savedFirstStack vm) \<le> 1024 \<and>
     (bip16 vm \<and> scriptIdx vm = 0 \<longrightarrow> isPushOnly (scripts vm ! 0) \<and> condStack vm = [] \<and> (0 < scriptOff vm \<longrightarrow> stk (dstack vm) \<noteq> [])) \<and>
     (bip16 vm \<and> scriptIdx vm = 1 \<longrightarrow> savedFirstStack vm \<noteq> [])"

definition curOp :: "('pk, 'sg) Engine \<Rightarrow> parsedOpcode" where
  "curOp vm = scripts vm ! nat (scriptIdx vm) ! nat (scriptOff vm)"

lemma validPC_wp:
  assumes "0 \<le> scriptIdx vm"
  shows "wp A (validPC vm) (\<lambda>_. scriptIdx vm < int (length (scripts vm)) \<and>
    scriptOff vm < int (length (scripts vm ! nat (scriptIdx vm))))"
  using assms by (auto simp: validPC_def at_def)

lemma engineInv_inRange: "engineInv vm \<Longrightarrow> scriptIdx vm < int (length (scripts vm)) \<Longrightarrow> inRange vm"
  by (simp add: engineInv_def inRange_def)

lemma height_small: "height vm \<le> 1100 \<Longrightarrow> small_stack (dstack vm) \<and> small_stack (astack vm)"
  by (simp add: height_def small_stack_def)

lemma popBool_wp:
  assumes "height vm \<le> 1100" "elems (dstack vm)"
  shows "wp A (popBool vm) (\<lambda>(b, vm'). \<exists>xs. vm' = vm\<lparr>dstack := (dstack vm)\<lparr>stk := xs\<rparr>\<rparr> \<and> length xs \<le> length (stk (dstack vm)) \<and>
    list_all (\<lambda>x. length x \<le> 8192) xs)"
proof -
  note s = height_small [OF assms(1)]
  have "list_all (\<lambda>x. length x \<le> 8192) (butlast (stk (dstack vm)))"
    using assms(2) by (auto simp: elems_def list_all_iff dest: in_set_butlastD)
  with s show ?thesis
    by (cases "stk (dstack vm) = []") (auto simp: popBool_def PopBool_def PopByteArray_eq intro!: exI [of _ "butlast (stk (dstack vm))"])
qed

lemma parseOk_wp: "wp A (parseOk s) (\<lambda>_. True)"
  using parseScript_error [of s] by (cases "parseScript s") (auto simp: parseOk_def split: option.splits)

lemma engineInv_small: "engineInv vm \<Longrightarrow> small_stack (dstack vm) \<and> small_stack (astack vm)"
  by (rule height_small) (simp add: engineInv_def)

lemma check_wp:
  assumes "engineInv vm"
  shows "wp A (CheckErrorCondition fin vm) (\<lambda>vm'. \<exists>xs. vm' = vm\<lparr>dstack := (dstack vm)\<lparr>stk := xs\<rparr>\<rparr> \<and>
    length xs \<le> length (stk (dstack vm)))"
proof -
  have "height vm \<le> 1100" "elems (dstack vm)" using assms by (simp_all add: engineInv_def)
  then have "wp A (popBool vm) (\<lambda>(b, vm'). \<exists>xs. vm' = vm\<lparr>dstack := (dstack vm)\<lparr>stk := xs\<rparr>\<rparr> \<and> length xs \<le> length (stk (dstack vm)))"
    by (auto intro: wp_mono [OF popBool_wp])
  then show ?thesis by (auto simp: CheckErrorCondition_def wp_bind elim!: wp_mono)
qed

text \<open>The switch to the redeem script of a pay-to-script-hash output.\<close>

definition loadRedeem :: "('pk, 'sg) Engine \<Rightarrow> ('pk, 'sg) Engine sres" where
  "loadRedeem vm = bindE (CheckErrorCondition False vm) (\<lambda>vm.
     let saved = savedFirstStack vm
     in bindE (at saved (int (length saved) - 1)) (\<lambda>script.
        bindE (parseOk script) (\<lambda>pops.
        bindE (slice saved 0 (int (length saved) - 1)) (\<lambda>rest.
          Inr (vm\<lparr>scripts := scripts vm @ [pops], dstack := setStack (dstack vm) rest\<rparr>)))))"

lemma last_of_saved:
  assumes "saved \<noteq> []"
  shows "at saved (int (length saved) - 1) = (Inr (last saved) :: 'a sres)"
    "slice saved 0 (int (length saved) - 1) = (Inr (butlast saved) :: 'a list sres)"
  using assms by (cases saved rule: rev_cases; simp add: at_def slice_def)+

lemma loadRedeem_wp:
  assumes "engineInv vm" "1 < scriptIdx vm" "savedFirstStack vm \<noteq> []" "stk (astack vm) = []"
  shows "wp A (loadRedeem vm) (\<lambda>vm'. engineInv vm' \<and> scriptOff vm' = scriptOff vm \<and> scriptIdx vm' = scriptIdx vm \<and>
    length (scripts vm') = length (scripts vm) + 1)"
  unfolding loadRedeem_def
proof (rule wp_bindI [OF check_wp [OF assms(1)]])
  fix vm'
  assume "\<exists>xs. vm' = vm\<lparr>dstack := (dstack vm)\<lparr>stk := xs\<rparr>\<rparr> \<and> length xs \<le> length (stk (dstack vm))"
  then obtain xs where vm': "vm' = vm\<lparr>dstack := (dstack vm)\<lparr>stk := xs\<rparr>\<rparr>" "length xs \<le> length (stk (dstack vm))" by blast
  have sm: "small_stack ((dstack vm)\<lparr>stk := xs\<rparr>)" using vm'(2) engineInv_small [OF assms(1)] by (simp add: small_stack_def)
  have "list_all (\<lambda>x. length x \<le> 8192) (butlast (savedFirstStack vm))"
    using assms(1) by (auto simp: engineInv_def list_all_iff dest: in_set_butlastD)
  then have "engineInv (vm\<lparr>scripts := scripts vm @ [pops], dstack := (dstack vm)\<lparr>stk := butlast (savedFirstStack vm)\<rparr>\<rparr>)" for pops
    using assms by (auto simp: engineInv_def height_def elems_def)
  then show "wp A (let saved = savedFirstStack vm'
       in bindE (at saved (int (length saved) - 1)) (\<lambda>script.
          bindE (parseOk script) (\<lambda>pops.
          bindE (slice saved 0 (int (length saved) - 1)) (\<lambda>rest.
            Inr (vm'\<lparr>scripts := scripts vm' @ [pops], dstack := setStack (dstack vm') rest\<rparr>)))))
      (\<lambda>vm'. engineInv vm' \<and> scriptOff vm' = scriptOff vm \<and> scriptIdx vm' = scriptIdx vm \<and> length (scripts vm') = length (scripts vm) + 1)"
    by (auto simp: vm'(1) last_of_saved [OF assms(3)] setStack_eq [OF sm] Let_def intro!: wp_bindI [OF parseOk_wp])
qed

lemma nextScript_parts:
  "nextScript vm = (if length (condStack vm) \<noteq> 0 then raise ErrStackMissingEndif
     else let vm = vm\<lparr>astack := dropAll (astack vm), numOps := 0, scriptOff := 0\<rparr>
     in bindE (if scriptIdx vm = 0 \<and> bip16 vm
               then bindE (getStack (dstack vm)) (\<lambda>st. Inr (vm\<lparr>scriptIdx := scriptIdx vm + 1, savedFirstStack := st\<rparr>))
               else if scriptIdx vm = 1 \<and> bip16 vm then loadRedeem (vm\<lparr>scriptIdx := scriptIdx vm + 1\<rparr>)
               else Inr (vm\<lparr>scriptIdx := scriptIdx vm + 1\<rparr>)) (\<lambda>vm.
        bindE (if scriptIdx vm < int (length (scripts vm))
               then bindE (at (scripts vm) (scriptIdx vm)) (\<lambda>s.
                      Inr (if scriptOff vm \<ge> int (length s) then vm\<lparr>scriptIdx := scriptIdx vm + 1\<rparr> else vm))
               else Inr vm) (\<lambda>vm.
          Inr (scriptIdx vm \<ge> int (length (scripts vm)), vm\<lparr>lastCodeSep := 0\<rparr>))))"
  by (simp only: nextScript_def loadRedeem_def)

lemma nextScript_wp:
  assumes "engineInv vm" "0 < scriptOff vm"
  shows "wp A (nextScript vm) (\<lambda>(fin, vm'). engineInv vm' \<and> scriptIdx vm < scriptIdx vm' \<and>
    (fin \<longleftrightarrow> scriptIdx vm' \<ge> int (length (scripts vm'))) \<and>
    (length (scripts vm') = length (scripts vm) \<or> scriptIdx vm = 1 \<and> length (scripts vm') = length (scripts vm) + 1))"
proof -
  note i = assms(1) [unfolded engineInv_def]
  note small = engineInv_small [OF assms(1)]
  define vm1 where "vm1 = vm\<lparr>astack := (astack vm)\<lparr>stk := []\<rparr>, numOps := 0, scriptOff := 0\<rparr>"
  have vm1: "vm\<lparr>astack := dropAll (astack vm), numOps := 0, scriptOff := 0\<rparr> = vm1"
    using small by (simp add: vm1_def dropAll_eq)
  have f: "scriptIdx vm1 = scriptIdx vm" "bip16 vm1 = bip16 vm" "dstack vm1 = dstack vm" "scripts vm1 = scripts vm"
    "savedFirstStack vm1 = savedFirstStack vm" "scriptOff vm1 = 0" by (simp_all add: vm1_def)
  have base: "engineInv (vm1\<lparr>scriptIdx := k, savedFirstStack := sv\<rparr>)" if "k = 1 \<longrightarrow> bip16 vm \<longrightarrow> sv \<noteq> []" "0 < k"
      "list_all (\<lambda>x. length x \<le> 8192) sv" "length sv \<le> 1024" for k sv
    using i that by (auto simp: engineInv_def vm1_def height_def elems_def)
  have keep: "engineInv (vm1\<lparr>scriptIdx := scriptIdx vm + 1\<rparr>)" if "\<not> (scriptIdx vm = 0 \<and> bip16 vm)"
    using base [of "scriptIdx vm + 1" "savedFirstStack vm"] i that by (auto simp: vm1_def)
  let ?Q = "\<lambda>vm'. engineInv vm' \<and> scriptOff vm' = 0 \<and> scriptIdx vm' = scriptIdx vm + 1 \<and>
    (length (scripts vm') = length (scripts vm) \<or> scriptIdx vm = 1 \<and> length (scripts vm') = length (scripts vm) + 1)"
  have first: "engineInv (vm1\<lparr>scriptIdx := 1, savedFirstStack := stk (dstack vm)\<rparr>)" if "scriptIdx vm = 0" "bip16 vm"
    by (rule base) (use i that assms(2) in \<open>auto simp: elems_def height_def\<close>)
  have redeem: "wp A (loadRedeem (vm1\<lparr>scriptIdx := 2\<rparr>)) ?Q" if "scriptIdx vm = 1" "bip16 vm"
    by (rule wp_mono [OF loadRedeem_wp]) (use keep that i in \<open>auto simp: f, auto simp: vm1_def\<close>)
  have "wp A (if scriptIdx vm1 = 0 \<and> bip16 vm1
        then bindE (getStack (dstack vm1)) (\<lambda>st. Inr (vm1\<lparr>scriptIdx := scriptIdx vm1 + 1, savedFirstStack := st\<rparr>))
        else if scriptIdx vm1 = 1 \<and> bip16 vm1 then loadRedeem (vm1\<lparr>scriptIdx := scriptIdx vm1 + 1\<rparr>)
        else Inr (vm1\<lparr>scriptIdx := scriptIdx vm1 + 1\<rparr>)) ?Q"
    using first redeem keep small by (auto simp: f getStack_eq)
  then show ?thesis
    unfolding nextScript_parts vm1 Let_def
    by (intro wp_if wp_raise, elim wp_bindI) (use i in \<open>auto simp: at_def engineInv_def height_def\<close>)
qed

section \<open>A step\<close>

text \<open>The measure that a step decreases: the scripts still to come, then the opcodes of this one.\<close>

definition progress :: "(('pk, 'sg) Engine \<times> ('pk, 'sg) Engine) set" where
  "progress = inv_image (less_than <*lex*> less_than) (\<lambda>vm.
     (nat (int (length (scripts vm)) + (if scriptIdx vm \<le> 1 then 1 else 0) - scriptIdx vm),
      nat (int (length (scripts vm ! nat (scriptIdx vm))) - scriptOff vm)))"

lemma wf_progress: "wf progress"
  unfolding progress_def by (intro wf_inv_image wf_lex_prod wf_less_than)

lemma opcode_keeps_inv:
  assumes "engineInv vm" "scriptIdx vm < int (length (scripts vm))" "scriptOff vm < int (length (scripts vm ! nat (scriptIdx vm)))"
    "keeps 3 vm vm'" "executeOpcode cr (curOp vm) vm = Inr vm'" "height vm' \<le> 1024"
  shows "engineInv (vm'\<lparr>scriptOff := scriptOff vm' + 1\<rparr>)"
proof -
  note i = assms(1) [unfolded engineInv_def] and k = assms(4) [unfolded keeps_def frame_def]
  have "isPushOnly (scripts vm ! 0) \<and> condStack vm' = [] \<and> stk (dstack vm') \<noteq> []" if b: "bip16 vm" "scriptIdx vm = 0"
  proof -
    have "isPushOnly (scripts vm ! 0)" "condStack vm = []" using i b by auto
    moreover have "curOp vm \<in> set (scripts vm ! 0)" using assms(3) i b by (auto simp: curOp_def nat_less_iff intro!: nth_mem)
    ultimately have "pop_value (curOp vm) \<le> OP_16" by (auto simp: isPushOnly_def list_all_iff not_less)
    from push_effect [OF this assms(5)] \<open>condStack vm = []\<close> \<open>isPushOnly (scripts vm ! 0)\<close> show ?thesis
      by (auto simp: isBranchExecuting_def PushByteArray_def)
  qed
  with i k assms(6) show ?thesis by (auto simp: engineInv_def height_def)
qed

lemma Step_wp:
  assumes "hashSizes cr" "engineInv vm"
  shows "wp (mayPanic (pop_value (curOp vm)) vm) (Step cr vm) (\<lambda>(fin, vm'). engineInv vm' \<and>
    (fin \<longleftrightarrow> scriptIdx vm' \<ge> int (length (scripts vm'))) \<and> (vm', vm) \<in> progress)"
  unfolding Step_def
proof (rule wp_bindI [OF validPC_wp])
  note i = assms(2) [unfolded engineInv_def]
  show "0 \<le> scriptIdx vm" using i by simp
  assume pc: "scriptIdx vm < int (length (scripts vm)) \<and> scriptOff vm < int (length (scripts vm ! nat (scriptIdx vm)))"
  have r: "inRange vm" using engineInv_inRange [OF assms(2)] pc by simp
  let ?Q = "\<lambda>(fin, vm'). engineInv vm' \<and> (fin \<longleftrightarrow> scriptIdx vm' \<ge> int (length (scripts vm'))) \<and> (vm', vm) \<in> progress"
  let ?A = "mayPanic (pop_value (curOp vm)) vm"
  have at1: "at (scripts vm) (scriptIdx vm) = (Inr (scripts vm ! nat (scriptIdx vm)) :: parsedOpcode list sres)"
    "at (scripts vm ! nat (scriptIdx vm)) (scriptOff vm) = (Inr (curOp vm) :: parsedOpcode sres)"
    using pc i by (simp_all add: at_def curOp_def)
  have "wp ?A (if wrap32 (Depth (dstack vm') + Depth (astack vm')) > maxStackSize then raise ErrStackOverflow
       else let vm' = vm'\<lparr>scriptOff := scriptOff vm' + 1\<rparr>
       in bindE (at (scripts vm') (scriptIdx vm')) (\<lambda>script.
            if scriptOff vm' \<ge> int (length script) then nextScript vm' else Inr (False, vm'))) ?Q"
    if k: "keeps 3 vm vm'" and e: "executeOpcode cr (curOp vm) vm = Inr vm'" for vm'
  proof -
    have h: "height vm' \<le> 1027" using k r by (simp add: keeps_def inRange_def)
    then have d: "wrap32 (Depth (dstack vm') + Depth (astack vm')) = height vm'"
      using height_small [of vm'] by (simp add: Depth_small height_def wrap32_id)
    let ?vm = "vm'\<lparr>scriptOff := scriptOff vm' + 1\<rparr>"
    have f: "scripts ?vm = scripts vm" "scriptIdx ?vm = scriptIdx vm" "scriptOff ?vm = scriptOff vm + 1"
      using k by (simp_all add: keeps_def frame_def)
    show ?thesis
    proof (cases "height vm' \<le> 1024")
      case True
      have inv: "engineInv ?vm" by (rule opcode_keeps_inv [OF assms(2) _ _ k e True]) (use pc in auto)
      have "(vm'', vm) \<in> progress" if "scriptIdx vm < scriptIdx vm''"
        "length (scripts vm'') = length (scripts vm) \<or> scriptIdx vm = 1 \<and> length (scripts vm'') = length (scripts vm) + 1" for vm''
        using that pc i by (auto simp: progress_def)
      with nextScript_wp [OF inv, of ?A] i have "wp ?A (nextScript ?vm) ?Q" by (auto simp: f elim!: wp_mono)
      moreover have "(?vm, vm) \<in> progress" using pc i by (auto simp: progress_def f)
      ultimately show ?thesis using inv f pc at1(1) by (simp add: d maxStackSize_def True Let_def)
    qed (simp add: d maxStackSize_def)
  qed
  then show "wp ?A (bindE (at (scripts vm) (scriptIdx vm)) (\<lambda>script.
     bindE (at script (scriptOff vm)) (\<lambda>opc.
     bindE (executeOpcode cr opc vm) (\<lambda>vm.
       if wrap32 (Depth (dstack vm) + Depth (astack vm)) > maxStackSize then raise ErrStackOverflow
       else let vm = vm\<lparr>scriptOff := scriptOff vm + 1\<rparr>
       in bindE (at (scripts vm) (scriptIdx vm)) (\<lambda>script.
            if scriptOff vm \<ge> int (length script) then nextScript vm else Inr (False, vm)))))) ?Q"
    unfolding at1 bindE_Inr wp_bind by (intro wp_mono [OF executeOpcode_wp [OF assms(1) r]])
qed

section \<open>A new engine\<close>

lemma parseOk_nil [simp]: "parseOk [] = Inr []"
  by (simp add: parseOk_def parse_eval)

text \<open>An output of a script hash is refused without a signature script.\<close>

lemma script_hash_class:
  assumes "parseOk pk = Inr pops" "isAnyKindOfScriptHash pops"
  shows "GetScriptClass 0 pk = ScriptHashTy \<and> \<not> IsStakeOutput pk \<or> IsStakeOutput pk \<and> GetStakeOutSubclass pk = Inr ScriptHashTy"
proof (cases "isScriptHash pops")
  case True
  from class_of_form(5) [OF True] assms(1) show ?thesis
    by (simp add: getScriptClass_parse IsStakeOutput_def isStakeClass_def)
next
  case False
  then have l: "length pops = 4" "isStakeTag (pop_value (pops ! 0))" "pop_value (pops ! 1) = OP_HASH160"
    "pop_value (pops ! 2) = OP_DATA_20" "pop_value (pops ! 3) = OP_EQUAL"
    using assms(2) by (auto simp: isAnyKindOfScriptHash_def isScriptHash_def Let_def split: if_splits)
  from l(1) obtain p0 p1 p2 p3 where "pops = [p0, p1, p2, p3]" by (auto simp: length_Suc_conv numeral_eq_Suc)
  with l have p: "pops = [p0, p1, p2, p3]" "isStakeTag (pop_value p0)" "pop_value p1 = OP_HASH160"
    "pop_value p2 = OP_DATA_20" "pop_value p3 = OP_EQUAL" by simp_all
  have "isTaggedOut (pop_value p0) pops" using p by (simp add: isTaggedOut_def)
  from class_of_tagged [OF this p(2)] have c: "isStakeClass (typeOfScript pops)" by (auto simp: isStakeClass_def)
  have "isScriptHash [p1, p2, p3]" using p by (simp add: isScriptHash_def)
  note sub = class_of_form(5) [OF this]
  from c sub p assms(1) show ?thesis by (simp add: IsStakeOutput_def GetStakeOutSubclass_def not_tags isStakeTag_def)
qed

lemma empty_sig_refused:
  assumes "parseOk pk = Inr pops" "isAnyKindOfScriptHash pops"
  shows "HasP2SHScriptSigStakeOpCodes 0 [] pk = raise (ErrMsg ''script has no pushed data'')"
  using script_hash_class [OF assms] by (auto simp: HasP2SHScriptSigStakeOpCodes_def PushedData_def)

definition startEngine ::
  "MsgTx \<Rightarrow> int \<Rightarrow> 32 word \<Rightarrow> 16 word \<Rightarrow> ('pk, 'sg) SigCache option \<Rightarrow> parsedOpcode list \<Rightarrow> parsedOpcode list \<Rightarrow> int \<Rightarrow> bool \<Rightarrow>
     ('pk, 'sg) Engine" where
  "startEngine mtx idx fl v sc sigPops pkPops start p2sh =
     \<lparr>version = v, scripts = [sigPops, pkPops], scriptIdx = start, scriptOff = 0, lastCodeSep = 0,
      dstack = \<lparr>stk = [], verifyMinimalData = fl AND ScriptVerifyMinimalData = ScriptVerifyMinimalData\<rparr>,
      astack = \<lparr>stk = [], verifyMinimalData = fl AND ScriptVerifyMinimalData = ScriptVerifyMinimalData\<rparr>,
      tx = mtx, txIdx = idx, condStack = [], numOps = 0, flags = fl, sigCache = sc, bip16 = p2sh, savedFirstStack = []\<rparr>"

lemma start_tail:
  "(let vm = \<lparr>version = v, scripts = [], scriptIdx = 0, scriptOff = 0, lastCodeSep = 0,
                     dstack = \<lparr>stk = [], verifyMinimalData = False\<rparr>, astack = \<lparr>stk = [], verifyMinimalData = False\<rparr>,
                     tx = zeroMsgTx, txIdx = 0, condStack = [], numOps = 0, flags = fl, sigCache = sc,
                     bip16 = False, savedFirstStack = []\<rparr>\<lparr>scripts := [sigPops, pkPops]\<rparr>;
          vm = (if length sg = 0 then vm\<lparr>scriptIdx := scriptIdx vm + 1\<rparr> else vm)
      in bindE (if hasFlag vm ScriptBip16 \<and> isAnyKindOfScriptHash pkPops
                then (if \<not> isPushOnly sigPops then raise ErrStackP2SHNonPushOnly else Inr (vm\<lparr>bip16 := True\<rparr>))
                else Inr vm) (\<lambda>vm.
         let vm = (if hasFlag vm ScriptVerifyMinimalData
                   then vm\<lparr>dstack := (dstack vm)\<lparr>verifyMinimalData := True\<rparr>, astack := (astack vm)\<lparr>verifyMinimalData := True\<rparr>\<rparr>
                   else vm)
         in Inr (vm\<lparr>tx := mtx, txIdx := idx\<rparr>))) =
     bindE (if fl AND ScriptBip16 = ScriptBip16 \<and> isAnyKindOfScriptHash pkPops
                then (if \<not> isPushOnly sigPops then raise ErrStackP2SHNonPushOnly else Inr True)
                else Inr False) (\<lambda>b. Inr (startEngine mtx idx fl v sc sigPops pkPops (if sg = [] then 1 else 0) b))"
  apply (cases "isAnyKindOfScriptHash pkPops \<and> fl AND ScriptBip16 = ScriptBip16"; cases "isPushOnly sigPops"; cases "sg = []"; cases "fl AND ScriptVerifyMinimalData = ScriptVerifyMinimalData")
 apply (simp_all only: hasFlag_def startEngine_def Let_def Engine.simps if_True if_False list.size simp_thms bindE_Inr bindE_Inl not_False_eq_True HOL.refl)
 apply (simp_all)
 done

lemma hasFlag_new:
  "hasFlag \<lparr>version = v, scripts = ss, scriptIdx = a, scriptOff = b, lastCodeSep = c, dstack = d, astack = e, tx = t, txIdx = g,
     condStack = h, numOps = i, flags = fl, sigCache = j, bip16 = k, savedFirstStack = l\<rparr> f = (fl AND f = f)"
  by (simp add: hasFlag_def)

lemma NewEngine_eq:
  assumes "sig = SignatureScript (txIn mtx ! nat idx)"
  shows "NewEngine pk mtx idx fl v sc = (if idx < 0 \<or> idx \<ge> int (length (txIn mtx)) then raise ErrInvalidIndex
      else if fl AND ScriptVerifyCleanStack = ScriptVerifyCleanStack \<and> fl AND ScriptBip16 \<noteq> ScriptBip16 then raise ErrInvalidFlags
      else if fl AND ScriptVerifySigPushOnly = ScriptVerifySigPushOnly \<and> \<not> IsPushOnlyScript sig then raise ErrStackNonPushOnly
      else bindE (if v = 0 then HasP2SHScriptSigStakeOpCodes v sig pk else Inr ()) (\<lambda>_.
        bindE (if int (length sig) > maxScriptSize then raise ErrStackLongScript else parseOk sig) (\<lambda>sigPops.
        bindE (if int (length pk) > maxScriptSize then raise ErrStackLongScript else parseOk pk) (\<lambda>pkPops.
        bindE (if fl AND ScriptBip16 = ScriptBip16 \<and> isAnyKindOfScriptHash pkPops
               then (if \<not> isPushOnly sigPops then raise ErrStackP2SHNonPushOnly else Inr True)
               else Inr False) (\<lambda>b.
          Inr (startEngine mtx idx fl v sc sigPops pkPops (if sig = [] then 1 else 0) b))))))"
  unfolding NewEngine_def DefaultScriptVersion_def Let_def start_tail [unfolded Let_def]
  by (simp only: hasFlag_new assms)

lemma bindE_InrE: "bindE m f = Inr y \<Longrightarrow> (\<And>x. m = Inr x \<Longrightarrow> f x = Inr y \<Longrightarrow> P) \<Longrightarrow> P"
  by (cases m) simp_all

lemma guardE: "(if c then raise e else m) = Inr y \<Longrightarrow> (\<not> c \<Longrightarrow> m = Inr y \<Longrightarrow> P) \<Longrightarrow> P"
  by (cases c) simp_all

lemma NewEngine_start:
  assumes "NewEngine pk mtx idx fl v sc = Inr vm"
  obtains sigPops pkPops where "0 \<le> idx" "idx < int (length (txIn mtx))"
    "parseOk (SignatureScript (txIn mtx ! nat idx)) = Inr sigPops" "parseOk pk = Inr pkPops"
    "v = 0 \<Longrightarrow> HasP2SHScriptSigStakeOpCodes 0 (SignatureScript (txIn mtx ! nat idx)) pk = Inr ()"
    "fl AND ScriptBip16 = ScriptBip16 \<and> isAnyKindOfScriptHash pkPops \<Longrightarrow> isPushOnly sigPops"
    "vm = startEngine mtx idx fl v sc sigPops pkPops (if SignatureScript (txIn mtx ! nat idx) = [] then 1 else 0)
       (fl AND ScriptBip16 = ScriptBip16 \<and> isAnyKindOfScriptHash pkPops)"
  using assms unfolding NewEngine_eq [OF refl]
  apply (elim guardE bindE_InrE)
  subgoal premises p for u sigPops pkPops b
  proof -
    have b: "b = (fl AND ScriptBip16 = ScriptBip16 \<and> isAnyKindOfScriptHash pkPops) \<and> (b \<longrightarrow> isPushOnly sigPops)"
      using p(10) by (cases "fl AND ScriptBip16 = ScriptBip16 \<and> isAnyKindOfScriptHash pkPops"; cases "isPushOnly sigPops") simp_all
    show thesis
      by (rule that [of sigPops pkPops]) (use p(2,5,7,9,11) b in \<open>simp_all\<close>)
  qed
  done

lemma NewEngine_inv:
  assumes "NewEngine pk mtx idx fl 0 sc = Inr vm"
  shows "engineInv vm"
proof -
  let ?sig = "SignatureScript (txIn mtx ! nat idx)"
  obtain sigPops pkPops where n: "0 \<le> idx" "idx < int (length (txIn mtx))" "parseOk pk = Inr pkPops"
    "HasP2SHScriptSigStakeOpCodes 0 ?sig pk = Inr ()" "fl AND ScriptBip16 = ScriptBip16 \<and> isAnyKindOfScriptHash pkPops \<Longrightarrow> isPushOnly sigPops"
    "vm = startEngine mtx idx fl 0 sc sigPops pkPops (if ?sig = [] then 1 else 0)
       (fl AND ScriptBip16 = ScriptBip16 \<and> isAnyKindOfScriptHash pkPops)"
    using NewEngine_start [OF assms, of thesis] by auto
  have "?sig \<noteq> []" if "isAnyKindOfScriptHash pkPops" using empty_sig_refused [OF n(3) that] n(4) by auto
  with n show ?thesis by (auto simp: engineInv_def startEngine_def height_def elems_def)
qed

section \<open>Reachable engines\<close>

inductive reaches :: "('pk, 'sg) crypto \<Rightarrow> ('pk, 'sg) Engine \<Rightarrow> ('pk, 'sg) Engine \<Rightarrow> bool" for cr vm0 where
  start: "reaches cr vm0 vm0"
| step: "reaches cr vm0 vm \<Longrightarrow> Step cr vm = Inr (fin, vm') \<Longrightarrow> reaches cr vm0 vm'"

lemma reaches_inv: "reaches cr vm0 vm \<Longrightarrow> hashSizes cr \<Longrightarrow> engineInv vm0 \<Longrightarrow> engineInv vm"
proof (induction rule: reaches.induct)
  case (step vm fin vm')
  with Step_wp [of cr vm] show ?case by (simp add: wp_iff)
qed

definition sampleCrypto :: "(bytes, bytes) crypto" where
  "sampleCrypto = \<lparr>c_ripemd160 = (\<lambda>b. take 20 (b @ replicate 20 0)), c_sha1 = (\<lambda>b. take 20 (b @ replicate 20 0)),
     c_hashB = sampleHash, c_secp256k1 = sampleDsa, c_edwards = sampleDsa, c_secSchnorr = sampleDsa,
     c_bliss = \<lparr>pq_ParsePubKey = Some, pq_ParseSignature = Some, pq_Verify = (\<lambda>pk h s. s = pk)\<rparr>,
     c_lms = \<lparr>pq_ParsePubKey = Some, pq_ParseSignature = Some, pq_Verify = (\<lambda>pk h s. s = pk)\<rparr>,
     c_order = 7, c_pick = (\<lambda>_. 0)\<rparr>"

lemma sampleCrypto_sizes: "hashSizes sampleCrypto"
  by (simp add: hashSizes_def sampleCrypto_def sampleHash_def min_def)

lemma parse_ones: "parseOk [0x51] = Inr [opPop 0x51]" "parseOk [0x51, 0x93] = Inr [opPop 0x51, opPop 0x93]"
  by (simp_all add: parseOk_def parse_eval opPop_def)

lemma sample_engine:
  "NewEngine [0x51, 0x93] (sampleTx [0x51]) 0 0 0 (None :: (bytes, bytes) SigCache option) =
     Inr (startEngine (sampleTx [0x51]) 0 0 0 None [opPop 0x51] [opPop 0x51, opPop 0x93] 0 False)"
proof -
  have "typeOfScript [opPop 0x51, opPop 0x93] = NonStandardTy" by (simp add: typeOfScript_def class_defs opPop_def)
  then have "HasP2SHScriptSigStakeOpCodes 0 [0x51] [0x51, 0x93] = Inr ()"
    by (simp add: HasP2SHScriptSigStakeOpCodes_def getScriptClass_parse [OF parse_ones(2)] parse_ones IsStakeOutput_def isStakeClass_def)
  moreover have "SignatureScript (txIn (sampleTx [0x51]) ! nat 0) = [0x51]" "length (txIn (sampleTx [0x51])) = 1" by (simp_all add: sampleTx_def)
  ultimately show ?thesis
    by (simp add: NewEngine_eq [of "[0x51]"] parse_ones maxScriptSize_def)
qed

text \<open>
  C12. From a new engine on, whatever the script, the two stacks together never hold more than
  1024 elements after a step, no element is longer than 8192 bytes, and no more than 255
  operations have been counted for the current script.
\<close>

theorem engine_stays_bounded:
  assumes "hashSizes cr" "NewEngine pk mtx idx fl 0 sc = Inr vm0" "reaches cr vm0 vm"
  shows "length (stk (dstack vm)) + length (stk (astack vm)) \<le> 1024 \<and> numOps vm \<le> MaxOpsPerScript \<and>
    list_all (\<lambda>x. int (length x) \<le> MaxScriptElementSize) (stk (dstack vm) @ stk (astack vm))"
proof -
  have "engineInv vm" by (rule reaches_inv [OF assms(3,1) NewEngine_inv [OF assms(2)]])
  then show ?thesis
    by (auto simp: engineInv_def height_def elems_def MaxOpsPerScript_def MaxScriptElementSize_def list_all_iff)
qed

theorem engine_stays_bounded_witness:
  "length (stk (dstack (startEngine (sampleTx [0x51]) 0 0 0 (None :: (bytes, bytes) SigCache option) [opPop 0x51] [opPop 0x51, opPop 0x93] 0 False))) \<le> 1024"
  using engine_stays_bounded [OF sampleCrypto_sizes sample_engine reaches.start] by simp

text \<open>
  C3. No opcode makes the engine read outside a script, a stack or an element: in every reachable
  engine the next step does not panic, unless it is a signature check under one of the three encoding
  flags or the check of an alternative signature.
\<close>

theorem step_does_not_panic:
  assumes "hashSizes cr" "NewEngine pk mtx idx fl 0 sc = Inr vm0" "reaches cr vm0 vm"
    "derChecked vm \<longrightarrow> pop_value (curOp vm) \<notin> {OP_CHECKSIG, OP_CHECKSIGVERIFY, OP_CHECKMULTISIG, OP_CHECKMULTISIGVERIFY}"
    "pop_value (curOp vm) \<notin> {OP_CHECKSIGALT, OP_CHECKSIGALTVERIFY}"
  shows "Step cr vm \<noteq> panic"
proof
  assume "Step cr vm = panic"
  moreover have "engineInv vm" by (rule reaches_inv [OF assms(3,1) NewEngine_inv [OF assms(2)]])
  ultimately have "mayPanic (pop_value (curOp vm)) vm" using Step_wp [OF assms(1)] by fastforce
  moreover have "0xac \<le> v \<Longrightarrow> v \<le> 0xaf \<Longrightarrow> v \<in> {0xac, 0xad, 0xae, 0xaf}" for v :: byte
    by (simp add: word_le_nat_alt word_unat_eq_iff) linarith
  ultimately show False using assms(4,5) by (auto simp: mayPanic_def)
qed

theorem step_does_not_panic_witness:
  "Step sampleCrypto (startEngine (sampleTx [0x51]) 0 0 0 None [opPop 0x51] [opPop 0x51, opPop 0x93] 0 False) \<noteq> panic"
  by (rule step_does_not_panic [OF sampleCrypto_sizes sample_engine reaches.start])
    (simp_all add: curOp_def startEngine_def opPop_def)

lemma executeLoop_returns:
  assumes "hashSizes cr" "engineInv vm"
  shows "\<exists>r. executeLoop cr vm = Some r"
  using assms(2)
proof (induction vm rule: wf_induct_rule [OF wf_progress])
  case (1 vm)
  from Step_wp [OF assms(1) "1.prems"] have s: "engineInv vm'" "(vm', vm) \<in> progress" if "Step cr vm = Inr (fin, vm')" for fin vm'
    using that by auto
  with "1.IH" show ?case by (subst executeLoop.simps) (auto split: sum.splits)
qed

text \<open>
  C2. Execution ends: the loop of \<^verbatim>\<open>Execute\<close> returns a result for every engine that \<^verbatim>\<open>NewEngine\<close> makes.
\<close>

theorem execute_terminates:
  assumes "hashSizes cr" "NewEngine pk mtx idx fl v sc = Inr vm"
  shows "\<exists>r. Execute cr vm = Some r"
proof (cases "v = 0")
  case True
  from executeLoop_returns [OF assms(1) NewEngine_inv [OF assms(2) [unfolded True]]] show ?thesis
    by (auto simp: Execute_def)
next
  case False
  obtain sigPops pkPops start p2sh where "vm = startEngine mtx idx fl v sc sigPops pkPops start p2sh" using NewEngine_start [OF assms(2)] by metis
  with False show ?thesis by (simp add: Execute_def DefaultScriptVersion_def startEngine_def)
qed

theorem execute_terminates_witness:
  "\<exists>r. Execute sampleCrypto (startEngine (sampleTx [0x51]) 0 0 0 None [opPop 0x51] [opPop 0x51, opPop 0x93] 0 False) = Some r"
  by (rule execute_terminates [OF sampleCrypto_sizes sample_engine])

end
