(* ===== verification/EngineProps.thy ===== *)
theory EngineProps
  imports EngineRun "HOL-Library.Sublist"
begin

unbundle bit_operations_syntax

text \<open>
  What the signature opcodes of the script engine compute: the grammar that the encoding check accepts,
  the inputs on which that check and the check of an alternative signature panic, and the assignment
  of signatures to keys by \<^verbatim>\<open>OP_CHECKMULTISIG\<close>.
\<close>

section \<open>Signature encodings\<close>

text \<open>The content of an integer of the encoding: not empty, not negative, no padding byte that is not needed.\<close>

definition padded :: "bytes \<Rightarrow> bool" where
  "padded xs \<longleftrightarrow> 1 < length xs \<and> hd xs = 0 \<and> xs ! 1 AND 0x80 = 0"

definition derInt :: "bytes \<Rightarrow> bool" where
  "derInt xs \<longleftrightarrow> xs \<noteq> [] \<and> hd xs AND 0x80 = 0 \<and> \<not> padded xs"

definition derSig :: "bytes \<Rightarrow> bytes \<Rightarrow> bytes" where
  "derSig r s = [0x30, word_of_nat (length r + length s + 4), 0x02, word_of_nat (length r)] @ r @
     [0x02, word_of_nat (length s)] @ s"

lemma der_eval:
  fixes r s :: bytes and b0 b1 b2 b3 m b5 :: byte
  assumes "length r = unat b3" "derChecked vm"
  defines "sig \<equiv> [b0, b1, b2, b3] @ r @ [m, b5] @ s"
  shows "checkSignatureEncoding cr vm sig \<noteq> panic \<and> (checkSignatureEncoding cr vm sig = Inr () \<longleftrightarrow>
    length r + length s \<le> 66 \<and> b0 = 0x30 \<and> uint b1 = int (length r + length s + 4) \<and>
    unat b5 = length s \<and> b2 = 0x02 \<and> derInt r \<and> m = 0x02 \<and> derInt s \<and> (hasFlag vm ScriptVerifyLowS \<longrightarrow> setBytes s \<le> halfOrder cr))"
proof -
  have n: "length sig = length r + length s + 6" by (simp add: sig_def)
  have r: "uint b3 = int (length r)" using assms(1) by simp
  have a: "at sig 0 = Inr b0" "at sig 1 = Inr b1" "at sig 2 = Inr b2" "at sig 3 = Inr b3"
    by (simp_all add: at_def sig_def)
  have a5: "at sig (int (length r) + 5) = Inr b5" "at sig (int (length r) + 4) = Inr m"
    by (simp_all add: at_def sig_def nth_append nat_add_distrib nth_Cons')
  have ar: "at sig 4 = Inr (hd r)" if "r \<noteq> []" using that by (cases r) (simp_all add: at_def sig_def)
  have as6: "at sig (int (length r) + 6) = Inr (hd s)" if "s \<noteq> []" 
    using that by (cases s) (simp_all add: at_def sig_def nth_append nat_add_distrib nth_Cons')
  have badR: "(if int (length r) > 1 \<and> hd r = 0x00 then bindE (at sig 5) (\<lambda>b5. Inr (b5 AND 0x80 = 0)) else Inr False) = (Inr (padded r) :: bool sres)" 
    by (auto simp: padded_def at_def sig_def nth_append nth_Cons')
  have badS: "(if int (length s) > 1 \<and> hd s = 0x00 then bindE (at sig (int (length r) + 7)) (\<lambda>b5. Inr (b5 AND 0x80 = 0)) else Inr False) = (Inr (padded s) :: bool sres)" 
    by (auto simp: padded_def at_def sig_def nth_append nat_add_distrib nth_Cons')
  have "drop (length r + 6) sig = s" 
    unfolding sig_def append_assoc [symmetric] by (subst drop_append) (simp del: append_assoc)
  then have sl: "slice sig (int (length r) + 6) (int (length r) + 6 + int (length s)) = Inr s" 
    by (simp add: slice_def n nat_add_distrib)
  have c: "(\<not> hasFlag vm ScriptVerifyDERSignatures \<and> \<not> hasFlag vm ScriptVerifyLowS \<and> \<not> hasFlag vm ScriptVerifyStrictEncoding) \<longleftrightarrow> False"
    using assms(2) by (auto simp: derChecked_def)
  show ?thesis
  proof (cases "unat b5 = length s")
    case False
    have "uint b5 \<noteq> int (length s)" using False by (auto simp only: unat_eq_nat_uint nat_int)
    then have s: "int (length r) + uint b5 + 6 \<noteq> int (length r + length s + 6)" by simp
    show ?thesis
      unfolding checkSignatureEncoding_def Let_def c a bindE_Inr r a5 n if_P [OF s] using False by simp
  next
    case True
    have s: "uint b5 = int (length s)" using True [symmetric] by simp
    show ?thesis
    proof (cases "r = [] \<or> s = []")
      case True
      show ?thesis
      proof (cases "r = []")
        case False
        then have l: "int (length r) \<noteq> 0" by simp
        show "?thesis" unfolding checkSignatureEncoding_def Let_def c a bindE_Inr r a5 s n ar [OF False] badR if_not_P [OF l]
          using \<open>r = [] \<or> s = []\<close> False by (simp split del: if_split add: derInt_def if_distrib [of "\<lambda>x. x = _"] cong: if_cong)
      next
        case True
        then show ?thesis unfolding checkSignatureEncoding_def Let_def c a bindE_Inr r a5 s n by (simp add: derInt_def)
      qed
    next
      case False
      then have l: "int (length r) \<noteq> 0" "int (length s) \<noteq> 0" "r \<noteq> []" "s \<noteq> []" by simp_all
      then have l2: "\<not> int (length r) + int (length s) < 2" by (cases r; cases s) simp_all
      show ?thesis unfolding checkSignatureEncoding_def Let_def c a bindE_Inr r a5 s n ar [OF l(3)] as6 [OF l(4)] badR badS sl if_not_P [OF l(1)] if_not_P [OF l(2)] derInt_def
        using l(3,4) l2 True by (simp split del: if_split add: if_distrib [of "\<lambda>x. x = _"] cong: if_cong) auto 
    qed
  qed
qed

lemma der_decomp:
  assumes "length sig \<ge> 8" "unat (sig ! 3) + 5 < length sig"
  obtains b0 b1 b2 b3 m b5 r s where "sig = [b0, b1, b2, b3] @ r @ [m, b5] @ s" "length r = unat b3"
proof -
  from assms(1) obtain b0 b1 b2 b3 rest where s: "sig = b0 # b1 # b2 # b3 # rest"
    by (auto simp: numeral_eq_Suc Suc_le_length_iff)
  define n where "n = unat b3"
  from assms(2) s have l: "n + 1 < length rest" by (simp add: n_def)
  have "rest = take n rest @ [rest ! n, rest ! Suc n] @ drop (n + 2) rest"
    using l by (metis Cons_nth_drop_Suc Suc_eq_plus1 Suc_lessD add_2_eq_Suc' append_Cons append_Nil append_take_drop_id)
  with that [of b0 b1 b2 b3 "take n rest"] s l show thesis by (simp add: n_def)
qed

lemma der_short:
  assumes "derChecked vm" "length sig \<ge> 8" "length sig \<le> unat (sig ! 3) + 5"
  shows "checkSignatureEncoding cr vm sig \<noteq> Inr () \<and> (checkSignatureEncoding cr vm sig = panic \<longleftrightarrow>
    length sig \<le> 72 \<and> sig ! 0 = 0x30 \<and> uint (sig ! 1) = int (length sig) - 2 \<and> uint (sig ! 3) = int (length sig) - 5)"
proof -
  have c: "(\<not> hasFlag vm ScriptVerifyDERSignatures \<and> \<not> hasFlag vm ScriptVerifyLowS \<and> \<not> hasFlag vm ScriptVerifyStrictEncoding) \<longleftrightarrow> False"
    using assms(1) by (auto simp: derChecked_def)
  have a: "at sig 0 = (Inr (sig ! 0) :: byte sres)" "at sig 1 = (Inr (sig ! 1) :: byte sres)" "at sig 3 = (Inr (sig ! 3) :: byte sres)"
    using assms(2) by (auto simp: at_def)
  have "uint (sig ! 3) = int (unat (sig ! 3))" by simp
  with assms(3) have l: "int (length sig) \<le> uint (sig ! 3) + 5" by linarith
  have p: "at sig (uint (sig ! 3) + 5) = (panic :: byte sres)" using l by (simp add: at_def)
  show ?thesis unfolding checkSignatureEncoding_def Let_def c a bindE_Inr p bindE_Inl using assms(2) l by auto
qed

text \<open>
  C37. Under one of the encoding flags, the signatures that the encoding check accepts are exactly the
  strict DER encodings of two positive integers of at most 66 bytes together, the second of
  which is at most half the group order when the low S rule is on.
\<close>

theorem der_accepts_iff:
  assumes "derChecked vm"
  shows "checkSignatureEncoding cr vm sig = Inr () \<longleftrightarrow>
    (\<exists>r s. sig = derSig r s \<and> length r + length s \<le> 66 \<and> derInt r \<and> derInt s \<and>
       (hasFlag vm ScriptVerifyLowS \<longrightarrow> setBytes s \<le> halfOrder cr))"
proof
  assume acc: "checkSignatureEncoding cr vm sig = Inr ()"
  then have l8: "length sig \<ge> 8" using assms by (auto simp: checkSignatureEncoding_def derChecked_def Let_def split: if_splits)
  with acc der_short [OF assms l8, of cr] have "unat (sig ! 3) + 5 < length sig" by force
  from der_decomp [OF l8 this] obtain b0 b1 b2 b3 m b5 r s where sig: "sig = [b0, b1, b2, b3] @ r @ [m, b5] @ s" "length r = unat b3" .
  from der_eval [OF sig(2) assms, of cr b0 b1 b2 m b5 s] acc sig(1) have e:
    "length r + length s \<le> 66" "b0 = 0x30" "uint b1 = int (length r + length s + 4)" "unat b5 = length s" "b2 = 0x02" "derInt r" "m = 0x02" "derInt s"
    "hasFlag vm ScriptVerifyLowS \<longrightarrow> setBytes s \<le> halfOrder cr" by blast+
  have "b1 = word_of_nat (length r + length s + 4)" "b3 = word_of_nat (length r)" "b5 = word_of_nat (length s)"
    using e(3,4) sig(2) by (metis of_int_of_nat_eq word_of_int_uint, simp, metis of_nat_unat ucast_id)
  with e sig(1) show "\<exists>r s. sig = derSig r s \<and> length r + length s \<le> 66 \<and> derInt r \<and> derInt s \<and> (hasFlag vm ScriptVerifyLowS \<longrightarrow> setBytes s \<le> halfOrder cr)"
    unfolding derSig_def by blast
next
  assume "\<exists>r s. sig = derSig r s \<and> length r + length s \<le> 66 \<and> derInt r \<and> derInt s \<and> (hasFlag vm ScriptVerifyLowS \<longrightarrow> setBytes s \<le> halfOrder cr)"
  then obtain r s where e: "sig = derSig r s" "length r + length s \<le> 66" "derInt r" "derInt s" "hasFlag vm ScriptVerifyLowS \<longrightarrow> setBytes s \<le> halfOrder cr" by blast
  from e(2) have "uint (word_of_nat (length r + length s + 4) :: byte) = int (length r + length s + 4)" "unat (word_of_nat (length s) :: byte) = length s"
    "length r = unat (word_of_nat (length r) :: byte)"
    by (simp_all add: take_bit_nat_eq_self take_bit_int_eq_self unsigned_of_nat del: of_nat_add)
  with der_eval [OF this(3) assms, of cr "0x30" "word_of_nat (length r + length s + 4)" 2 2 "word_of_nat (length s)" s] e
  show "checkSignatureEncoding cr vm sig = Inr ()" by (simp add: derSig_def)
qed

theorem der_accepts_iff_witness:
  "checkSignatureEncoding sampleCrypto (startEngine (sampleTx []) 0 0x40 0 None [] [] 0 False) [0x30, 6, 2, 1, 5, 2, 1, 7] = Inr ()"
proof -
  let ?vm = "startEngine (sampleTx []) 0 0x40 0 (None :: (bytes, bytes) SigCache option) [] [] 0 False"
  have d: "derChecked ?vm" and "\<not> hasFlag ?vm ScriptVerifyLowS"
    by (simp_all add: derChecked_def hasFlag_def startEngine_def)
  then have "\<exists>r s. [0x30, 6, 2, 1, 5, 2, 1, 7] = derSig r s \<and> length r + length s \<le> 66 \<and> derInt r \<and> derInt s \<and>
      (hasFlag ?vm ScriptVerifyLowS \<longrightarrow> setBytes s \<le> halfOrder sampleCrypto)"
    by - (rule exI [of _ "[5]"], rule exI [of _ "[7]"], simp add: derSig_def derInt_def padded_def)
  with der_accepts_iff [OF d] show ?thesis by blast
qed

text \<open>
  C38. The encoding check panics on exactly those signatures whose first integer ends with the
  signature: the bound is checked with one byte too few before the length of the second
  integer is read.
\<close>

theorem der_check_panics_iff:
  "checkSignatureEncoding cr vm sig = panic \<longleftrightarrow> derChecked vm \<and> length sig \<in> {8..72} \<and> sig ! 0 = 0x30 \<and>
     uint (sig ! 1) = int (length sig) - 2 \<and> uint (sig ! 3) = int (length sig) - 5"
proof (cases "derChecked vm \<and> length sig \<ge> 8")
  case False
  then show ?thesis by (auto simp: checkSignatureEncoding_def derChecked_def Let_def)
next
  case True
  show ?thesis
  proof (cases "length sig \<le> unat (sig ! 3) + 5")
    case le: True
    with True der_short [of vm sig cr] show ?thesis by auto
  next
    case False
    then have l: "unat (sig ! 3) + 5 < length sig" by simp
    moreover have "uint (sig ! 3) = int (unat (sig ! 3))" by simp
    ultimately have "uint (sig ! 3) \<noteq> int (length sig) - 5" by linarith
    moreover from True have "length sig \<ge> 8" by simp
    from der_decomp [OF this l] obtain b0 b1 b2 b3 m b5 r s where sig: "sig = [b0, b1, b2, b3] @ r @ [m, b5] @ s" "length r = unat b3" .
    have "checkSignatureEncoding cr vm sig \<noteq> panic" using der_eval [OF sig(2)] True unfolding sig(1) by blast
    ultimately show ?thesis by blast
  qed
qed

section \<open>Multiple signatures\<close>



text \<open>The signatures match keys in order: the specification, and the loop as a recursion on both lists.\<close>

definition matchInOrder :: "('a \<Rightarrow> 'b \<Rightarrow> bool) \<Rightarrow> 'a list \<Rightarrow> 'b list \<Rightarrow> bool" where
  "matchInOrder ok sigs keys \<longleftrightarrow> (\<exists>ks. subseq ks keys \<and> list_all2 ok sigs ks)"


lemma matchInOrder_Nil [simp]: "matchInOrder ok [] ks" "\<not> matchInOrder ok (s # ss) []"
  by (auto simp: matchInOrder_def list_all2_Cons1)






definition verified :: "('pk, 'sg) dsa \<Rightarrow> bytes \<times> 'sg \<times> 'pk \<Rightarrow> bool" where
  "verified ec k = (case k of (h, s, pk) \<Rightarrow> Verify ec pk h (GetR ec s) (GetS ec s))"

definition soundCache :: "('pk, 'sg) crypto \<Rightarrow> ('pk, 'sg) SigCache option \<Rightarrow> bool" where
  "soundCache cr sc \<longleftrightarrow> (\<forall>c k. sc = Some c \<and> cacheMem (c_secp256k1 cr) c k \<longrightarrow> verified (c_secp256k1 cr) k)"










text \<open>
  What a run of the loop gives: the verdict, with nothing but the cache of the engine changed, or a failure, which
  has a cause in an encoding or a hash.
\<close>

definition multiResult :: "('pk, 'sg) crypto \<Rightarrow> ('pk, 'sg) Engine \<Rightarrow> bool \<Rightarrow> bool \<Rightarrow> (bool \<times> ('pk, 'sg) Engine) sres \<Rightarrow> bool" where
  "multiResult cr vm fine verdict r \<longleftrightarrow>
     (case r of Inl e \<Rightarrow> \<not> fine | Inr (b, vm') \<Rightarrow> b = verdict \<and> (\<exists>sc. vm' = vm\<lparr>sigCache := sc\<rparr> \<and> soundCache cr sc))"

lemma multiResult_simps [simp]:
  "multiResult cr vm fine verdict (Inl e) \<longleftrightarrow> \<not> fine"
  "multiResult cr vm fine verdict (Inr (b, vm\<lparr>sigCache := sc\<rparr>)) \<longleftrightarrow> b = verdict \<and> soundCache cr sc"
proof -
  have "sc' = sc" if "vm\<lparr>sigCache := sc\<rparr> = vm\<lparr>sigCache := sc'\<rparr>" for sc'
    using arg_cong [OF that, of sigCache] by simp
  then show "multiResult cr vm fine verdict (Inr (b, vm\<lparr>sigCache := sc\<rparr>)) \<longleftrightarrow> b = verdict \<and> soundCache cr sc"
    by (auto simp: multiResult_def)
qed (simp add: multiResult_def)
















text \<open>An alternative signature of the two post-quantum suites is not checked to have a hash type byte: an empty one panics.\<close>

lemma alt_empty_signature_panics:
  "opcodeCheckSigAlt cr op (vm\<lparr>dstack := \<lparr>stk = [[], replicate 32 0, [word_of_int lm]], verifyMinimalData = False\<rparr>\<rparr>) = panic"
  by (simp add: opcodeCheckSigAlt_def popInt_def PopInt_def popBytes_def PopByteArray_eq small_stack_def makeScriptNum_def at_def
      Let_def wrap64_id altSigSuitesMaxscriptNumLen_def)

end
