(* ===== verification/TicketTreap.thy ===== *)
theory TicketTreap
  imports Prelude
begin

text \<open>
  The ticket treaps of \<^verbatim>\<open>blockchain/stake/internal/tickettreap\<close>: a binary search tree whose nodes carry random
  priorities. \<^verbatim>\<open>Put\<close> links a leaf and rotates it up, \<^verbatim>\<open>Delete\<close> rotates a node down until it is a leaf.

  Nodes form trees without sharing inside one treap, so a node is a value and the list of parents that the
  code keeps while it descends is a list of frames: what remains of each parent when the child that was
  entered is taken out. The priorities are drawn from a random source, whose next value is an
  argument. Keys are any linear order; the tickets use 32 byte hashes in the order of
  \<^verbatim>\<open>bytes.Compare\<close>.
\<close>

section \<open>The stack of parents\<close>

definition staticDepth :: nat where "staticDepth = 128"

record 'a parentStack =
  ps_index :: int
  ps_items :: "'a option list"
  ps_overflow :: "'a option list"

definition emptyParents :: "'a parentStack" where
  "emptyParents = \<lparr>ps_index = 0, ps_items = replicate staticDepth None, ps_overflow = []\<rparr>"

definition ps_Len :: "'a parentStack \<Rightarrow> int" where
  "ps_Len s = ps_index s"

definition ps_At :: "'a parentStack \<Rightarrow> int \<Rightarrow> ('e, 'a option) result" where
  "ps_At s n =
     (let index = ps_index s - n - 1
      in if index < 0 then Inr None
         else if index < int staticDepth then at (ps_items s) index
         else at (ps_overflow s) (index - int staticDepth))"

definition ps_Pop :: "'a parentStack \<Rightarrow> ('e, 'a option \<times> 'a parentStack) result" where
  "ps_Pop s =
     (if ps_index s = 0 then Inr (None, s)
      else let i = ps_index s - 1; s = s\<lparr>ps_index := i\<rparr>
      in if i < int staticDepth
         then bindE (at (ps_items s) i) (\<lambda>node. Inr (node, s\<lparr>ps_items := (ps_items s)[nat i := None]\<rparr>))
         else bindE (at (ps_overflow s) (i - int staticDepth)) (\<lambda>node.
           Inr (node, s\<lparr>ps_overflow := (ps_overflow s)[nat (i - int staticDepth) := None]\<rparr>)))"

definition ps_Push :: "'a parentStack \<Rightarrow> 'a \<Rightarrow> ('e, 'a parentStack) result" where
  "ps_Push s node =
     (if ps_index s < int staticDepth
      then bindE (at (ps_items s) (ps_index s)) (\<lambda>_.
        Inr (s\<lparr>ps_items := (ps_items s)[nat (ps_index s) := Some node], ps_index := ps_index s + 1\<rparr>))
      else let index = ps_index s - int staticDepth;
               overflow = (if index + 1 > int (length (ps_overflow s))
                           then ps_overflow s @ replicate (nat (index + 1) - length (ps_overflow s)) None
                           else ps_overflow s)
      in bindE (at overflow index) (\<lambda>_.
        Inr (s\<lparr>ps_overflow := overflow[nat index := Some node], ps_index := ps_index s + 1\<rparr>)))"

text \<open>What the treap code relies on: a stack of nodes, whatever the layout.\<close>

locale lifo =
  fixes inv :: "'s \<Rightarrow> bool" and abs :: "'s \<Rightarrow> 'a list" and empty :: 's
    and len :: "'s \<Rightarrow> int" and top :: "'s \<Rightarrow> int \<Rightarrow> ('e, 'a option) result"
    and pop :: "'s \<Rightarrow> ('e, 'a option \<times> 's) result" and push :: "'s \<Rightarrow> 'a \<Rightarrow> ('e, 's) result"
  assumes empty: "inv empty" "abs empty = []"
    and len: "inv s \<Longrightarrow> len s = int (length (abs s))"
    and top: "inv s \<Longrightarrow> 0 \<le> n \<Longrightarrow> top s n = Inr (if n < int (length (abs s)) then Some (abs s ! nat n) else None)"
    and push: "inv s \<Longrightarrow> \<exists>s'. push s x = Inr s' \<and> inv s' \<and> abs s' = x # abs s"
    and pop: "inv s \<Longrightarrow> \<exists>s'. pop s = Inr (case abs s of [] \<Rightarrow> None | x # _ \<Rightarrow> Some x, s') \<and> inv s' \<and> abs s' = tl (abs s)"
begin

fun pushAll :: "'a list \<Rightarrow> 's \<Rightarrow> ('e, 's) result" where
  "pushAll [] s = Inr s"
| "pushAll (x # xs) s = bindE (push s x) (pushAll xs)"

fun popN :: "nat \<Rightarrow> 's \<Rightarrow> ('e, 'a option list) result" where
  "popN 0 s = Inr []"
| "popN (Suc n) s = bindE (pop s) (\<lambda>(x, s). bindE (popN n s) (\<lambda>xs. Inr (x # xs)))"

lemma pushAll_abs: "inv s \<Longrightarrow> \<exists>s'. pushAll xs s = Inr s' \<and> inv s' \<and> abs s' = rev xs @ abs s"
proof (induction xs arbitrary: s)
  case (Cons x xs)
  obtain s' where "push s x = Inr s'" "inv s'" "abs s' = x # abs s" using push [OF Cons.prems] by blast
  with Cons.IH [of s'] show ?case by auto
qed simp

lemma popN_abs: "inv s \<Longrightarrow> n \<le> length (abs s) \<Longrightarrow> popN n s = Inr (map Some (take n (abs s)))"
proof (induction n arbitrary: s)
  case (Suc n)
  obtain s' where s': "pop s = Inr (case abs s of [] \<Rightarrow> None | x # _ \<Rightarrow> Some x, s')" "inv s'" "abs s' = tl (abs s)"
    using pop [OF Suc.prems(1)] by blast
  with Suc.IH [of s'] Suc.prems(2) show ?case by (cases "abs s") auto
qed simp

lemma push_pop: "\<exists>s. pushAll xs empty = Inr s \<and> popN (length xs) s = Inr (map Some (rev xs))"
  using pushAll_abs [OF empty(1), of xs] popN_abs empty(2) by fastforce

end

text \<open>The contents of the two arrays below the index, the top first.\<close>

definition ps_slots :: "'a parentStack \<Rightarrow> 'a option list" where
  "ps_slots s = take (nat (ps_index s)) (ps_items s @ ps_overflow s)"

definition ps_abs :: "'a parentStack \<Rightarrow> 'a list" where
  "ps_abs s = rev (map the (ps_slots s))"

definition ps_inv :: "'a parentStack \<Rightarrow> bool" where
  "ps_inv s \<longleftrightarrow> 0 \<le> ps_index s \<and> length (ps_items s) = staticDepth \<and>
     ps_index s \<le> int (staticDepth + length (ps_overflow s)) \<and> list_all (\<lambda>x. x \<noteq> None) (ps_slots s)"

lemma ps_length: "ps_inv s \<Longrightarrow> length (ps_slots s) = nat (ps_index s)"
  by (auto simp: ps_inv_def ps_slots_def)

lemma ps_slot:
  assumes "ps_inv s" "0 \<le> i" "i < ps_index s"
  shows "ps_slots s ! nat i = Some (the (ps_slots s ! nat i))"
    "i < int staticDepth \<Longrightarrow> at (ps_items s) i = Inr (ps_slots s ! nat i)"
    "\<not> i < int staticDepth \<Longrightarrow> at (ps_overflow s) (i - int staticDepth) = Inr (ps_slots s ! nat i)"
proof -
  have "ps_slots s ! nat i \<noteq> None" using assms ps_length [OF assms(1)] by (auto simp: ps_inv_def list_all_length)
  then show "ps_slots s ! nat i = Some (the (ps_slots s ! nat i))" by simp
qed (use assms in \<open>auto simp: at_def ps_slots_def ps_inv_def nth_append nat_diff_distrib' simp del: take_append\<close>)

lemma take_Suc_update: "i < length xs \<Longrightarrow> take (Suc i) (xs[i := y]) = take i xs @ [y]"
  by (simp add: take_Suc_conv_app_nth)

lemma ps_At_abs:
  assumes "ps_inv s" "0 \<le> n"
  shows "ps_At s n = Inr (if n < int (length (ps_abs s)) then Some (ps_abs s ! nat n) else None)"
proof (cases "n < ps_index s")
  case True
  have "nat (ps_index s - n - 1) = length (ps_slots s) - Suc (nat n)" using True assms ps_length [OF assms(1)] by (simp add: nat_diff_distrib')
  then have "ps_abs s ! nat n = the (ps_slots s ! nat (ps_index s - n - 1))"
    using True assms ps_length [OF assms(1)] by (simp add: ps_abs_def rev_nth rev_map [symmetric])
  with True assms ps_slot [of s "ps_index s - n - 1"] ps_length [OF assms(1)] show ?thesis by (auto simp: ps_At_def ps_abs_def Let_def)
next
  case False
  with assms ps_length [OF assms(1)] show ?thesis by (simp add: ps_At_def ps_abs_def Let_def ps_inv_def)
qed

lemma ps_Push_abs:
  assumes "ps_inv s"
  shows "\<exists>s'. (ps_Push s x :: ('e, 'a parentStack) result) = Inr s' \<and> ps_inv s' \<and> ps_abs s' = x # ps_abs s"
proof -
  from assms have ge: "0 \<le> ps_index s" "length (ps_items s) = staticDepth" "ps_index s \<le> int (staticDepth + length (ps_overflow s))"
    by (simp_all add: ps_inv_def)
  obtain k where k: "ps_index s = int k" using ge(1) nonneg_int_cases by blast
  define ov where "ov = (if k < staticDepth then ps_overflow s else ps_overflow s @ replicate (Suc (k - staticDepth) - length (ps_overflow s)) None)"
  have kl: "k < length (ps_items s @ ov)" and take: "take k (ps_items s @ ov) = ps_slots s"
    using ge k by (auto simp: ov_def ps_slots_def)
  obtain s' where s': "(ps_Push s x :: ('e, 'a parentStack) result) = Inr s'" "ps_index s' = int (Suc k)" "length (ps_items s') = staticDepth" "ps_items s' @ ps_overflow s' = (ps_items s @ ov)[k := Some x]"
  proof (cases "k < staticDepth")
    case True
    show ?thesis
      by (rule that [of "s\<lparr>ps_items := (ps_items s)[k := Some x], ps_index := int k + 1\<rparr>"])
        (use True ge k in \<open>simp_all add: ps_Push_def at_def ov_def list_update_append\<close>)
  next
    case False
    have ov': "ov = (if int k - int staticDepth + 1 > int (length (ps_overflow s))
        then ps_overflow s @ replicate (nat (int k - int staticDepth + 1) - length (ps_overflow s)) None else ps_overflow s)"
      using False by (auto simp: ov_def nat_diff_distrib' nat_add_distrib)
    have a: "at ov (int k - int staticDepth) = (Inr (ov ! (k - staticDepth)) :: ('e, _) result)" using False kl ge by (auto simp: at_def nat_diff_distrib')
    have "nat (int k - int staticDepth) = k - staticDepth" by simp
    then have "(ps_Push s x :: ('e, 'a parentStack) result) = Inr (s\<lparr>ps_overflow := ov[k - staticDepth := Some x], ps_index := int k + 1\<rparr>)"
      unfolding ps_Push_def k Let_def ov' [symmetric] a using False by simp
    then show ?thesis
      by (rule that [of "s\<lparr>ps_overflow := ov[k - staticDepth := Some x], ps_index := int k + 1\<rparr>"])
        (use False ge in \<open>simp_all add: list_update_append\<close>)
  qed
  have sl: "ps_slots s' = ps_slots s @ [Some x]"
    unfolding ps_slots_def [of s'] s'(2,4) nat_int take_Suc_update [OF kl] take ..
  have "ps_index s' \<le> int (staticDepth + length (ps_overflow s'))" using s'(2,3) kl arg_cong [OF s'(4), of length] by simp
  with s'(2,3) sl assms have "ps_inv s'" by (simp add: ps_inv_def)
  moreover have "ps_abs s' = x # ps_abs s" by (simp add: ps_abs_def sl)
  ultimately show ?thesis using s'(1) by blast
qed

lemma ps_Pop_abs:
  assumes "ps_inv s"
  shows "\<exists>s'. (ps_Pop s :: ('e, 'a option \<times> 'a parentStack) result) = Inr (case ps_abs s of [] \<Rightarrow> None | x # _ \<Rightarrow> Some x, s') \<and> ps_inv s' \<and> ps_abs s' = tl (ps_abs s)"
proof (cases "ps_index s = 0")
  case True
  then show ?thesis using assms by (auto simp: ps_Pop_def ps_abs_def ps_slots_def)
next
  case False
  from assms have ge: "0 \<le> ps_index s" "length (ps_items s) = staticDepth" "ps_index s \<le> int (staticDepth + length (ps_overflow s))"
    by (simp_all add: ps_inv_def)
  define k where "k = nat (ps_index s - 1)"
  have k: "ps_index s = int (Suc k)" using False ge(1) by (simp add: k_def)
  have l: "length (ps_slots s) = Suc k" using ps_length [OF assms] k by simp
  then obtain ys z where z: "ps_slots s = ys @ [z]" "length ys = k" by (metis length_Suc_conv_rev)
  have "list_all (\<lambda>x. x \<noteq> None) (ps_slots s)" using assms by (simp add: ps_inv_def)
  with z obtain y where ys: "ps_slots s = ys @ [Some y]" by auto
  have slot: "ps_slots s ! nat (int k) = Some y" using ys z(2) [symmetric] by simp
  have a: "k < staticDepth \<Longrightarrow> at (ps_items s) (int k) = (Inr (Some y) :: ('e, 'a option) result)"
    "\<not> k < staticDepth \<Longrightarrow> at (ps_overflow s) (int k - int staticDepth) = (Inr (Some y) :: ('e, 'a option) result)"
    using ps_slot(2,3) [OF assms, of "int k"] slot k by simp_all
  define s' where "s' = (if k < staticDepth then s\<lparr>ps_index := int k, ps_items := (ps_items s)[k := None]\<rparr>
    else s\<lparr>ps_index := int k, ps_overflow := (ps_overflow s)[k - staticDepth := None]\<rparr>)"
  have idx: "nat (int k - int staticDepth) = k - staticDepth" by simp
  have s': "(ps_Pop s :: ('e, 'a option \<times> 'a parentStack) result) = Inr (Some y, s')"
    unfolding ps_Pop_def Let_def k using a idx by (simp add: s'_def)
  have s'': "ps_index s' = int k" "length (ps_items s') = staticDepth"
      "length (ps_overflow s') = length (ps_overflow s)" "ps_items s' @ ps_overflow s' = (ps_items s @ ps_overflow s)[k := None]"
    using ge by (simp_all add: s'_def list_update_append)
  have "take k (ps_items s @ ps_overflow s) = take k (ps_slots s)" by (simp add: ps_slots_def k del: take_append)
  moreover have "take k (ps_slots s) = ys" using ys z(2) [symmetric] by simp
  ultimately have "ps_slots s' = ys"
    unfolding ps_slots_def [of s'] s''(1,4) nat_int by simp
  then have abs: "ps_abs s = y # ps_abs s'" by (simp add: ps_abs_def ys)
  have "ps_inv s'" using s''(1-3) ge k assms ys \<open>ps_slots s' = ys\<close> by (simp add: ps_inv_def)
  with abs s' show ?thesis by simp
qed

interpretation parents: lifo ps_inv ps_abs emptyParents ps_Len ps_At ps_Pop ps_Push
proof
  show "ps_inv emptyParents" "ps_abs emptyParents = []"
    by (simp_all add: ps_inv_def ps_abs_def ps_slots_def emptyParents_def)
  show "ps_Len s = int (length (ps_abs s))" if "ps_inv s" for s :: "'a parentStack"
    using ps_length [OF that] that by (simp add: ps_Len_def ps_abs_def ps_inv_def)
qed (rule ps_At_abs ps_Push_abs ps_Pop_abs; assumption)+

section \<open>Nodes\<close>

datatype ('k, 'v) treapNode = NilNode | TreapNode "('k, 'v) treapNode" 'k 'v int "('k, 'v) treapNode"

text \<open>A parent without the child that was entered.\<close>

datatype ('k, 'v) frame = LeftOf 'k 'v int "('k, 'v) treapNode" | RightOf "('k, 'v) treapNode" 'k 'v int

text \<open>\<^verbatim>\<open>nodeSize\<close> of a node with a 32 byte key.\<close>

definition nodeSize :: "64 word" where "nodeSize = 32 + (32 + 4)"

definition newTreapNode :: "'k \<Rightarrow> 'v \<Rightarrow> int \<Rightarrow> ('k, 'v) treapNode" where
  "newTreapNode key val priority = TreapNode NilNode key val priority NilNode"

fun plug :: "('k, 'v) treapNode \<Rightarrow> ('k, 'v) frame list \<Rightarrow> ('k, 'v) treapNode" where
  "plug t [] = t"
| "plug t (LeftOf k v p r # ps) = plug (TreapNode t k v p r) ps"
| "plug t (RightOf l k v p # ps) = plug (TreapNode l k v p t) ps"

text \<open>The search loop of \<^verbatim>\<open>Put\<close> and \<^verbatim>\<open>Delete\<close>: the node that was reached and its parents.\<close>

fun descend :: "'k::linorder \<Rightarrow> ('k, 'v) treapNode \<Rightarrow> ('k, 'v) frame list \<Rightarrow> ('k, 'v) treapNode \<times> ('k, 'v) frame list" where
  "descend key NilNode ps = (NilNode, ps)"
| "descend key (TreapNode l k v p r) ps =
     (if key < k then descend key l (LeftOf k v p r # ps)
      else if key > k then descend key r (RightOf l k v p # ps)
      else (TreapNode l k v p r, ps))"

text \<open>The loop of \<^verbatim>\<open>Put\<close> that rotates the node up and rebuilds the ancestors.\<close>

fun rotateUp :: "('k, 'v) treapNode \<Rightarrow> ('k, 'v) frame list \<Rightarrow> ('k, 'v) treapNode" where
  "rotateUp (TreapNode nl nk nv np nr) (LeftOf k v p r # ps) =
     (if np \<ge> p then plug (TreapNode nl nk nv np nr) (LeftOf k v p r # ps)
      else rotateUp (TreapNode nl nk nv np (TreapNode nr k v p r)) ps)"
| "rotateUp (TreapNode nl nk nv np nr) (RightOf l k v p # ps) =
     (if np \<ge> p then plug (TreapNode nl nk nv np nr) (RightOf l k v p # ps)
      else rotateUp (TreapNode (TreapNode l k v p nl) nk nv np nr) ps)"
| "rotateUp node ps = plug node ps"

text \<open>The loop of \<^verbatim>\<open>Delete\<close> that rotates the node down, and drops it once it is a leaf.\<close>

fun rotateDown :: "('k, 'v) treapNode \<Rightarrow> ('k, 'v) treapNode" where
  "rotateDown NilNode = NilNode"
| "rotateDown (TreapNode NilNode k v p NilNode) = NilNode"
| "rotateDown (TreapNode NilNode k v p (TreapNode cl ck cv cp cr)) = TreapNode (rotateDown (TreapNode NilNode k v p cl)) ck cv cp cr"
| "rotateDown (TreapNode (TreapNode cl ck cv cp cr) k v p NilNode) = TreapNode cl ck cv cp (rotateDown (TreapNode cr k v p NilNode))"
| "rotateDown (TreapNode (TreapNode al ak av ap ar) k v p (TreapNode bl bk bv bp br)) =
     (if ap \<ge> bp then TreapNode al ak av ap (rotateDown (TreapNode ar k v p (TreapNode bl bk bv bp br)))
      else TreapNode (rotateDown (TreapNode (TreapNode al ak av ap ar) k v p bl)) bk bv bp br)"

fun getNode :: "'k::linorder \<Rightarrow> ('k, 'v) treapNode \<Rightarrow> 'v option" where
  "getNode key NilNode = None"
| "getNode key (TreapNode l k v p r) =
     (if key < k then getNode key l else if key > k then getNode key r else Some v)"

section \<open>The immutable treap\<close>

record ('k, 'v) Immutable =
  root :: "('k, 'v) treapNode"
  cnt :: int
  totalSize :: "64 word"

definition newImmutable :: "('k, 'v) treapNode \<Rightarrow> int \<Rightarrow> 64 word \<Rightarrow> ('k, 'v) Immutable" where
  "newImmutable r c s = \<lparr>root = r, cnt = c, totalSize = s\<rparr>"

definition NewImmutable :: "('k, 'v) Immutable" where
  "NewImmutable = \<lparr>root = NilNode, cnt = 0, totalSize = 0\<rparr>"

definition Len :: "('k, 'v) Immutable \<Rightarrow> int" where
  "Len t = cnt t"

definition Size :: "('k, 'v) Immutable \<Rightarrow> 64 word" where
  "Size t = totalSize t"

definition Get :: "('k::linorder, 'v) Immutable \<Rightarrow> 'k \<Rightarrow> 'v option" where
  "Get t key = getNode key (root t)"

definition Has :: "('k::linorder, 'v) Immutable \<Rightarrow> 'k \<Rightarrow> bool" where
  "Has t key \<longleftrightarrow> getNode key (root t) \<noteq> None"

text \<open>\<open>rnd\<close> is the next value of \<^verbatim>\<open>rng.Int()\<close>; the value is a pointer that may be nil.\<close>

definition Put :: "int \<Rightarrow> ('k::linorder, 'v) Immutable \<Rightarrow> 'k \<Rightarrow> 'v option \<Rightarrow> ('k, 'v) Immutable" where
  "Put rnd t key val =
     (case val of
        None \<Rightarrow> t
      | Some v \<Rightarrow>
          if root t = NilNode then newImmutable (newTreapNode key v rnd) 1 nodeSize
          else (case descend key (root t) [] of
                  (TreapNode l k _ p r, ps) \<Rightarrow> newImmutable (plug (TreapNode l k v p r) ps) (cnt t) (totalSize t)
                | (NilNode, ps) \<Rightarrow>
                    newImmutable (rotateUp (newTreapNode key v rnd) ps) (wrap64 (cnt t + 1)) (totalSize t + nodeSize)))"

definition Delete :: "('k::linorder, 'v) Immutable \<Rightarrow> 'k \<Rightarrow> ('k, 'v) Immutable" where
  "Delete t key =
     (case descend key (root t) [] of
        (NilNode, _) \<Rightarrow> t
      | (TreapNode l k v p r, ps) \<Rightarrow>
          if ps = [] \<and> l = NilNode \<and> r = NilNode then newImmutable NilNode 0 0
          else newImmutable (plug (rotateDown (TreapNode l k v p r)) ps) (wrap64 (cnt t - 1)) (totalSize t - nodeSize))"

text \<open>
  \<^verbatim>\<open>ForEach\<close> with its stack of nodes; the function returns whether to go on and may update variables it
  closes over, the state \<open>s\<close>.
\<close>

fun pushLeft :: "('k, 'v) treapNode \<Rightarrow> ('k, 'v) treapNode list \<Rightarrow> ('k, 'v) treapNode list" where
  "pushLeft NilNode ps = ps"
| "pushLeft (TreapNode l k v p r) ps = pushLeft l (TreapNode l k v p r # ps)"

fun pending :: "('k, 'v) treapNode \<Rightarrow> nat" where
  "pending NilNode = 0"
| "pending (TreapNode l k v p r) = Suc (size r)"

lemma pending_pushLeft: "sum_list (map pending (pushLeft t ps)) = size t + sum_list (map pending ps)"
  by (induction t arbitrary: ps) simp_all

function forEachLoop :: "('k \<Rightarrow> 'v \<Rightarrow> 's \<Rightarrow> bool \<times> 's) \<Rightarrow> ('k, 'v) treapNode list \<Rightarrow> 's \<Rightarrow> 's" where
  "forEachLoop fn [] s = s"
| "forEachLoop fn (NilNode # ps) s = forEachLoop fn ps s"
| "forEachLoop fn (TreapNode l k v p r # ps) s =
     (case fn k v s of (go, s') \<Rightarrow> if go then forEachLoop fn (pushLeft r ps) s' else s')"
  by pat_completeness auto
termination
  by (relation "measures [\<lambda>(fn, ps, s). sum_list (map pending ps), \<lambda>(fn, ps, s). length ps]") (auto simp: pending_pushLeft)

definition ForEach :: "('k, 'v) Immutable \<Rightarrow> ('k \<Rightarrow> 'v \<Rightarrow> 's \<Rightarrow> bool \<times> 's) \<Rightarrow> 's \<Rightarrow> 's" where
  "ForEach t fn s = forEachLoop fn (pushLeft (root t) []) s"

section \<open>The mutable treap\<close>

record ('k, 'v) Mutable =
  m_root :: "('k, 'v) treapNode"
  m_count :: int
  m_totalSize :: "64 word"

definition NewMutable :: "('k, 'v) Mutable" where
  "NewMutable = \<lparr>m_root = NilNode, m_count = 0, m_totalSize = 0\<rparr>"

definition m_Get :: "('k::linorder, 'v) Mutable \<Rightarrow> 'k \<Rightarrow> 'v option" where
  "m_Get t key = getNode key (m_root t)"

definition m_Has :: "('k::linorder, 'v) Mutable \<Rightarrow> 'k \<Rightarrow> bool" where
  "m_Has t key \<longleftrightarrow> getNode key (m_root t) \<noteq> None"

definition m_Put :: "int \<Rightarrow> ('k::linorder, 'v) Mutable \<Rightarrow> 'k \<Rightarrow> 'v option \<Rightarrow> ('k, 'v) Mutable" where
  "m_Put rnd t key val =
     (case val of
        None \<Rightarrow> t
      | Some v \<Rightarrow>
          if m_root t = NilNode
          then t\<lparr>m_count := 1, m_totalSize := nodeSize, m_root := newTreapNode key v rnd\<rparr>
          else (case descend key (m_root t) [] of
                  (TreapNode l k _ p r, ps) \<Rightarrow> t\<lparr>m_root := plug (TreapNode l k v p r) ps\<rparr>
                | (NilNode, ps) \<Rightarrow>
                    t\<lparr>m_count := wrap64 (m_count t + 1), m_totalSize := m_totalSize t + nodeSize,
                      m_root := rotateUp (newTreapNode key v rnd) ps\<rparr>))"

definition m_Delete :: "('k::linorder, 'v) Mutable \<Rightarrow> 'k \<Rightarrow> ('k, 'v) Mutable" where
  "m_Delete t key =
     (case descend key (m_root t) [] of
        (NilNode, _) \<Rightarrow> t
      | (TreapNode l k v p r, ps) \<Rightarrow>
          if ps = [] \<and> l = NilNode \<and> r = NilNode then t\<lparr>m_root := NilNode, m_count := 0, m_totalSize := 0\<rparr>
          else t\<lparr>m_root := plug (rotateDown (TreapNode l k v p r)) ps, m_count := wrap64 (m_count t - 1),
                 m_totalSize := m_totalSize t - nodeSize\<rparr>)"

definition m_Reset :: "('k, 'v) Mutable \<Rightarrow> ('k, 'v) Mutable" where
  "m_Reset t = t\<lparr>m_count := 0, m_totalSize := 0, m_root := NilNode\<rparr>"

definition m_ForEach :: "('k, 'v) Mutable \<Rightarrow> ('k \<Rightarrow> 'v \<Rightarrow> 's \<Rightarrow> bool \<times> 's) \<Rightarrow> 's \<Rightarrow> 's" where
  "m_ForEach t fn s = forEachLoop fn (pushLeft (m_root t) []) s"

section \<open>Contents\<close>

fun entries :: "('k, 'v) treapNode \<Rightarrow> ('k \<times> 'v) list" where
  "entries NilNode = []"
| "entries (TreapNode l k v p r) = entries l @ (k, v) # entries r"

fun entriesBefore :: "('k, 'v) frame list \<Rightarrow> ('k \<times> 'v) list" where
  "entriesBefore [] = []"
| "entriesBefore (LeftOf k v p r # ps) = entriesBefore ps"
| "entriesBefore (RightOf l k v p # ps) = entriesBefore ps @ entries l @ [(k, v)]"

fun entriesAfter :: "('k, 'v) frame list \<Rightarrow> ('k \<times> 'v) list" where
  "entriesAfter [] = []"
| "entriesAfter (LeftOf k v p r # ps) = (k, v) # entries r @ entriesAfter ps"
| "entriesAfter (RightOf l k v p # ps) = entriesAfter ps"

abbreviation ascending :: "('k::linorder \<times> 'v) list \<Rightarrow> bool" where
  "ascending es \<equiv> sorted_wrt (<) (map fst es)"

abbreviation keysBelow :: "('k::linorder \<times> 'v) list \<Rightarrow> 'k \<Rightarrow> bool" where
  "keysBelow es k \<equiv> (\<forall>e \<in> set es. fst e < k)"

abbreviation keysAbove :: "('k::linorder \<times> 'v) list \<Rightarrow> 'k \<Rightarrow> bool" where
  "keysAbove es k \<equiv> (\<forall>e \<in> set es. k < fst e)"

lemma length_entries [simp]: "length (entries t) = size t"
  by (induction t) simp_all

lemma entries_plug: "entries (plug t ps) = entriesBefore ps @ entries t @ entriesAfter ps"
  by (induction t ps rule: plug.induct) simp_all

lemma entries_rotateUp: "entries (rotateUp t ps) = entriesBefore ps @ entries t @ entriesAfter ps"
  by (induction t ps rule: rotateUp.induct) (simp_all add: entries_plug)

lemma entries_rotateDown: "entries (rotateDown (TreapNode l k v p r)) = entries l @ entries r"
proof -
  have "\<And>l k v p r. t = TreapNode l k v p r \<Longrightarrow> entries (rotateDown t) = entries l @ entries r" for t :: "('a, 'b) treapNode"
    by (induction t rule: rotateDown.induct) auto
  then show ?thesis by blast
qed

lemma descend_plug: "descend key t ps = (t', ps') \<Longrightarrow> plug t' ps' = plug t ps"
  by (induction t arbitrary: ps) (auto split: if_splits)

lemma descend_entries: "descend key t [] = (t', ps') \<Longrightarrow> entries t = entriesBefore ps' @ entries t' @ entriesAfter ps'"
  using descend_plug [of key t "[]" t' ps'] entries_plug [of t' ps'] by simp

lemma descend_key: "descend key t ps = (TreapNode l k v p r, ps') \<Longrightarrow> k = key"
  by (induction t arbitrary: ps) (auto split: if_splits)

lemma ascending_mid: "ascending (xs @ (k, v) # ys) \<longleftrightarrow> ascending xs \<and> ascending ys \<and> keysBelow xs k \<and> keysAbove ys k"
  by (auto simp: sorted_wrt_append) (metis order.strict_trans fst_conv)

lemma descend_bounds:
  "descend key t ps = (t', ps') \<Longrightarrow> ascending (entries t) \<Longrightarrow> keysBelow (entriesBefore ps) key \<Longrightarrow> keysAbove (entriesAfter ps) key \<Longrightarrow>
    keysBelow (entriesBefore ps') key \<and> keysAbove (entriesAfter ps') key"
proof (induction t arbitrary: ps)
  case (TreapNode l k v p r)
  from TreapNode.prems(2) have a: "ascending (entries l)" "ascending (entries r)" "keysBelow (entries l) k" "keysAbove (entries r) k"
    unfolding entries.simps ascending_mid by blast+
  show ?case
  proof (cases "key < k")
    case True
    with a TreapNode.prems have "keysAbove (entriesAfter (LeftOf k v p r # ps)) key" by (auto intro: order.strict_trans)
    with True TreapNode.prems a show ?thesis by (intro TreapNode.IH(1) [of "LeftOf k v p r # ps"]) auto
  next
    case False
    show ?thesis
    proof (cases "k < key")
      case True
      with a TreapNode.prems have "keysBelow (entriesBefore (RightOf l k v p # ps)) key" by (auto intro: order.strict_trans)
      with True False TreapNode.prems a show ?thesis by (intro TreapNode.IH(2) [of "RightOf l k v p # ps"]) auto
    next
      case f: False
      with False TreapNode.prems show ?thesis by auto
    qed
  qed
qed simp

text \<open>The map that a treap stands for.\<close>

definition contents :: "('k, 'v) treapNode \<Rightarrow> 'k \<Rightarrow> 'v option" where
  "contents t = map_of (entries t)"

definition bst :: "('k::linorder, 'v) treapNode \<Rightarrow> bool" where
  "bst t \<longleftrightarrow> ascending (entries t)"

lemma map_of_below: "keysBelow es k \<Longrightarrow> map_of es k = None"
  by (auto simp: map_of_eq_None_iff)

lemma map_of_above: "keysAbove es k \<Longrightarrow> map_of es k = None"
  by (auto simp: map_of_eq_None_iff)

lemma getNode_contents: "bst t \<Longrightarrow> getNode key t = contents t key"
proof (induction t)
  case (TreapNode l k v p r)
  from TreapNode.prems have a: "bst l" "bst r" "keysBelow (entries l) k" "keysAbove (entries r) k"
    unfolding bst_def entries.simps ascending_mid by blast+
  consider "key < k" | "key = k" | "k < key" using linorder_cases by blast
  then show ?case
  proof cases
    case 1
    then have "map_of (entries r) key = None" using a by (auto intro!: map_of_above)
    with 1 TreapNode.IH(1) [OF a(1)] show ?thesis by (simp add: contents_def map_add_def split: option.split)
  next
    case 2
    then have "map_of (entries l) key = None" using a by (auto intro!: map_of_below)
    with 2 show ?thesis by (simp add: contents_def map_add_def)
  next
    case 3
    then have "map_of (entries l) key = None" using a by (auto intro!: map_of_below)
    moreover have "\<not> key < k" "key \<noteq> k" using 3 by auto
    ultimately show ?thesis using 3 TreapNode.IH(2) [OF a(2)] by (simp add: contents_def map_add_def split: option.split)
  qed
qed (simp add: contents_def)

text \<open>Replacing, adding and removing the entry between two ascending parts.\<close>

lemma map_of_mid:
  "keysBelow xs k \<Longrightarrow> map_of (xs @ (k, v) # ys) = (map_of (xs @ ys))(k \<mapsto> v)"
  by (rule ext) (auto simp: map_add_def map_of_below split: option.split)

lemma map_of_gap: "keysBelow xs k \<Longrightarrow> keysAbove ys k \<Longrightarrow> map_of (xs @ ys) = (map_of (xs @ (k, v) # ys))(k := None)"
  by (rule ext) (auto simp: map_add_def map_of_below map_of_above split: option.split)

text \<open>What each of the three outcomes of a search means for the contents.\<close>

lemma search_found:
  assumes "bst t" "descend key t [] = (TreapNode l k v p r, ps)"
  shows "k = key" "entries t = (entriesBefore ps @ entries l) @ (key, v) # entries r @ entriesAfter ps"
    "keysBelow (entriesBefore ps @ entries l) key" "keysAbove (entries r @ entriesAfter ps) key"
    "ascending (entriesBefore ps @ entries l)" "ascending (entries r @ entriesAfter ps)"
proof -
  show k: "k = key" by (rule descend_key [OF assms(2)])
  show e: "entries t = (entriesBefore ps @ entries l) @ (key, v) # entries r @ entriesAfter ps"
    using descend_entries [OF assms(2)] k by simp
  from assms(1) show "keysBelow (entriesBefore ps @ entries l) key" "keysAbove (entries r @ entriesAfter ps) key"
    "ascending (entriesBefore ps @ entries l)" "ascending (entries r @ entriesAfter ps)"
    unfolding bst_def e ascending_mid by blast+
qed

lemma search_missing:
  assumes "bst t" "descend key t [] = (NilNode, ps)"
  shows "entries t = entriesBefore ps @ entriesAfter ps" "keysBelow (entriesBefore ps) key" "keysAbove (entriesAfter ps) key"
    "ascending (entriesBefore ps)" "ascending (entriesAfter ps)"
proof -
  show e: "entries t = entriesBefore ps @ entriesAfter ps" using descend_entries [OF assms(2)] by simp
  from descend_bounds [OF assms(2)] assms(1) show "keysBelow (entriesBefore ps) key" "keysAbove (entriesAfter ps) key" by (auto simp: bst_def)
  from assms(1) show "ascending (entriesBefore ps)" "ascending (entriesAfter ps)" by (auto simp: bst_def e sorted_wrt_append)
qed

section \<open>The treap as a map\<close>

definition wf_treap :: "('k::linorder, 'v) Immutable \<Rightarrow> bool" where
  "wf_treap t \<longleftrightarrow> bst (root t) \<and> cnt t = wrap64 (int (size (root t))) \<and> totalSize t = word_of_nat (size (root t)) * nodeSize"

abbreviation treapMap :: "('k, 'v) Immutable \<Rightarrow> 'k \<Rightarrow> 'v option" where
  "treapMap t \<equiv> contents (root t)"

lemma wrap64_shift [simp]:
  "wrap64 (wrap64 x + y) = wrap64 (x + y)" "wrap64 (y + wrap64 x) = wrap64 (y + x)" "wrap64 (wrap64 x - y) = wrap64 (x - y)"
  unfolding wrap64_def by (metis signed_take_bit_add signed_take_bit_diff signed_take_bit_signed_take_bit min.idem)+

lemma wf_NewImmutable: "wf_treap NewImmutable" "treapMap NewImmutable = Map.empty"
  by (simp_all add: wf_treap_def NewImmutable_def bst_def contents_def wrap64_def)

lemma Put_found:
  assumes "bst (root t)" "descend key (root t) [] = (TreapNode l k v' p r, ps)"
  shows "bst (plug (TreapNode l k v p r) ps)" "contents (plug (TreapNode l k v p r) ps) = (treapMap t)(key \<mapsto> v)"
    "size (plug (TreapNode l k v p r) ps) = size (root t)"
proof -
  note s = search_found [OF assms]
  have e: "entries (plug (TreapNode l k v p r) ps) = (entriesBefore ps @ entries l) @ (key, v) # entries r @ entriesAfter ps"
    by (simp add: entries_plug s(1))
  show "bst (plug (TreapNode l k v p r) ps)" unfolding bst_def e ascending_mid using s(3-6) by blast
  show "contents (plug (TreapNode l k v p r) ps) = (treapMap t)(key \<mapsto> v)"
    unfolding contents_def e s(2) map_of_mid [OF s(3)] by simp
  show "size (plug (TreapNode l k v p r) ps) = size (root t)"
    using arg_cong [OF e, of length] arg_cong [OF s(2), of length] by simp
qed

lemma Put_missing:
  fixes t :: "('k::linorder, 'v) Immutable" and v :: 'v and rnd :: int
  assumes "bst (root t)" "descend key (root t) [] = (NilNode, ps)"
  defines "u \<equiv> rotateUp (newTreapNode key v rnd) ps"
  shows "bst u" "contents u = (treapMap t)(key \<mapsto> v)" "size u = Suc (size (root t))"
proof -
  note s = search_missing [OF assms(1,2)]
  have e: "entries u = entriesBefore ps @ (key, v) # entriesAfter ps"
    by (simp add: u_def entries_rotateUp newTreapNode_def)
  show "bst u" unfolding bst_def e ascending_mid using s by blast
  show "contents u = (treapMap t)(key \<mapsto> v)" unfolding contents_def e s(1) map_of_mid [OF s(2)] ..
  show "size u = Suc (size (root t))" using arg_cong [OF e, of length] arg_cong [OF s(1), of length] by simp
qed

lemma Put_map:
  assumes "wf_treap t"
  shows "wf_treap (Put rnd t key (Some v))" "treapMap (Put rnd t key (Some v)) = (treapMap t)(key \<mapsto> v)"
proof -
  obtain t' ps where d: "descend key (root t) [] = (t', ps)" by fastforce
  have b: "bst (root t)" using assms by (simp add: wf_treap_def)
  have "wf_treap (Put rnd t key (Some v)) \<and> treapMap (Put rnd t key (Some v)) = (treapMap t)(key \<mapsto> v)"
  proof (cases "root t = NilNode")
    case True
    then show ?thesis
      by (simp add: Put_def newImmutable_def newTreapNode_def wf_treap_def bst_def contents_def wrap64_def)
  next
    case False
    show ?thesis
    proof (cases t')
      case NilNode
      then show ?thesis using False d Put_missing [OF b, of key ps v rnd] assms
        by (simp add: Put_def newImmutable_def wf_treap_def algebra_simps)
    next
      case (TreapNode l k v' p r)
      then show ?thesis using False d Put_found [OF b, of key l k v' p r ps v] assms
        by (simp add: Put_def newImmutable_def wf_treap_def)
    qed
  qed
  then show "wf_treap (Put rnd t key (Some v))" "treapMap (Put rnd t key (Some v)) = (treapMap t)(key \<mapsto> v)" by blast+
qed

lemma Delete_found:
  assumes "bst (root t)" "descend key (root t) [] = (TreapNode l k v p r, ps)"
  defines "u \<equiv> plug (rotateDown (TreapNode l k v p r)) ps"
  shows "bst u" "contents u = (treapMap t)(key := None)" "size (root t) = Suc (size u)"
proof -
  note s = search_found [OF assms(1,2)]
  have e: "entries u = (entriesBefore ps @ entries l) @ entries r @ entriesAfter ps"
    by (simp add: u_def entries_plug entries_rotateDown)
  show "bst u" using assms(1) unfolding bst_def e s(2) by (auto simp: sorted_wrt_append)
  show "contents u = (treapMap t)(key := None)" unfolding contents_def e s(2) by (rule map_of_gap [OF s(3,4)])
  show "size (root t) = Suc (size u)" using arg_cong [OF e, of length] arg_cong [OF s(2), of length] by simp
qed

lemma Delete_map:
  assumes "wf_treap t"
  shows "wf_treap (Delete t key)" "treapMap (Delete t key) = (treapMap t)(key := None)"
proof -
  obtain t' ps where d: "descend key (root t) [] = (t', ps)" by fastforce
  have b: "bst (root t)" using assms by (simp add: wf_treap_def)
  have "wf_treap (Delete t key) \<and> treapMap (Delete t key) = (treapMap t)(key := None)"
  proof (cases t')
    case NilNode
    note s = search_missing [OF b d [unfolded NilNode]]
    have "treapMap t key = None"
      unfolding contents_def s(1) using s(2,3) by (simp add: map_add_def map_of_below map_of_above)
    then show ?thesis using d NilNode assms by (auto simp: Delete_def)
  next
    case (TreapNode l k v p r)
    note F = Delete_found [OF b d [unfolded TreapNode]]
    show ?thesis
    proof (cases "ps = [] \<and> l = NilNode \<and> r = NilNode")
      case True
      then show ?thesis using F d TreapNode by (simp add: Delete_def newImmutable_def wf_treap_def wrap64_def)
    next
      case False
      then have "Delete t key = newImmutable (plug (rotateDown (TreapNode l k v p r)) ps) (wrap64 (cnt t - 1)) (totalSize t - nodeSize)"
        using d TreapNode by (auto simp: Delete_def)
      with F assms show ?thesis by (simp add: newImmutable_def wf_treap_def algebra_simps)
    qed
  qed
  then show "wf_treap (Delete t key)" "treapMap (Delete t key) = (treapMap t)(key := None)" by blast+
qed

lemma Get_map: "wf_treap t \<Longrightarrow> Get t key = treapMap t key" "wf_treap t \<Longrightarrow> Has t key \<longleftrightarrow> key \<in> dom (treapMap t)"
  by (auto simp: Get_def Has_def wf_treap_def getNode_contents)

lemma ascending_distinct: "ascending es \<Longrightarrow> distinct (map fst es)"
  using strict_sorted_iff by (auto simp: strict_sorted_iff)

lemma Len_map: "wf_treap t \<Longrightarrow> Len t = wrap64 (int (card (dom (treapMap t))))"
proof -
  assume wf: "wf_treap t"
  then have "distinct (map fst (entries (root t)))" by (auto simp: wf_treap_def bst_def intro: ascending_distinct)
  then have "card (dom (treapMap t)) = size (root t)"
    by (metis contents_def distinct_card dom_map_of_conv_image_fst length_entries length_map set_map)
  then show ?thesis using wf by (simp add: Len_def wf_treap_def)
qed

section \<open>Traversal\<close>

primrec foldUntil :: "('k \<Rightarrow> 'v \<Rightarrow> 's \<Rightarrow> bool \<times> 's) \<Rightarrow> ('k \<times> 'v) list \<Rightarrow> 's \<Rightarrow> 's" where
  "foldUntil fn [] s = s"
| "foldUntil fn (e # es) s = (case fn (fst e) (snd e) s of (go, s') \<Rightarrow> if go then foldUntil fn es s' else s')"

fun toVisit :: "('k, 'v) treapNode list \<Rightarrow> ('k \<times> 'v) list" where
  "toVisit [] = []"
| "toVisit (NilNode # ps) = toVisit ps"
| "toVisit (TreapNode l k v p r # ps) = (k, v) # entries r @ toVisit ps"

lemma toVisit_pushLeft: "toVisit (pushLeft t ps) = entries t @ toVisit ps"
  by (induction t arbitrary: ps) simp_all

lemma forEachLoop_eq: "forEachLoop fn ps s = foldUntil fn (toVisit ps) s"
  by (induction fn ps s rule: forEachLoop.induct) (auto simp: toVisit_pushLeft split: prod.splits)

lemma ForEach_eq: "ForEach t fn s = foldUntil fn (entries (root t)) s"
  by (simp add: ForEach_def forEachLoop_eq toVisit_pushLeft)

section \<open>The order of the priorities\<close>

fun atLeast :: "int \<Rightarrow> ('k, 'v) treapNode \<Rightarrow> bool" where
  "atLeast q NilNode = True"
| "atLeast q (TreapNode l k v p r) = (q \<le> p)"

fun minHeap :: "('k, 'v) treapNode \<Rightarrow> bool" where
  "minHeap NilNode = True"
| "minHeap (TreapNode l k v p r) = (minHeap l \<and> minHeap r \<and> atLeast p l \<and> atLeast p r)"

fun framePrio :: "('k, 'v) frame \<Rightarrow> int" where
  "framePrio (LeftOf k v p r) = p"
| "framePrio (RightOf l k v p) = p"

fun sibling :: "('k, 'v) frame \<Rightarrow> ('k, 'v) treapNode" where
  "sibling (LeftOf k v p r) = r"
| "sibling (RightOf l k v p) = l"

text \<open>The parents are in order among themselves and with the subtrees that hang off them.\<close>

fun heapFrames :: "('k, 'v) frame list \<Rightarrow> bool" where
  "heapFrames [] = True"
| "heapFrames (f # ps) \<longleftrightarrow> minHeap (sibling f) \<and> atLeast (framePrio f) (sibling f) \<and>
     (ps \<noteq> [] \<longrightarrow> framePrio (hd ps) \<le> framePrio f) \<and> heapFrames ps"

lemma atLeast_trans: "q \<le> p \<Longrightarrow> atLeast p t \<Longrightarrow> atLeast q t"
  by (cases t) auto

lemma minHeap_plug:
  "minHeap (plug t ps) \<longleftrightarrow> minHeap t \<and> heapFrames ps \<and> (ps \<noteq> [] \<longrightarrow> atLeast (framePrio (hd ps)) t)"
  by (induction t ps rule: plug.induct) auto

lemma minHeap_rotateUp:
  "t = TreapNode nl nk nv np nr \<Longrightarrow> minHeap t \<Longrightarrow> heapFrames ps \<Longrightarrow>
     (ps \<noteq> [] \<longrightarrow> atLeast (framePrio (hd ps)) nl \<and> atLeast (framePrio (hd ps)) nr) \<Longrightarrow> minHeap (rotateUp t ps)"
proof (induction t ps arbitrary: nl nk nv np nr rule: rotateUp.induct)
  case (1 nl' nk' nv' np' nr' k v p r ps)
  then show ?case by (cases "np' \<ge> p") (auto simp: minHeap_plug intro: atLeast_trans)
next
  case (2 nl' nk' nv' np' nr' l k v p ps)
  then show ?case by (cases "np' \<ge> p") (auto simp: minHeap_plug intro: atLeast_trans)
qed auto

text \<open>
  Putting an entry into a treap keeps its priorities in the order of a min-heap: no node has
  a smaller priority than its parent.
\<close>

theorem treap_put_keeps_heap:
  assumes "minHeap (root t)"
  shows "minHeap (root (Put rnd t key val))"
proof (cases val)
  case None
  with assms show ?thesis by (simp add: Put_def)
next
  case (Some v)
  obtain t' ps where d: "descend key (root t) [] = (t', ps)" by fastforce
  have h: "minHeap (plug t' ps)" using descend_plug [OF d] assms by simp
  show ?thesis
  proof (cases t')
    case NilNode
    with h have "minHeap (rotateUp (newTreapNode key v rnd) ps)"
      by (auto simp: newTreapNode_def minHeap_plug intro!: minHeap_rotateUp)
    then show ?thesis using d NilNode Some by (simp add: Put_def newImmutable_def newTreapNode_def)
  next
    case (TreapNode l k v' p r)
    with h have "minHeap (plug (TreapNode l k v p r) ps)" by (simp add: minHeap_plug)
    then show ?thesis using d TreapNode Some by (simp add: Put_def newImmutable_def newTreapNode_def)
  qed
qed

theorem treap_put_keeps_heap_witness:
  "minHeap (root (Put 3 (Put 5 NewImmutable (2 :: nat) (Some True)) 4 (Some False)))"
  by (rule treap_put_keeps_heap, rule treap_put_keeps_heap) (simp add: NewImmutable_def)

text \<open>
  Deleting does not: the node goes down past the child with the larger priority, which then stands above
  the child with the smaller one.
\<close>

lemma delete_breaks_heap:
  defines "t \<equiv> Put 3 (Put 2 (Put 1 NewImmutable (2 :: nat) (Some ())) 1 (Some ())) 3 (Some ())"
  shows "minHeap (root t)" "\<not> minHeap (root (Delete t 2))"
  by (simp_all add: t_def Put_def Delete_def NewImmutable_def newImmutable_def newTreapNode_def)

section \<open>The contract of the ticket maps\<close>

locale ticketMap =
  fixes wf :: "'t \<Rightarrow> bool" and mapOf :: "'t \<Rightarrow> 'k \<Rightarrow> 'v option" and new :: 't
    and get :: "'t \<Rightarrow> 'k \<Rightarrow> 'v option" and has :: "'t \<Rightarrow> 'k \<Rightarrow> bool"
    and put :: "int \<Rightarrow> 't \<Rightarrow> 'k \<Rightarrow> 'v \<Rightarrow> 't" and del :: "'t \<Rightarrow> 'k \<Rightarrow> 't"
  assumes wf_new: "wf new" and map_new: "mapOf new = Map.empty"
    and wf_put: "wf t \<Longrightarrow> wf (put rnd t k v)" and map_put: "wf t \<Longrightarrow> mapOf (put rnd t k v) = (mapOf t)(k \<mapsto> v)"
    and wf_del: "wf t \<Longrightarrow> wf (del t k)" and map_del: "wf t \<Longrightarrow> mapOf (del t k) = (mapOf t)(k := None)"
    and get_map: "wf t \<Longrightarrow> get t k = mapOf t k" and has_map: "wf t \<Longrightarrow> has t k \<longleftrightarrow> k \<in> dom (mapOf t)"
begin

lemma undo_put: "wf t \<Longrightarrow> \<not> has t k \<Longrightarrow> mapOf (del (put rnd t k v) k) = mapOf t"
  by (auto simp: map_put map_del wf_put has_map fun_eq_iff domIff)

lemma undo_del: "wf t \<Longrightarrow> get t k = Some v \<Longrightarrow> mapOf (put rnd (del t k) k v) = mapOf t"
  by (auto simp: map_put map_del wf_del get_map fun_eq_iff)

end

interpretation imm: ticketMap wf_treap treapMap NewImmutable Get Has "\<lambda>rnd t k v. Put rnd t k (Some v)" Delete
  by unfold_locales (simp_all add: wf_NewImmutable Put_map Delete_map Get_map)

text \<open>The mutable treap does the same on its own fields.\<close>

definition frozen :: "('k, 'v) Mutable \<Rightarrow> ('k, 'v) Immutable" where
  "frozen t = \<lparr>root = m_root t, cnt = m_count t, totalSize = m_totalSize t\<rparr>"

lemma frozen_simps:
  "frozen NewMutable = NewImmutable" "frozen (m_Put rnd t k v) = Put rnd (frozen t) k v" "frozen (m_Delete t k) = Delete (frozen t) k"
  "frozen (m_Reset t) = NewImmutable" "m_Get t k = Get (frozen t) k" "m_Has t k = Has (frozen t) k" "m_ForEach t fn s = ForEach (frozen t) fn s"
  by (simp_all add: frozen_def NewMutable_def NewImmutable_def m_Put_def Put_def newImmutable_def m_Delete_def Delete_def m_Reset_def
      m_Get_def Get_def m_Has_def Has_def m_ForEach_def ForEach_def split: option.split prod.split treapNode.split)

interpretation mut: ticketMap "\<lambda>t. wf_treap (frozen t)" "\<lambda>t. treapMap (frozen t)" NewMutable m_Get m_Has
    "\<lambda>rnd t k v. m_Put rnd t k (Some v)" m_Delete
  by unfold_locales (simp_all add: frozen_simps imm.wf_new imm.map_new imm.wf_put imm.map_put imm.wf_del imm.map_del imm.get_map imm.has_map)

text \<open>
  C7. A treap is a finite map: whatever the priorities, a put updates the map at its key, a delete
  removes the key, a lookup reads the map, the length is its size, and the
  traversal visits its entries in ascending order of the keys.
\<close>

theorem treap_refines_map:
  assumes "wf_treap t"
  shows "treapMap (Put rnd t key (Some v)) = (treapMap t)(key \<mapsto> v) \<and> treapMap (Delete t key) = (treapMap t)(key := None) \<and>
    wf_treap (Put rnd t key (Some v)) \<and> wf_treap (Delete t key) \<and>
    Get t key = treapMap t key \<and> Len t = wrap64 (int (card (dom (treapMap t)))) \<and>
    (\<exists>es. ForEach t fn s = foldUntil fn es s \<and> map_of es = treapMap t \<and> sorted_wrt (<) (map fst es))"
proof -
  have "\<exists>es. ForEach t fn s = foldUntil fn es s \<and> map_of es = treapMap t \<and> sorted_wrt (<) (map fst es)"
    by (rule exI [of _ "entries (root t)"]) (use assms in \<open>simp add: ForEach_eq contents_def wf_treap_def bst_def\<close>)
  with assms show ?thesis by (simp add: imm.map_put imm.map_del imm.wf_put imm.wf_del imm.get_map Len_map)
qed

theorem treap_refines_map_witness:
  "treapMap (Put 7 (Put 5 NewImmutable (2 :: nat) (Some True)) 4 (Some False)) 2 = Some True"
proof -
  note new = treap_refines_map [OF wf_NewImmutable(1), of 5 "2 :: nat" True "\<lambda>k v s. (True, s)" "()"]
  then have "wf_treap (Put 5 NewImmutable (2 :: nat) (Some True))" by blast
  from treap_refines_map [OF this, of 7 4 False "\<lambda>k v s. (True, s)" "()"] new show ?thesis by simp
qed

end
