(* ===== verification/Lottery.thy ===== *)
theory Lottery
  imports TicketTreap
begin

unbundle bit_operations_syntax

text \<open>
  The ticket lottery of \<^verbatim>\<open>blockchain/stake/lottery.go\<close>: the generator that hashes a seed, the rejection of draws
  that would bias a remainder, the draw of distinct ticket indexes, and the tickets at those
  indexes of a treap. The hash function is a parameter.
\<close>

section \<open>The generator\<close>

text \<open>\<^verbatim>\<open>binary.BigEndian\<close> on four bytes.\<close>

definition beUint32 :: "bytes \<Rightarrow> 32 word" where
  "beUint32 bs = fold (\<lambda>b a. push_bit 8 a OR ucast b) bs 0"

definition bePutUint32 :: "32 word \<Rightarrow> bytes" where
  "bePutUint32 w = [ucast (drop_bit 24 w), ucast (drop_bit 16 w), ucast (drop_bit 8 w), ucast w]"

definition seedConst :: bytes where
  "seedConst = [0x24, 0x3F, 0x6A, 0x88, 0x85, 0xA3, 0x08, 0xD3]"

record Hash256PRNG =
  seed :: bytes
  hashIdx :: int
  hp_idx :: "64 word"
  lastHash :: bytes

definition NewHash256PRNG :: "(bytes \<Rightarrow> bytes) \<Rightarrow> bytes \<Rightarrow> Hash256PRNG" where
  "NewHash256PRNG hashH s =
     (let h = hashH (s @ seedConst) in \<lparr>seed = h, hashIdx = 0, hp_idx = 0, lastHash = h\<rparr>)"

definition StateHash :: "(bytes \<Rightarrow> bytes) \<Rightarrow> Hash256PRNG \<Rightarrow> bytes" where
  "StateHash hashH hp = hashH (lastHash hp @ bePutUint32 (ucast (hp_idx hp)) @ [word_of_int (hashIdx hp)])"

text \<open>The position in the cached hash is between 0 and 7, so the four bytes that are read are inside the hash.\<close>

definition Hash256Rand :: "(bytes \<Rightarrow> bytes) \<Rightarrow> Hash256PRNG \<Rightarrow> 32 word \<times> Hash256PRNG" where
  "Hash256Rand hashH hp =
     (let r = beUint32 (take 4 (drop (nat (hashIdx hp * 4)) (lastHash hp)));
          hp = hp\<lparr>hashIdx := hashIdx hp + 1\<rparr>;
          hp = (if hashIdx hp > 7
                then hp\<lparr>lastHash := hashH (seed hp @ bePutUint32 (ucast (hp_idx hp))), hp_idx := hp_idx hp + 1, hashIdx := 0\<rparr>
                else hp);
          hp = (if hp_idx hp > 0xFFFFFFFF
                then (let s = hashH (seed hp) in hp\<lparr>seed := s, lastHash := s, hp_idx := 0\<rparr>)
                else hp)
      in (r, hp))"

text \<open>The smallest draw that is not rejected.\<close>

definition minDraw :: "32 word \<Rightarrow> 32 word" where
  "minDraw upperBound =
     (if upperBound > 0x80000000 then 1 + NOT upperBound
      else ((0xFFFFFFFF - upperBound * 2) + 1) mod upperBound)"

partial_function (option) rejectLoop :: "(bytes \<Rightarrow> bytes) \<Rightarrow> 32 word \<Rightarrow> Hash256PRNG \<Rightarrow> (32 word \<times> Hash256PRNG) option" where
  "rejectLoop hashH m hp =
     (let (r, hp') = Hash256Rand hashH hp in if r \<ge> m then Some (r, hp') else rejectLoop hashH m hp')"

definition uniformRandom :: "(bytes \<Rightarrow> bytes) \<Rightarrow> 32 word \<Rightarrow> Hash256PRNG \<Rightarrow> (32 word \<times> Hash256PRNG) option" where
  "uniformRandom hashH upperBound hp =
     (if upperBound < 2 then Some (0, hp)
      else map_option (\<lambda>(r, hp). (r mod upperBound, hp)) (rejectLoop hashH (minDraw upperBound) hp))"

section \<open>Drawing indexes\<close>

datatype lottery_error = ListTooSmall | ListTooBig | EmptyIdxs | MissingTreap | IdxOutOfBounds

definition intInSlice :: "int \<Rightarrow> int list \<Rightarrow> bool" where
  "intInSlice i sl \<longleftrightarrow> i \<in> set sl"

partial_function (option) drawLoop ::
  "(bytes \<Rightarrow> bytes) \<Rightarrow> 32 word \<Rightarrow> 16 word \<Rightarrow> int list \<Rightarrow> 16 word \<Rightarrow> Hash256PRNG \<Rightarrow> (int list \<times> Hash256PRNG) option" where
  "drawLoop hashH sz n lst listLen hp =
     (if listLen < n
      then (case uniformRandom hashH sz hp of
              None \<Rightarrow> None
            | Some (r, hp') \<Rightarrow>
                if \<not> intInSlice (uint r) lst then drawLoop hashH sz n (lst @ [uint r]) (listLen + 1) hp'
                else drawLoop hashH sz n lst listLen hp')
      else Some (lst, hp))"

definition findTicketIdxs ::
  "(bytes \<Rightarrow> bytes) \<Rightarrow> int \<Rightarrow> 16 word \<Rightarrow> Hash256PRNG \<Rightarrow> (lottery_error, int list \<times> Hash256PRNG) result option" where
  "findTicketIdxs hashH sz n prng =
     (if sz < uint n then Some (raise ListTooSmall)
      else if sz > 0xFFFFFFFF then Some (raise ListTooBig)
      else map_option Inr (drawLoop hashH (word_of_int sz) n [] 0 prng))"

section \<open>Winners and expired tickets\<close>

definition maxInt :: "int list \<Rightarrow> int" where
  "maxInt idxs = fold (\<lambda>i m. if i > m then i else m) idxs (- (2 ^ 31))"

definition minInt :: "int list \<Rightarrow> int" where
  "minInt idxs = fold (\<lambda>i m. if i < m then i else m) idxs (2 ^ 31 - 1)"

text \<open>The first position of an index in the list, or -1.\<close>

definition originalIdx :: "int list \<Rightarrow> int \<Rightarrow> int" where
  "originalIdx idxs idx =
     (case filter (\<lambda>i. idxs ! i = idx) [0..<length idxs] of [] \<Rightarrow> - 1 | i # _ \<Rightarrow> int i)"

text \<open>The function passed to \<^verbatim>\<open>ForEach\<close>: its state is \<^verbatim>\<open>idx\<close>, \<^verbatim>\<open>winnerIdx\<close> and \<^verbatim>\<open>winners\<close>, or a panic.\<close>

definition winnerStep ::
  "int list \<Rightarrow> int \<Rightarrow> 'k \<Rightarrow> 'v \<Rightarrow> (lottery_error, int \<times> int \<times> 'k option list) result \<Rightarrow>
     bool \<times> (lottery_error, int \<times> int \<times> 'k option list) result" where
  "winnerStep idxs m k v s =
     (case s of
        Inl e \<Rightarrow> (False, Inl e)
      | Inr (idx, winnerIdx, winners) \<Rightarrow>
          if idx > m then (False, s)
          else (case bindE (at (sort idxs) winnerIdx) (\<lambda>w.
                  if idx = w
                  then bindE (at winners (originalIdx idxs idx)) (\<lambda>_.
                    Inr (idx + 1, (if winnerIdx + 1 < int (length idxs) then winnerIdx + 1 else winnerIdx),
                         winners[nat (originalIdx idxs idx) := Some k]))
                  else Inr (idx + 1, winnerIdx, winners)) of
                  Inl e \<Rightarrow> (False, Inl e)
                | Inr s' \<Rightarrow> (True, Inr s')))"

text \<open>The slice of indexes may be nil; \<^verbatim>\<open>findTicketIdxs\<close> returns nil when it draws nothing.\<close>

definition fetchWinners ::
  "int list option \<Rightarrow> ('k::linorder, 'v) Immutable \<Rightarrow> (lottery_error, 'k option list) result" where
  "fetchWinners idxsOpt t =
     (case idxsOpt of
        None \<Rightarrow> raise EmptyIdxs
      | Some idxs \<Rightarrow>
          if Len t = 0 then raise MissingTreap
          else if maxInt idxs \<ge> Len t then raise IdxOutOfBounds
          else if minInt idxs < 0 then raise IdxOutOfBounds
          else bindE (ForEach t (winnerStep idxs (maxInt idxs)) (Inr (0, 0, replicate (length idxs) None)))
                 (\<lambda>(_, _, winners). Inr winners))"

record ticketValue =
  Height :: "32 word"
  KeyHeight :: "32 word"
  Missed :: bool
  Revoked :: bool
  Spent :: bool
  Expired :: bool

definition fetchExpired :: "32 word \<Rightarrow> ('k, ticketValue) Immutable \<Rightarrow> 'k list" where
  "fetchExpired h t = ForEach t (\<lambda>k v expired. (True, if KeyHeight v \<le> h then expired @ [k] else expired)) []"

section \<open>The draws are not biased\<close>

lemma minDraw_eq:
  assumes "2 \<le> ub"
  shows "unat (minDraw ub) = 2 ^ 32 mod unat ub"
proof -
  have neg: "uint (- x) = (- uint x) mod 2 ^ 32" for x :: "32 word" by (simp add: uint_word_ariths)
  have bounds: "2 \<le> uint ub" "uint ub < 2 ^ 32" using assms uint_lt2p [of ub] by (simp_all add: word_le_def)
  have "uint (minDraw ub) = 2 ^ 32 mod uint ub"
  proof (cases "ub > 0x80000000")
    case True
    then have u: "2 ^ 31 < uint ub" by (simp add: word_less_def)
    have "minDraw ub = - ub" using True by (simp add: minDraw_def not_eq_complement)
    moreover have "(- uint ub) mod 2 ^ 32 = 2 ^ 32 - uint ub" using bounds by (simp add: zmod_zminus1_eq_if)
    moreover have "2 ^ 32 mod uint ub = 2 ^ 32 - uint ub" using u bounds by (intro int_mod_pos_eq [where q = 1]) simp_all
    ultimately show ?thesis by (simp add: neg)
  next
    case False
    then have u: "uint ub \<le> 2 ^ 31" by (simp add: word_less_def)
    have eq: "(0xFFFFFFFF - ub * 2) + 1 = - (ub * 2)" by simp
    have "minDraw ub = - (ub * 2) mod ub" unfolding minDraw_def eq using False by simp
    then have "uint (minDraw ub) = (- (uint ub * 2)) mod 2 ^ 32 mod uint ub" by (simp add: uint_mod neg uint_word_ariths mod_minus_eq)
    also have "\<dots> = 2 ^ 32 mod uint ub"
    proof (cases "uint ub = 2 ^ 31")
      case False
      then have "(- (uint ub * 2)) mod 2 ^ 32 = 2 ^ 32 - uint ub * 2" using u bounds by (simp add: zmod_zminus1_eq_if)
      then show ?thesis by (simp add: mod_diff_eq [symmetric])
    qed simp
    finally show ?thesis .
  qed
  then have "int (unat (minDraw ub)) = int (2 ^ 32 mod unat ub)" by (simp add: zmod_int)
  then show ?thesis by (simp only: of_nat_eq_iff)
qed

lemma card_residue_block:
  assumes "k < (u :: nat)"
  shows "card {r \<in> {a ..< a + u}. r mod u = k} = 1"
proof (induction a)
  case 0
  have "{r \<in> {0 ..< 0 + u}. r mod u = k} = {k}" using assms by auto
  then show ?case by simp
next
  case (Suc a)
  let ?S = "\<lambda>a. {r \<in> {a ..< a + u}. r mod u = k}"
  show ?case
  proof (cases "a mod u = k")
    case True
    have "?S (Suc a) = insert (a + u) (?S a - {a})" using True assms by (auto simp: not_less_eq less_Suc_eq)
    moreover have "a \<in> ?S a" "a + u \<notin> ?S a" using True assms by auto
    ultimately show ?thesis using Suc by (simp add: card_Diff_singleton)
  next
    case False
    have "?S (Suc a) = ?S a"
    proof (intro equalityI subsetI)
      fix x assume "x \<in> ?S (Suc a)"
      with False show "x \<in> ?S a" by (cases "x = a + u") auto
    next
      fix x assume "x \<in> ?S a"
      with False show "x \<in> ?S (Suc a)" by (cases "x = a") auto
    qed
    with Suc show ?thesis by simp
  qed
qed

lemma card_residue: "k < u \<Longrightarrow> card {r \<in> {a ..< a + q * u}. r mod u = k} = (q :: nat)"
proof (induction q)
  case (Suc q)
  have "{r \<in> {a ..< a + Suc q * u}. r mod u = k} =
      {r \<in> {a ..< a + q * u}. r mod u = k} \<union> {r \<in> {a + q * u ..< a + q * u + u}. r mod u = k}" by auto
  moreover have "card (\<dots>) = card {r \<in> {a ..< a + q * u}. r mod u = k} + card {r \<in> {a + q * u ..< a + q * u + u}. r mod u = k}"
    by (rule card_Un_disjoint) auto
  ultimately show ?case using Suc card_residue_block [of k u "a + q * u"] by simp
qed simp

text \<open>
  C39. The numbers that \<^verbatim>\<open>uniformRandom\<close> does not reject are spread evenly: every value below the upper bound
  is the remainder of the same number of 32 bit words.
\<close>

theorem uniform_random_unbiased:
  assumes "2 \<le> ub" "k < ub"
  shows "card {r. minDraw ub \<le> r \<and> r mod ub = k} = 2 ^ 32 div unat ub"
proof -
  let ?q = "2 ^ 32 div unat ub" and ?m = "unat (minDraw ub)"
  have u: "unat ub > 0" "unat k < unat ub" using assms by (simp_all add: word_less_nat_alt word_le_nat_alt)
  have tot: "?m + ?q * unat ub = 2 ^ 32" unfolding minDraw_eq [OF assms(1)] by simp
  have "unat ` {r. minDraw ub \<le> r \<and> r mod ub = k} = {r \<in> {?m ..< ?m + ?q * unat ub}. r mod unat ub = unat k}" (is "?A = ?B")
  proof (intro equalityI subsetI)
    fix x assume "x \<in> ?A"
    then obtain r where r: "x = unat r" "minDraw ub \<le> r" "r mod ub = k" by blast
    moreover have "unat r < 2 ^ 32" using unsigned_less [of r, where 'a = nat] by simp
    ultimately show "x \<in> ?B" unfolding tot by (simp add: word_le_nat_alt flip: unat_mod)
  next
    fix x assume x: "x \<in> ?B"
    then have "x < 2 ^ 32" unfolding tot by simp
    then have ux: "unat (word_of_nat x :: 32 word) = x" by (simp add: unsigned_of_nat take_bit_nat_eq_self)
    have "minDraw ub \<le> word_of_nat x" using x ux by (simp add: word_le_nat_alt)
    moreover have "word_of_nat x mod ub = k" using x ux by (simp add: word_unat_eq_iff unat_mod)
    ultimately show "x \<in> ?A" using ux by (metis (mono_tags, lifting) imageI mem_Collect_eq)
  qed
  moreover have "card ?A = card {r. minDraw ub \<le> r \<and> r mod ub = k}"
    by (rule card_image, rule inj_onI) (simp only: word_unat_eq_iff)
  ultimately show ?thesis using card_residue [OF u(2), of ?m ?q] by simp
qed

theorem uniform_random_unbiased_witness: "card {r. minDraw 3 \<le> r \<and> r mod 3 = (1 :: 32 word)} = 1431655765"
  using uniform_random_unbiased [of 3 1] by simp

section \<open>The drawn indexes\<close>

text \<open>The numbers that the generator gives from a state on, and its states.\<close>

definition prngState :: "(bytes \<Rightarrow> bytes) \<Rightarrow> Hash256PRNG \<Rightarrow> nat \<Rightarrow> Hash256PRNG" where
  "prngState hashH hp k = ((\<lambda>h. snd (Hash256Rand hashH h)) ^^ k) hp"

definition draw :: "(bytes \<Rightarrow> bytes) \<Rightarrow> Hash256PRNG \<Rightarrow> nat \<Rightarrow> 32 word" where
  "draw hashH hp k = fst (Hash256Rand hashH (prngState hashH hp k))"

lemma prngState_simps:
  "prngState hashH hp 0 = hp" "prngState hashH (prngState hashH hp j) k = prngState hashH hp (j + k)"
  "prngState hashH (snd (Hash256Rand hashH hp)) k = prngState hashH hp (Suc k)"
  unfolding prngState_def using funpow_swap1 [of "\<lambda>h. snd (Hash256Rand hashH h)" k hp]
  by (simp_all add: funpow_add add.commute [of j])

lemma draw_shift: "draw hashH (prngState hashH hp j) k = draw hashH hp (j + k)"
  by (simp add: draw_def prngState_simps)

lemma rejectLoop_finds:
  "m \<le> draw hashH hp k \<Longrightarrow> \<forall>j < k. \<not> m \<le> draw hashH hp j \<Longrightarrow>
     rejectLoop hashH m hp = Some (draw hashH hp k, prngState hashH hp (Suc k))"
proof (induction k arbitrary: hp)
  case 0
  then show ?case by (subst rejectLoop.simps) (simp add: draw_def prngState_simps prngState_def split_def)
next
  case (Suc k)
  let ?hp = "snd (Hash256Rand hashH hp)"
  have sh: "draw hashH ?hp j = draw hashH hp (Suc j)" for j by (simp add: draw_def prngState_simps)
  have "\<not> m \<le> fst (Hash256Rand hashH hp)" using Suc.prems(2) by (force simp: draw_def prngState_simps)
  then have "rejectLoop hashH m hp = rejectLoop hashH m ?hp" by (subst rejectLoop.simps) (simp add: split_def)
  also have "\<dots> = Some (draw hashH ?hp k, prngState hashH ?hp (Suc k))"
    using Suc.prems by (intro Suc.IH) (auto simp: sh)
  finally show ?case by (simp add: sh prngState_simps)
qed

definition accepted :: "(bytes \<Rightarrow> bytes) \<Rightarrow> Hash256PRNG \<Rightarrow> 32 word \<Rightarrow> nat set" where
  "accepted hashH hp sz = {k. minDraw sz \<le> draw hashH hp k}"

definition drawnIdx :: "(bytes \<Rightarrow> bytes) \<Rightarrow> Hash256PRNG \<Rightarrow> 32 word \<Rightarrow> nat \<Rightarrow> int" where
  "drawnIdx hashH hp sz k = uint (draw hashH hp k mod sz)"

lemma uniformRandom_next:
  assumes "2 \<le> sz" "k \<in> accepted hashH hp sz" "pos \<le> k"
  obtains j where "pos \<le> j" "j \<le> k" "j \<in> accepted hashH hp sz" "{i \<in> accepted hashH hp sz. pos \<le> i \<and> i < j} = {}"
    "uniformRandom hashH sz (prngState hashH hp pos) = Some (draw hashH hp j mod sz, prngState hashH hp (Suc j))"
proof -
  let ?P = "\<lambda>i. minDraw sz \<le> draw hashH hp (pos + i)"
  define i where "i = (LEAST i. ?P i)"
  have "?P (k - pos)" using assms(2,3) by (simp add: accepted_def)
  then have i: "?P i" "i \<le> k - pos" "\<forall>i' < i. \<not> ?P i'" unfolding i_def by (auto intro: LeastI Least_le dest: not_less_Least)
  have "rejectLoop hashH (minDraw sz) (prngState hashH hp pos) = Some (draw hashH hp (pos + i), prngState hashH hp (Suc (pos + i)))"
    using rejectLoop_finds [of "minDraw sz" hashH "prngState hashH hp pos" i] i by (simp add: draw_shift prngState_simps)
  then have "uniformRandom hashH sz (prngState hashH hp pos) = Some (draw hashH hp (pos + i) mod sz, prngState hashH hp (Suc (pos + i)))"
    using assms(1) by (simp add: uniformRandom_def not_less [symmetric])
  moreover have "{x \<in> accepted hashH hp sz. pos \<le> x \<and> x < pos + i} = {}"
    using i(3) by (auto simp: accepted_def) (metis add_diff_inverse_nat linorder_not_le nat_add_left_cancel_less)
  ultimately show thesis using that [of "pos + i"] i assms(3) by (simp add: accepted_def)
qed

lemma drawLoop_returns:
  assumes "2 \<le> sz" "unat n \<le> card (drawnIdx hashH hp sz ` accepted hashH hp sz)"
  shows "set lst = drawnIdx hashH hp sz ` {k \<in> accepted hashH hp sz. k < pos} \<Longrightarrow> distinct lst \<Longrightarrow>
    length lst = unat listLen \<Longrightarrow> listLen \<le> n \<Longrightarrow>
    \<exists>idxs hp'. drawLoop hashH sz n lst listLen (prngState hashH hp pos) = Some (idxs, hp') \<and> distinct idxs \<and> length idxs = unat n \<and>
      set idxs \<subseteq> drawnIdx hashH hp sz ` accepted hashH hp sz"
proof (induction "unat n - unat listLen" arbitrary: lst listLen pos rule: less_induct)
  case less
  note outer = less.hyps and P = less.prems(2-4)
  let ?A = "accepted hashH hp sz" and ?f = "drawnIdx hashH hp sz"
  show ?case
  proof (cases "listLen = n")
    case True
    with less.prems show ?thesis by (subst drawLoop.simps) auto
  next
    case False
    with less.prems(4) have ltw: "listLen < n" by simp
    then have lt: "unat listLen < unat n" by (simp add: word_less_nat_alt)
    have sub: "set lst \<subseteq> ?f ` ?A" using less.prems(1) by auto
    have "card (set lst) < card (?f ` ?A)" using less.prems(2,3) lt assms(2) by (simp add: distinct_card)
    then obtain k where k: "k \<in> ?A" "?f k \<notin> set lst" using sub by (metis (no_types, lifting) image_iff less_irrefl psubsetI subsetI subset_antisym)
    then have "pos \<le> k" using less.prems(1) by (force simp: not_less [symmetric])
    from this less.prems(1) show ?thesis
    proof (induction "k - pos" arbitrary: pos rule: less_induct)
      case (less pos)
      obtain j where j: "pos \<le> j" "j \<le> k" "j \<in> ?A" "{i \<in> ?A. pos \<le> i \<and> i < j} = {}"
        "uniformRandom hashH sz (prngState hashH hp pos) = Some (draw hashH hp j mod sz, prngState hashH hp (Suc j))"
        by (rule uniformRandom_next [OF assms(1) k(1) less.prems(1)])
      have "{i \<in> ?A. i < Suc j} = insert j {i \<in> ?A. i < pos}" using j(1,3,4) by (auto simp: less_Suc_eq) (metis leD leI)
      then have seen: "?f ` {i \<in> ?A. i < Suc j} = insert (?f j) (set lst)" using less.prems(2) by simp
      show ?case
      proof (cases "?f j \<in> set lst")
        case True
        then have "drawLoop hashH sz n lst listLen (prngState hashH hp pos) = drawLoop hashH sz n lst listLen (prngState hashH hp (Suc j))"
          using j(5) ltw by (subst drawLoop.simps) (simp add: intInSlice_def drawnIdx_def)
        moreover have "j \<noteq> k" using True k(2) by auto
        then have "k - Suc j < k - pos" "Suc j \<le> k" using j(1,2) by linarith+
        ultimately show ?thesis using less.hyps [of "Suc j"] seen True by (simp add: insert_absorb)
      next
        case new: False
        have step: "drawLoop hashH sz n lst listLen (prngState hashH hp pos) =
            drawLoop hashH sz n (lst @ [?f j]) (listLen + 1) (prngState hashH hp (Suc j))"
          using j(5) ltw new by (subst drawLoop.simps) (simp add: intInSlice_def drawnIdx_def)
        have u: "unat (listLen + 1) = Suc (unat listLen)" using lt unsigned_less [of n, where 'a = nat] by (simp add: unat_word_ariths)
        show ?thesis unfolding step
          by (rule outer) (use seen new u lt P in \<open>simp_all add: word_le_nat_alt\<close>)
      qed
    qed
  qed
qed

text \<open>Whatever \<^verbatim>\<open>findTicketIdxs\<close> returns are different indexes inside the list.\<close>

lemma uniformRandom_less: "uniformRandom hashH sz hp = Some (r, hp') \<Longrightarrow> sz \<noteq> 0 \<Longrightarrow> r < sz"
  by (auto simp: uniformRandom_def word_mod_less_divisor word_neq_0_conv split: if_splits)

lemma drawLoop_sound:
  assumes "drawLoop hashH sz n lst listLen hp = Some (idxs, hp')" "sz \<noteq> 0" "distinct lst" "length lst = unat listLen" "listLen \<le> n"
    "\<forall>i \<in> set lst. 0 \<le> i \<and> i < uint sz"
  shows "distinct idxs \<and> length idxs = unat n \<and> (\<forall>i \<in> set idxs. 0 \<le> i \<and> i < uint sz)"
proof -
  have "sz \<noteq> 0 \<longrightarrow> distinct lst \<longrightarrow> length lst = unat listLen \<longrightarrow> listLen \<le> n \<longrightarrow> (\<forall>i \<in> set lst. 0 \<le> i \<and> i < uint sz) \<longrightarrow>
      distinct (fst (idxs, hp')) \<and> length (fst (idxs, hp')) = unat n \<and> (\<forall>i \<in> set (fst (idxs, hp')). 0 \<le> i \<and> i < uint sz)"
  proof (rule drawLoop.raw_induct [OF _ assms(1)], goal_cases)
    case (1 drawLoop hashH sz n lst listLen hp y)
    show ?case
    proof (cases "listLen < n")
      case True
      then obtain r hp1 where r: "uniformRandom hashH sz hp = Some (r, hp1)"
        and y: "(if \<not> intInSlice (uint r) lst then drawLoop hashH sz n (lst @ [uint r]) (listLen + 1) hp1 else drawLoop hashH sz n lst listLen hp1) = Some y"
        using 1(2) by (auto split: option.splits)
      have u: "unat (listLen + 1) = Suc (unat listLen)" "listLen + 1 \<le> n"
        using True unsigned_less [of n, where 'a = nat] by (simp_all add: unat_word_ariths word_less_nat_alt word_le_nat_alt)
      show ?thesis
      proof (cases "intInSlice (uint r) lst")
        case True
        with y 1(1) show ?thesis by simp
      next
        case False
        with y 1(1) [of hashH sz n "lst @ [uint r]" "listLen + 1" hp1 y] u uniformRandom_less [OF r] show ?thesis
          by (auto simp: intInSlice_def word_less_def)
      qed
    next
      case False
      with 1(2) show ?thesis by (auto simp: not_less dest: antisym)
    qed
  qed
  with assms show ?thesis by simp
qed

lemma findTicketIdxs_sound:
  assumes "findTicketIdxs hashH sz n hp = Some (Inr (idxs, hp'))"
  shows "distinct idxs" "length idxs = unat n" "\<forall>i \<in> set idxs. 0 \<le> i \<and> i < sz"
proof -
  have d: "uint n \<le> sz" "sz \<le> 0xFFFFFFFF" "drawLoop hashH (word_of_int sz) n [] 0 hp = Some (idxs, hp')"
    using assms by (auto simp: findTicketIdxs_def split: if_splits)
  have "0 \<le> sz" using d(1) uint_nonnegative [of n] by linarith
  then have u: "uint (word_of_int sz :: 32 word) = sz" using d(2) by (simp add: uint_word_of_int take_bit_int_eq_self)
  have "distinct idxs \<and> length idxs = unat n \<and> (\<forall>i \<in> set idxs. 0 \<le> i \<and> i < sz)"
  proof (cases "sz = 0")
    case True
    then have "n = 0" using d(1) by (metis uint_0_iff uint_nonnegative antisym)
    then show ?thesis using d(3) by (subst (asm) drawLoop.simps) auto
  next
    case False
    then have "(word_of_int sz :: 32 word) \<noteq> 0" using u by (metis unsigned_0)
    from drawLoop_sound [OF d(3) this] u show ?thesis by simp
  qed
  then show "distinct idxs" "length idxs = unat n" "\<forall>i \<in> set idxs. 0 \<le> i \<and> i < sz" by blast+
qed

text \<open>
  C20. If the draws that are not rejected reach at least as many different indexes as are asked for,
  \<^verbatim>\<open>findTicketIdxs\<close> ends and returns that many different indexes, all below the size of the list.
\<close>

theorem find_ticket_idxs_correct:
  assumes "2 \<le> sz" "sz \<le> 0xFFFFFFFF" "uint n \<le> sz"
    "unat n \<le> card (drawnIdx hashH hp (word_of_int sz) ` accepted hashH hp (word_of_int sz))"
  shows "\<exists>idxs hp'. findTicketIdxs hashH sz n hp = Some (Inr (idxs, hp')) \<and> distinct idxs \<and> length idxs = unat n \<and>
    list_all (\<lambda>i. 0 \<le> i \<and> i < sz) idxs"
proof -
  let ?w = "word_of_int sz :: 32 word"
  have w: "uint ?w = sz" using assms(1,2) by (simp add: uint_word_of_int take_bit_int_eq_self)
  then have "2 \<le> ?w" using assms(1) by (simp add: word_le_def)
  from drawLoop_returns [OF this assms(4), of "[]" 0 0] obtain idxs hp' where
    d: "drawLoop hashH ?w n [] 0 hp = Some (idxs, hp')" "distinct idxs" "length idxs = unat n"
      "set idxs \<subseteq> drawnIdx hashH hp ?w ` accepted hashH hp ?w"
    by (auto simp: prngState_simps)
  have "0 \<le> drawnIdx hashH hp ?w k \<and> drawnIdx hashH hp ?w k < sz" for k
    using w assms(1) by (simp add: drawnIdx_def uint_mod)
  with d assms(2,3) show ?thesis by (auto simp: findTicketIdxs_def list_all_iff)
qed

text \<open>A hash function that gives the eight words 0 to 7 makes the generator count.\<close>

definition countHash :: "bytes \<Rightarrow> bytes" where
  "countHash b = concat (map (\<lambda>i. [0, 0, 0, word_of_nat i]) [0..<8])"

theorem find_ticket_idxs_correct_witness:
  "\<exists>idxs hp'. findTicketIdxs countHash 8 2 (NewHash256PRNG countHash []) = Some (Inr (idxs, hp')) \<and> distinct idxs \<and> length idxs = 2"
proof -
  let ?hp = "NewHash256PRNG countHash []" and ?w = "word_of_int 8 :: 32 word"
  have "draw countHash ?hp 0 = 0" by code_simp
  moreover have "draw countHash ?hp 1 = 1" by code_simp
  moreover have "minDraw ?w = 0" by code_simp
  ultimately have i: "drawnIdx countHash ?hp ?w 0 = 0" "drawnIdx countHash ?hp ?w 1 = 1" and "accepted countHash ?hp ?w = UNIV"
    by (simp_all add: drawnIdx_def accepted_def)
  then have "{0, 1} \<subseteq> drawnIdx countHash ?hp ?w ` accepted countHash ?hp ?w" by (metis UNIV_I empty_subsetI imageI insert_subset)
  moreover have "finite (drawnIdx countHash ?hp ?w ` accepted countHash ?hp ?w)"
    by (rule finite_subset [of _ "{0..<8}"]) (auto simp: drawnIdx_def uint_mod)
  ultimately have "card {0 :: int, 1} \<le> card (drawnIdx countHash ?hp ?w ` accepted countHash ?hp ?w)" by (intro card_mono)
  then show ?thesis using find_ticket_idxs_correct [of 8 2 countHash ?hp] by auto
qed

section \<open>The tickets at the drawn indexes\<close>

lemma maxInt_spec: "(\<forall>i \<in> set idxs. i \<le> maxInt idxs) \<and> (\<forall>b \<ge> - (2 ^ 31). (\<forall>i \<in> set idxs. i \<le> b) \<longrightarrow> maxInt idxs \<le> b)"
proof -
  have "a \<le> fold (\<lambda>i m. if i > m then i else m) xs a \<and> (\<forall>i \<in> set xs. i \<le> fold (\<lambda>i m. if i > m then i else m) xs a) \<and>
      (\<forall>b \<ge> a. (\<forall>i \<in> set xs. i \<le> b) \<longrightarrow> fold (\<lambda>i m. if i > m then i else m) xs a \<le> b)" for xs and a :: int
  proof (induction xs arbitrary: a)
    case (Cons x xs)
    from Cons.IH [of "if x > a then x else a"] show ?case by (cases "x > a") auto
  qed simp
  from this [of "- (2 ^ 31)" idxs] show ?thesis unfolding maxInt_def by blast
qed

lemma minInt_nonneg: "\<forall>i \<in> set idxs. 0 \<le> i \<Longrightarrow> 0 \<le> minInt idxs"
proof -
  have "0 \<le> a \<Longrightarrow> \<forall>i \<in> set xs. 0 \<le> i \<Longrightarrow> 0 \<le> fold (\<lambda>i m. if i < m then i else m) xs a" for xs and a :: int
    by (induction xs arbitrary: a) auto
  then show "\<forall>i \<in> set idxs. 0 \<le> i \<Longrightarrow> 0 \<le> minInt idxs" by (simp add: minInt_def)
qed

lemma originalIdx_nth:
  assumes "distinct idxs" "i < length idxs"
  shows "originalIdx idxs (idxs ! i) = int i"
proof -
  have "[0..<length idxs] = [0..<i] @ i # [Suc i..<length idxs]"
    using assms(2) by (metis le_add1 less_imp_le_nat plus_nat.add_0 upt_add_eq_append upt_conv_Cons le_add_diff_inverse)
  moreover have "filter (\<lambda>k. idxs ! k = idxs ! i) [0..<i] = []"
    using assms by (auto simp: filter_empty_conv nth_eq_iff_index_eq)
  ultimately have "\<exists>ks. filter (\<lambda>k. idxs ! k = idxs ! i) [0..<length idxs] = i # ks" by simp
  then show ?thesis by (auto simp: originalIdx_def)
qed

text \<open>The number of drawn indexes below a position, which is where the sorted list continues.\<close>

definition passed :: "int list \<Rightarrow> int \<Rightarrow> nat" where
  "passed idxs j = length (filter (\<lambda>i. i < j) idxs)"

lemma passed_takeWhile: "passed idxs j = length (takeWhile (\<lambda>i. i < j) (sort idxs))"
proof -
  have "filter (\<lambda>i. i < j) xs = takeWhile (\<lambda>i. i < j) xs" if "sorted xs" for xs :: "int list"
    using that by (induction xs) (fastforce simp: takeWhile_eq_Nil_iff dest: hd_in_set)+
  from this [of "sort idxs"] have "takeWhile (\<lambda>i. i < j) (sort idxs) = sort (filter (\<lambda>i. i < j) idxs)"
    using filter_sort [of "\<lambda>i. i < j" "\<lambda>i. i" idxs] by simp
  then show ?thesis by (simp add: passed_def)
qed

lemma sorted_at_passed:
  assumes "j \<in> set idxs"
  shows "passed idxs j < length idxs" "sort idxs ! passed idxs j = j"
proof -
  let ?S = "sort idxs"
  have "dropWhile (\<lambda>i. i < j) ?S \<noteq> []" using assms by (auto simp: dropWhile_eq_Nil_conv)
  then obtain x ys where d: "dropWhile (\<lambda>i. i < j) ?S = x # ys" by (meson neq_Nil_conv)
  then have S: "?S = takeWhile (\<lambda>i. i < j) ?S @ x # ys" by (metis takeWhile_dropWhile_id)
  have "\<not> x < j" using d by (metis hd_dropWhile list.distinct(1) list.sel(1))
  moreover have "j \<in> set (x # ys)"
  proof -
    have "j \<in> set (takeWhile (\<lambda>i. i < j) ?S @ x # ys)" using assms S by (metis set_sort)
    moreover have "j \<notin> set (takeWhile (\<lambda>i. i < j) ?S)" using set_takeWhileD by fastforce
    ultimately show ?thesis by simp
  qed
  moreover have "sorted (x # ys)" using S sorted_sort by (metis sorted_wrt_append)
  ultimately have "x = j" by auto
  then show "sort idxs ! passed idxs j = j" using S by (metis nth_append_length passed_takeWhile)
  show "passed idxs j < length idxs" using arg_cong [OF S, of length] by (simp add: passed_takeWhile)
qed

lemma passed_Suc: "distinct idxs \<Longrightarrow> passed idxs (j + 1) = passed idxs j + (if j \<in> set idxs then 1 else 0)"
  unfolding passed_def by (induction idxs) auto

text \<open>The variables of the loop after the first tickets.\<close>

definition winnersAt :: "('k \<times> 'v) list \<Rightarrow> int list \<Rightarrow> nat \<Rightarrow> 'k option list" where
  "winnersAt es idxs j = map (\<lambda>i. if i < int j then Some (fst (es ! nat i)) else None) idxs"

definition winnerIdxAt :: "int list \<Rightarrow> nat \<Rightarrow> int" where
  "winnerIdxAt idxs j = min (int (passed idxs (int j))) (int (length idxs) - 1)"

lemma winnerStep_run:
  assumes "distinct idxs" "idxs \<noteq> []" "\<forall>i \<in> set idxs. 0 \<le> i" "int j \<le> m"
  shows "winnerStep idxs m (fst (es ! j)) v (Inr (int j, winnerIdxAt idxs j, winnersAt es idxs j)) =
    (True, Inr (int (Suc j), winnerIdxAt idxs (Suc j), winnersAt es idxs (Suc j)))"
proof (cases "int j \<in> set idxs")
  case True
  then obtain p where p: "p < length idxs" "idxs ! p = int j" by (metis in_set_conv_nth)
  note s = sorted_at_passed [OF True]
  have w: "winnerIdxAt idxs j = int (passed idxs (int j))" using s(1) by (simp add: winnerIdxAt_def)
  have o: "originalIdx idxs (int j) = int p" using originalIdx_nth [OF assms(1) p(1)] p(2) by simp
  have "winnersAt es idxs (Suc j) = (winnersAt es idxs j)[p := Some (fst (es ! j))]"
  proof (rule nth_equalityI)
    fix q assume "q < length (winnersAt es idxs (Suc j))"
    then have "q < length idxs" by (simp add: winnersAt_def)
    moreover from this have "q = p \<longleftrightarrow> idxs ! q = int j" using p assms(1) by (metis nth_eq_iff_index_eq)
    ultimately show "winnersAt es idxs (Suc j) ! q = (winnersAt es idxs j)[p := Some (fst (es ! j))] ! q"
      using p by (cases "q = p") (auto simp: winnersAt_def)
  qed (simp add: winnersAt_def)
  moreover have "winnerIdxAt idxs (Suc j) = (if int (passed idxs (int j)) + 1 < int (length idxs) then int (passed idxs (int j)) + 1 else int (passed idxs (int j)))"
    using s(1) passed_Suc [OF assms(1), of "int j"] True by (auto simp: winnerIdxAt_def add.commute)
  moreover have "at (winnersAt es idxs j) (int p) = (Inr (winnersAt es idxs j ! p) :: (lottery_error, _) result)" using p by (simp add: winnersAt_def)
  moreover have "at (sort idxs) (int (passed idxs (int j))) = (Inr (int j) :: (lottery_error, _) result)" using s by simp
  ultimately show ?thesis using assms(4) by (simp add: winnerStep_def w o)
next
  case False
  have "0 \<le> winnerIdxAt idxs j" "winnerIdxAt idxs j < int (length (sort idxs))" using assms(2) by (simp_all add: winnerIdxAt_def Suc_le_eq)
  then have a: "at (sort idxs) (winnerIdxAt idxs j) = (Inr (sort idxs ! nat (winnerIdxAt idxs j)) :: (lottery_error, _) result)"
    by (simp add: at_in)
  have "sort idxs ! nat (winnerIdxAt idxs j) \<in> set (sort idxs)"
    using \<open>winnerIdxAt idxs j < int (length (sort idxs))\<close> \<open>0 \<le> winnerIdxAt idxs j\<close> by (intro nth_mem) (simp add: nat_less_iff)
  then have "int j \<noteq> sort idxs ! nat (winnerIdxAt idxs j)" using False by auto
  moreover have "winnerIdxAt idxs (Suc j) = winnerIdxAt idxs j" using passed_Suc [OF assms(1), of "int j"] False by (simp add: winnerIdxAt_def add.commute)
  moreover have "winnersAt es idxs (Suc j) = winnersAt es idxs j" using False by (auto simp: winnersAt_def less_le)
  ultimately show ?thesis using assms(4) a by (simp add: winnerStep_def)
qed

lemma winners_all: "\<forall>i \<in> set idxs. i < int j \<Longrightarrow> winnersAt es idxs j = map (\<lambda>i. Some (fst (es ! nat i))) idxs"
  by (simp add: winnersAt_def)

lemma winners_run:
  assumes "distinct idxs" "idxs \<noteq> []" "\<forall>i \<in> set idxs. 0 \<le> i \<and> i < int (length es)" "\<forall>i \<in> set idxs. i \<le> m"
  shows "j \<le> length es \<Longrightarrow> \<exists>i w. foldUntil (winnerStep idxs m) (drop j es) (Inr (int j, winnerIdxAt idxs j, winnersAt es idxs j)) =
    Inr (i, w, map (\<lambda>i. Some (fst (es ! nat i))) idxs)"
proof (induction "length es - j" arbitrary: j)
  case 0
  then show ?case using assms(3) by (simp add: winners_all)
next
  case (Suc n)
  then have j: "j < length es" "n = length es - Suc j" by simp_all
  then have d: "drop j es = (es ! j) # drop (Suc j) es" by (simp add: Cons_nth_drop_Suc)
  show ?case
  proof (cases "int j \<le> m")
    case True
    show ?thesis unfolding d foldUntil.simps
      using winnerStep_run [OF assms(1,2) _ True, of es "snd (es ! j)"] assms(3) Suc.hyps(1) [OF j(2)] j(1) by (simp add: Suc_le_eq)
  next
    case False
    then have "\<forall>i \<in> set idxs. i < int j" using assms(4) by force
    with False show ?thesis unfolding d by (simp add: winnerStep_def winners_all)
  qed
qed

lemma fetchWinners_eq:
  assumes "wf_treap t" "size (root t) < 2 ^ 63" "idxs \<noteq> []" "distinct idxs" "\<forall>i \<in> set idxs. 0 \<le> i \<and> i < Len t"
  shows "fetchWinners (Some idxs) t = Inr (map (\<lambda>i. Some (fst (entries (root t) ! nat i))) idxs)"
proof -
  let ?es = "entries (root t)"
  have len: "Len t = int (length ?es)" using assms(1,2) by (simp add: wf_treap_def Len_def wrap64_id)
  obtain i0 where i0: "i0 \<in> set idxs" using assms(3) by fastforce
  with assms(5) len have ne: "Len t \<noteq> 0" by auto
  have all: "\<forall>i \<in> set idxs. 0 \<le> i \<and> i < int (length ?es)" using assms(5) len by simp
  have "\<forall>i \<in> set idxs. i \<le> Len t - 1" using assms(5) by auto
  moreover have "- (2 ^ 31) \<le> Len t - 1" using len by simp
  ultimately have "maxInt idxs \<le> Len t - 1" using conjunct2 [OF maxInt_spec, of idxs] by blast
  then have mx: "\<not> maxInt idxs \<ge> Len t" by simp
  have mn: "\<not> minInt idxs < 0" using minInt_nonneg [of idxs] all by simp
  obtain i w where "foldUntil (winnerStep idxs (maxInt idxs)) ?es (Inr (0, winnerIdxAt idxs 0, winnersAt ?es idxs 0)) =
      Inr (i, w, map (\<lambda>i. Some (fst (?es ! nat i))) idxs)"
    using winners_run [OF assms(4,3) all conjunct1 [OF maxInt_spec], of 0] by auto
  moreover have "filter (\<lambda>i. i < 0) idxs = []" using assms(5) by (auto simp: filter_empty_conv)
  then have "winnerIdxAt idxs 0 = 0" using assms(3) by (simp add: winnerIdxAt_def passed_def Suc_le_eq)
  moreover have "winnersAt ?es idxs 0 = replicate (length idxs) None" 
    unfolding winnersAt_def map_replicate_const [symmetric] by (rule map_cong) (use all in auto)
  ultimately show ?thesis
    using ne mx mn by (simp add: fetchWinners_def ForEach_eq)
qed

text \<open>
  C19. For different indexes inside the treap, \<^verbatim>\<open>fetchWinners\<close> returns the keys at those positions of the
  ascending order of keys, in the order in which the indexes were drawn.
\<close>

theorem fetch_winners_correct:
  assumes "wf_treap t" "size (root t) < 2 ^ 63" "idxs \<noteq> []" "distinct idxs" "\<forall>i \<in> set idxs. 0 \<le> i \<and> i < Len t"
  shows "\<exists>es. map_of es = treapMap t \<and> sorted_wrt (<) (map fst es) \<and>
    fetchWinners (Some idxs) t = Inr (map (\<lambda>i. Some (fst (es ! nat i))) idxs)"
  by (intro exI [of _ "entries (root t)"] conjI fetchWinners_eq assms)
    (use assms(1) in \<open>simp_all add: contents_def wf_treap_def bst_def\<close>)

theorem fetch_winners_correct_witness:
  "\<exists>es :: (nat \<times> bool) list. sorted_wrt (<) (map fst es) \<and>
     fetchWinners (Some [1, 0]) (Put 7 (Put 5 NewImmutable (2 :: nat) (Some True)) 4 (Some False)) = Inr [Some (fst (es ! 1)), Some (fst (es ! 0))]"
proof -
  let ?t = "Put 7 (Put 5 NewImmutable (2 :: nat) (Some True)) 4 (Some False)"
  have wf: "wf_treap ?t" by (intro imm.wf_put imm.wf_new)
  have r: "root ?t = TreapNode NilNode 2 True 5 (TreapNode NilNode 4 False 7 NilNode)" "Len ?t = 2"
    by (simp_all add: Put_def NewImmutable_def newImmutable_def newTreapNode_def Len_def wrap64_id)
  have s: "size (root ?t) < 2 ^ 63" "[1 :: int, 0] \<noteq> []" "distinct [1 :: int, 0]" "\<forall>i \<in> set [1, 0]. 0 \<le> i \<and> i < Len ?t"
    by (simp_all add: r)
  obtain es :: "(nat \<times> bool) list" where "sorted_wrt (<) (map fst es)" "fetchWinners (Some [1, 0]) ?t = Inr (map (\<lambda>i. Some (fst (es ! nat i))) [1, 0])"
    using fetch_winners_correct [OF wf s] by blast
  then show ?thesis by (intro exI [of _ es]) simp
qed

lemma fetchExpired_eq: "fetchExpired h t = map fst (filter (\<lambda>e. KeyHeight (snd e) \<le> h) (entries (root t)))"
proof -
  have "foldUntil (\<lambda>k v expired. (True, if KeyHeight v \<le> h then expired @ [k] else expired)) es acc =
      acc @ map fst (filter (\<lambda>e. KeyHeight (snd e) \<le> h) es)" for es :: "('a \<times> ticketValue) list" and acc
    by (induction es arbitrary: acc) auto
  then show ?thesis by (simp add: fetchExpired_def ForEach_eq)
qed

end
