(* ===== verification/TicketDb.thy ===== *)
theory TicketDb
  imports Lottery Wire "HOL-Library.AList" "HOL-Library.List_Lexorder"
begin

unbundle bit_operations_syntax

text \<open>
  The ticket database (\<^verbatim>\<open>blockchain/stake/internal/ticketdb/chainio.go\<close>): the serialized forms of the
  database information, the best chain state, the undo data of a block, the hashes of its new
  tickets and single tickets, and the operations on the buckets that hold them.

  The transaction is a writable one: its metadata are a map from keys to values and a map from names
  to buckets, and a bucket is an association list with distinct keys. A bucket that does not exist is
  a nil interface whose use is a panic. Bytes of a slice past its length are out of range.
\<close>

section \<open>Buckets\<close>

datatype ticketdb_error =
    ErrUndoDataShortRead | ErrUndoDataCorrupt | ErrTicketHashesShortRead | ErrTicketHashesCorrupt
  | ErrMissingKey | ErrChainStateShortRead | ErrDatabaseInfoShortRead | ErrLoadAllTickets | ErrBucketExists

type_synonym bucket = "(bytes \<times> bytes) list"

record ticketDb =
  dbMeta :: "string \<rightharpoonup> bytes"
  dbBuckets :: "string \<rightharpoonup> bucket"

definition Bucket :: "ticketDb \<Rightarrow> string \<Rightarrow> ('e, bucket) result" where
  "Bucket db name = (case dbBuckets db name of None \<Rightarrow> panic | Some b \<Rightarrow> Inr b)"

definition bucketGet :: "ticketDb \<Rightarrow> string \<Rightarrow> bytes \<Rightarrow> ('e, bytes option) result" where
  "bucketGet db name k = bindE (Bucket db name) (\<lambda>b. Inr (map_of b k))"

definition bucketPut :: "ticketDb \<Rightarrow> string \<Rightarrow> bytes \<Rightarrow> bytes \<Rightarrow> ('e, ticketDb) result" where
  "bucketPut db name k v =
     bindE (Bucket db name) (\<lambda>b. Inr (db\<lparr>dbBuckets := (dbBuckets db)(name \<mapsto> AList.update k v b)\<rparr>))"

definition bucketDelete :: "ticketDb \<Rightarrow> string \<Rightarrow> bytes \<Rightarrow> ('e, ticketDb) result" where
  "bucketDelete db name k =
     bindE (Bucket db name) (\<lambda>b. Inr (db\<lparr>dbBuckets := (dbBuckets db)(name \<mapsto> AList.delete k b)\<rparr>))"

definition CreateBucket :: "ticketDb \<Rightarrow> string \<Rightarrow> (ticketdb_error, ticketDb) result" where
  "CreateBucket db name =
     (if dbBuckets db name \<noteq> None then raise ErrBucketExists
      else Inr (db\<lparr>dbBuckets := (dbBuckets db)(name \<mapsto> [])\<rparr>))"

text \<open>The names of \<^verbatim>\<open>dbnamespace\<close>.\<close>

definition StakeDbInfoBucketName :: string where "StakeDbInfoBucketName = ''stakedbinfo''"
definition StakeChainStateKeyName :: string where "StakeChainStateKeyName = ''stakechainstate''"
definition LiveTicketsBucketName :: string where "LiveTicketsBucketName = ''livetickets''"
definition MissedTicketsBucketName :: string where "MissedTicketsBucketName = ''missedtickets''"
definition RevokedTicketsBucketName :: string where "RevokedTicketsBucketName = ''revokedtickets''"
definition StakeBlockUndoDataBucketName :: string where "StakeBlockUndoDataBucketName = ''stakeblockundo''"
definition TicketsInBlockBucketName :: string where "TicketsInBlockBucketName = ''ticketsinblock''"

text \<open>The byte order is little-endian; the encoders are those of the wire format.\<close>

definition leUint16 :: "bytes \<Rightarrow> 16 word" where "leUint16 b = word_of_int (leVal b)"
definition leUint32 :: "bytes \<Rightarrow> 32 word" where "leUint32 b = word_of_int (leVal b)"
definition leUint64 :: "bytes \<Rightarrow> 64 word" where "leUint64 b = word_of_int (leVal b)"

section \<open>Database information\<close>

text \<open>The date is its number of seconds since the epoch.\<close>

record DatabaseInfo =
  di_Version :: "32 word"
  Date :: int
  UpgradeStarted :: bool

definition upgradeStartedBit :: "32 word" where "upgradeStartedBit = 0x80000000"
definition databaseInfoSize :: int where "databaseInfoSize = 8"

definition serializeDatabaseInfo :: "DatabaseInfo \<Rightarrow> bytes" where
  "serializeDatabaseInfo dbi =
     PutUint32 (if UpgradeStarted dbi then di_Version dbi OR upgradeStartedBit else di_Version dbi) @
     PutUint32 (word_of_int (Date dbi))"

definition deserializeDatabaseInfo :: "bytes \<Rightarrow> (ticketdb_error, DatabaseInfo) result" where
  "deserializeDatabaseInfo b =
     (if int (length b) < databaseInfoSize then raise ErrDatabaseInfoShortRead
      else bindE (slice b 0 4) (\<lambda>v. bindE (slice b 4 8) (\<lambda>ts.
        let rawVersion = leUint32 v
        in Inr \<lparr>di_Version = rawVersion AND NOT upgradeStartedBit, Date = uint (leUint32 ts),
                UpgradeStarted = (upgradeStartedBit AND rawVersion > 0)\<rparr>)))"

definition DbPutDatabaseInfo :: "ticketDb \<Rightarrow> DatabaseInfo \<Rightarrow> (ticketdb_error, ticketDb) result" where
  "DbPutDatabaseInfo db dbi = bucketPut db StakeDbInfoBucketName (map (of_nat \<circ> of_char) StakeDbInfoBucketName) (serializeDatabaseInfo dbi)"

text \<open>A database that was not initialized has no information, which is not an error.\<close>

definition DbFetchDatabaseInfo :: "ticketDb \<Rightarrow> (ticketdb_error, DatabaseInfo option) result" where
  "DbFetchDatabaseInfo db =
     (case dbBuckets db StakeDbInfoBucketName of
        None \<Rightarrow> Inr None
      | Some b \<Rightarrow>
          (case map_of b (map (of_nat \<circ> of_char) StakeDbInfoBucketName) of
             None \<Rightarrow> raise ErrMissingKey
           | Some v \<Rightarrow> bindE (deserializeDatabaseInfo v) (\<lambda>dbi. Inr (Some dbi))))"

section \<open>The best chain state\<close>

record BestChainState =
  bs_Hash :: bytes
  bs_Height :: "32 word"
  bs_KeyHeight :: "32 word"
  bs_Live :: "32 word"
  bs_Missed :: "64 word"
  bs_Revoked :: "64 word"
  PerBlock :: "16 word"
  NextWinners :: "bytes list"

definition minimumBestChainStateSize :: int where
  "minimumBestChainStateSize = 32 + 4 + 4 + 4 + 8 + 8 + 2"

text \<open>The winners are copied over a buffer of zeroes that holds \<^verbatim>\<open>PerBlock\<close> hashes.\<close>

definition serializeBestChainState :: "BestChainState \<Rightarrow> ('e, bytes) result" where
  "serializeBestChainState state =
     (if length (NextWinners state) > unat (PerBlock state) then panic
      else Inr (bs_Hash state @ PutUint32 (bs_Height state) @ PutUint32 (bs_KeyHeight state) @ PutUint32 (bs_Live state) @
                PutUint64 (bs_Missed state) @ PutUint64 (bs_Revoked state) @ PutUint16 (PerBlock state) @
                concat (NextWinners state) @ replicate (32 * (unat (PerBlock state) - length (NextWinners state))) 0))"

text \<open>The loops over \<open>n\<close> hashes from an offset on.\<close>

primrec readHashes :: "nat \<Rightarrow> bytes \<Rightarrow> int \<Rightarrow> ('e, bytes list) result" where
  "readHashes 0 b offset = Inr []"
| "readHashes (Suc n) b offset =
     bindE (slice b offset (offset + 32)) (\<lambda>h. bindE (readHashes n b (offset + 32)) (\<lambda>hs. Inr (h # hs)))"

definition deserializeBestChainState :: "bytes \<Rightarrow> (ticketdb_error, BestChainState) result" where
  "deserializeBestChainState b =
     (if int (length b) < minimumBestChainStateSize then raise ErrChainStateShortRead
      else bindE (slice b 0 32) (\<lambda>hash. bindE (slice b 32 36) (\<lambda>height. bindE (slice b 36 40) (\<lambda>keyHeight.
           bindE (slice b 40 44) (\<lambda>live. bindE (slice b 44 52) (\<lambda>missed. bindE (slice b 52 60) (\<lambda>revoked.
           bindE (slice b 60 62) (\<lambda>perBlock.
           bindE (readHashes (unat (leUint16 perBlock)) b 62) (\<lambda>winners.
             Inr \<lparr>bs_Hash = hash, bs_Height = leUint32 height, bs_KeyHeight = leUint32 keyHeight, bs_Live = leUint32 live,
                  bs_Missed = leUint64 missed, bs_Revoked = leUint64 revoked, PerBlock = leUint16 perBlock,
                  NextWinners = winners\<rparr>)))))))))"

definition DbFetchBestState :: "ticketDb \<Rightarrow> (ticketdb_error, BestChainState) result" where
  "DbFetchBestState db =
     (case dbMeta db StakeChainStateKeyName of
        None \<Rightarrow> raise ErrMissingKey
      | Some v \<Rightarrow> deserializeBestChainState v)"

definition DbPutBestState :: "ticketDb \<Rightarrow> BestChainState \<Rightarrow> (ticketdb_error, ticketDb) result" where
  "DbPutBestState db bcs =
     bindE (serializeBestChainState bcs) (\<lambda>v. Inr (db\<lparr>dbMeta := (dbMeta db)(StakeChainStateKeyName \<mapsto> v)\<rparr>))"

section \<open>Undo data\<close>

record UndoTicketData =
  TicketHash :: bytes
  TicketHeight :: "32 word"
  TicketKeyHeight :: "32 word"
  u_Missed :: bool
  u_Revoked :: bool
  u_Spent :: bool
  u_Expired :: bool

definition undoTicketDataSize :: int where "undoTicketDataSize = 37 + 4"

definition undoBitFlagsToByte :: "bool \<Rightarrow> bool \<Rightarrow> bool \<Rightarrow> bool \<Rightarrow> byte" where
  "undoBitFlagsToByte missed revoked spent expired =
     (let b = 0; b = (if missed then b OR 1 else b); b = (if revoked then b OR 2 else b);
          b = (if spent then b OR 4 else b)
      in if expired then b OR 8 else b)"

definition undoBitFlagsFromByte :: "byte \<Rightarrow> bool \<times> bool \<times> bool \<times> bool" where
  "undoBitFlagsFromByte b = (b AND 1 > 0, b AND 2 > 0, b AND 4 > 0, b AND 8 > 0)"

definition serializeUndo :: "UndoTicketData \<Rightarrow> bytes" where
  "serializeUndo utd =
     TicketHash utd @ PutUint32 (TicketHeight utd) @ PutUint32 (TicketKeyHeight utd) @
     [undoBitFlagsToByte (u_Missed utd) (u_Revoked utd) (u_Spent utd) (u_Expired utd)]"

definition serializeBlockUndoData :: "UndoTicketData list \<Rightarrow> bytes" where
  "serializeBlockUndoData utds = concat (map serializeUndo utds)"

primrec deserializeUndos :: "nat \<Rightarrow> bytes \<Rightarrow> int \<Rightarrow> (ticketdb_error, UndoTicketData list) result" where
  "deserializeUndos 0 b offset = Inr []"
| "deserializeUndos (Suc n) b offset =
     bindE (slice b offset (offset + 32)) (\<lambda>hash.
     if length hash \<noteq> 32 then raise ErrUndoDataCorrupt
     else bindE (slice b (offset + 32) (offset + 36)) (\<lambda>height.
          bindE (slice b (offset + 36) (offset + 40)) (\<lambda>keyHeight.
          bindE (at b (offset + 40)) (\<lambda>flags.
          case undoBitFlagsFromByte flags of (missed, revoked, spent, expired) \<Rightarrow>
            bindE (deserializeUndos n b (offset + 41)) (\<lambda>utds.
              Inr (\<lparr>TicketHash = hash, TicketHeight = leUint32 height, TicketKeyHeight = leUint32 keyHeight, u_Missed = missed,
                    u_Revoked = revoked, u_Spent = spent, u_Expired = expired\<rparr> # utds))))))"

definition deserializeBlockUndoData :: "bytes \<Rightarrow> (ticketdb_error, UndoTicketData list) result" where
  "deserializeBlockUndoData b =
     (if b = [] then Inr []
      else if int (length b) < undoTicketDataSize then raise ErrUndoDataShortRead
      else if int (length b) mod undoTicketDataSize \<noteq> 0 then raise ErrUndoDataCorrupt
      else deserializeUndos (nat (int (length b) div undoTicketDataSize)) b 0)"

definition DbFetchBlockUndoData :: "ticketDb \<Rightarrow> 32 word \<Rightarrow> (ticketdb_error, UndoTicketData list) result" where
  "DbFetchBlockUndoData db h =
     bindE (bucketGet db StakeBlockUndoDataBucketName (PutUint32 h)) (\<lambda>v.
       case v of None \<Rightarrow> raise ErrMissingKey | Some b \<Rightarrow> deserializeBlockUndoData b)"

definition DbPutBlockUndoData :: "ticketDb \<Rightarrow> 32 word \<Rightarrow> UndoTicketData list \<Rightarrow> (ticketdb_error, ticketDb) result" where
  "DbPutBlockUndoData db h utds = bucketPut db StakeBlockUndoDataBucketName (PutUint32 h) (serializeBlockUndoData utds)"

definition DbDropBlockUndoData :: "ticketDb \<Rightarrow> 32 word \<Rightarrow> (ticketdb_error, ticketDb) result" where
  "DbDropBlockUndoData db h = bucketDelete db StakeBlockUndoDataBucketName (PutUint32 h)"

section \<open>Hashes of new tickets\<close>

definition serializeTicketHashes :: "bytes list \<Rightarrow> bytes" where
  "serializeTicketHashes ths = concat ths"

definition deserializeTicketHashes :: "bytes \<Rightarrow> (ticketdb_error, bytes list) result" where
  "deserializeTicketHashes b =
     (if b = [] then Inr []
      else if int (length b) < 32 then raise ErrTicketHashesShortRead
      else if int (length b) mod 32 \<noteq> 0 then raise ErrTicketHashesCorrupt
      else readHashes (nat (int (length b) div 32)) b 0)"

definition DbFetchNewTickets :: "ticketDb \<Rightarrow> 32 word \<Rightarrow> (ticketdb_error, bytes list) result" where
  "DbFetchNewTickets db h =
     bindE (bucketGet db TicketsInBlockBucketName (PutUint32 h)) (\<lambda>v.
       case v of None \<Rightarrow> raise ErrMissingKey | Some b \<Rightarrow> deserializeTicketHashes b)"

definition DbPutNewTickets :: "ticketDb \<Rightarrow> 32 word \<Rightarrow> bytes list \<Rightarrow> (ticketdb_error, ticketDb) result" where
  "DbPutNewTickets db h ths = bucketPut db TicketsInBlockBucketName (PutUint32 h) (serializeTicketHashes ths)"

definition DbDropNewTickets :: "ticketDb \<Rightarrow> 32 word \<Rightarrow> (ticketdb_error, ticketDb) result" where
  "DbDropNewTickets db h = bucketDelete db TicketsInBlockBucketName (PutUint32 h)"

section \<open>Tickets\<close>

definition DbDeleteTicket :: "ticketDb \<Rightarrow> string \<Rightarrow> bytes \<Rightarrow> (ticketdb_error, ticketDb) result" where
  "DbDeleteTicket db ticketBucket hash =
     bindE (bucketGet db ticketBucket hash) (\<lambda>v.
       case v of None \<Rightarrow> raise ErrMissingKey | Some _ \<Rightarrow> bucketDelete db ticketBucket hash)"

definition DbPutTicket ::
  "ticketDb \<Rightarrow> string \<Rightarrow> bytes \<Rightarrow> 32 word \<Rightarrow> 32 word \<Rightarrow> bool \<Rightarrow> bool \<Rightarrow> bool \<Rightarrow> bool \<Rightarrow> (ticketdb_error, ticketDb) result" where
  "DbPutTicket db ticketBucket hash h keyH missed revoked spent expired =
     bucketPut db ticketBucket hash (PutUint32 h @ PutUint32 keyH @ [undoBitFlagsToByte missed revoked spent expired])"

text \<open>
  The loop of \<^verbatim>\<open>DbLoadAllTickets\<close>; \<open>rnd\<close> gives the priority of the node made for a key. The reads at fixed
  offsets are in range after the length check.
\<close>

primrec loadTickets :: "(bytes \<Rightarrow> int) \<Rightarrow> bucket \<Rightarrow> (bytes, ticketValue) Immutable \<Rightarrow> (ticketdb_error, (bytes, ticketValue) Immutable) result" where
  "loadTickets rnd [] treap = Inr treap"
| "loadTickets rnd (kv # kvs) treap =
     (case kv of (k, v) \<Rightarrow>
        if length v < 9 then raise ErrLoadAllTickets
        else if length k \<noteq> 32 then raise ErrLoadAllTickets
        else (case undoBitFlagsFromByte (v ! 8) of (missed, revoked, spent, expired) \<Rightarrow>
          loadTickets rnd kvs (Put (rnd k) treap k
            (Some \<lparr>Height = leUint32 (take 4 v), KeyHeight = leUint32 (take 4 (drop 4 v)), Missed = missed, Revoked = revoked,
                   Spent = spent, Expired = expired\<rparr>))))"

definition DbLoadAllTickets :: "(bytes \<Rightarrow> int) \<Rightarrow> ticketDb \<Rightarrow> string \<Rightarrow> (ticketdb_error, (bytes, ticketValue) Immutable) result" where
  "DbLoadAllTickets rnd db ticketBucket = bindE (Bucket db ticketBucket) (\<lambda>b. loadTickets rnd b NewImmutable)"

definition currentDatabaseVersion :: "32 word" where "currentDatabaseVersion = 1"

definition DbCreate :: "int \<Rightarrow> ticketDb \<Rightarrow> (ticketdb_error, ticketDb) result" where
  "DbCreate now db =
     bindE (CreateBucket db StakeDbInfoBucketName) (\<lambda>db.
     bindE (DbPutDatabaseInfo db \<lparr>di_Version = currentDatabaseVersion, Date = now, UpgradeStarted = False\<rparr>) (\<lambda>db.
     bindE (CreateBucket db LiveTicketsBucketName) (\<lambda>db.
     bindE (CreateBucket db MissedTicketsBucketName) (\<lambda>db.
     bindE (CreateBucket db RevokedTicketsBucketName) (\<lambda>db.
     bindE (CreateBucket db StakeBlockUndoDataBucketName) (\<lambda>db.
       CreateBucket db TicketsInBlockBucketName))))))"

section \<open>Round trips of the serialized forms\<close>

lemma leUint_put [simp]: "leUint16 (PutUint16 w) = w" "leUint32 (PutUint32 x) = x" "leUint64 (PutUint64 y) = y"
  by (simp_all add: leUint16_def leUint32_def leUint64_def PutUint16_def PutUint32_def PutUint64_def leVal_put)

lemma flags_round_trip [simp]: "undoBitFlagsFromByte (undoBitFlagsToByte m r s e) = (m, r, s, e)"
  by (cases m; cases r; cases s; cases e) (simp_all add: undoBitFlagsFromByte_def undoBitFlagsToByte_def)

lemma slice_mid:
  "lo = int (length pre) \<Longrightarrow> hi = lo + int (length x) \<Longrightarrow> slice (pre @ x @ post) lo hi = Inr x"
  by (simp add: slice_def)

lemma readHashes_concat:
  "list_all (\<lambda>h. length h = 32) hs \<Longrightarrow> offset = int (length pre) \<Longrightarrow> readHashes (length hs) (pre @ concat hs @ post) offset = Inr hs"
proof (induction hs arbitrary: pre offset)
  case (Cons h hs)
  have s: "slice (pre @ h @ concat hs @ post) offset (offset + 32) = (Inr h :: ('a, bytes) result)" by (rule slice_mid) (use Cons.prems in simp_all)
  from Cons.IH [of "offset + 32" "pre @ h"] Cons.prems s show ?case by simp
qed simp

lemma deserialize_ticket_hashes [simp]:
  assumes "list_all (\<lambda>h. length h = 32) hs"
  shows "deserializeTicketHashes (serializeTicketHashes hs) = Inr hs"
proof (cases "hs = []")
  case False
  have l: "length (concat hs) = 32 * length hs" using assms by (induction hs) simp_all
  then have "concat hs \<noteq> []" "nat (int (length (concat hs)) div 32) = length hs" "32 \<le> length (concat hs)"
    "int (length (concat hs)) mod 32 = 0" using False by (simp_all add: Suc_le_eq del: concat_eq_Nil_conv length_concat flip: length_greater_0_conv)
  with readHashes_concat [OF assms, of 0 "[]" "[]"] show ?thesis
    by (simp add: deserializeTicketHashes_def serializeTicketHashes_def del: concat_eq_Nil_conv length_concat)
qed (simp add: deserializeTicketHashes_def serializeTicketHashes_def)

lemma deserializeUndos_concat:
  "list_all (\<lambda>u. length (TicketHash u) = 32) us \<Longrightarrow> offset = int (length pre) \<Longrightarrow>
     deserializeUndos (length us) (pre @ concat (map serializeUndo us) @ post) offset = Inr us"
proof (induction us arbitrary: pre offset)
  case (Cons u us)
  let ?rest = "concat (map serializeUndo us) @ post" and ?f = "undoBitFlagsToByte (u_Missed u) (u_Revoked u) (u_Spent u) (u_Expired u)"
  let ?b = "pre @ TicketHash u @ PutUint32 (TicketHeight u) @ PutUint32 (TicketKeyHeight u) @ [?f] @ ?rest"
  have "slice ?b offset (offset + 32) = (Inr (TicketHash u) :: (ticketdb_error, bytes) result)" by (rule slice_mid) (use Cons.prems in simp_all)
  moreover have "slice ((pre @ TicketHash u) @ PutUint32 (TicketHeight u) @ PutUint32 (TicketKeyHeight u) @ [?f] @ ?rest) (offset + 32) (offset + 36) =
      (Inr (PutUint32 (TicketHeight u)) :: (ticketdb_error, bytes) result)" by (rule slice_mid) (use Cons.prems in simp_all)
  moreover have "slice ((pre @ TicketHash u @ PutUint32 (TicketHeight u)) @ PutUint32 (TicketKeyHeight u) @ [?f] @ ?rest) (offset + 36) (offset + 40) =
      (Inr (PutUint32 (TicketKeyHeight u)) :: (ticketdb_error, bytes) result)" by (rule slice_mid) (use Cons.prems in simp_all)
  moreover have "at ?b (offset + 40) = (Inr ?f :: (ticketdb_error, byte) result)"
    using Cons.prems by (simp add: at_def nth_append nat_add_distrib)
  moreover have "deserializeUndos (length us) ((pre @ serializeUndo u) @ ?rest) (offset + 41) = Inr us"
    by (rule Cons.IH) (use Cons.prems in \<open>simp_all add: serializeUndo_def\<close>)
  ultimately show ?case using Cons.prems by (simp add: serializeUndo_def [of u])
qed simp

lemma deserialize_undo_data [simp]:
  assumes "list_all (\<lambda>u. length (TicketHash u) = 32) us"
  shows "deserializeBlockUndoData (serializeBlockUndoData us) = Inr us"
proof (cases "us = []")
  case False
  let ?b = "concat (map serializeUndo us)"
  have l: "length ?b = 41 * length us" using assms by (induction us) (simp_all add: serializeUndo_def)
  then have "?b \<noteq> []" "nat (int (length ?b) div 41) = length us" "41 \<le> length ?b" "int (length ?b) mod 41 = 0"
    using False by (simp_all add: Suc_le_eq del: concat_eq_Nil_conv length_concat flip: length_greater_0_conv)
  with deserializeUndos_concat [OF assms, of 0 "[]" "[]"] show ?thesis
    by (simp add: deserializeBlockUndoData_def serializeBlockUndoData_def undoTicketDataSize_def del: concat_eq_Nil_conv length_concat)
qed (simp add: deserializeBlockUndoData_def serializeBlockUndoData_def)

lemma deserialize_best_state:
  assumes "length (bs_Hash st) = 32" "list_all (\<lambda>h. length h = 32) (NextWinners st)" "length (NextWinners st) = unat (PerBlock st)"
  shows "\<exists>b. serializeBestChainState st = Inr b \<and> deserializeBestChainState b = Inr st"
proof -
  let ?w = "concat (NextWinners st)"
  let ?p1 = "bs_Hash st" and ?p2 = "PutUint32 (bs_Height st)" and ?p3 = "PutUint32 (bs_KeyHeight st)" and ?p4 = "PutUint32 (bs_Live st)"
    and ?p5 = "PutUint64 (bs_Missed st)" and ?p6 = "PutUint64 (bs_Revoked st)" and ?p7 = "PutUint16 (PerBlock st)"
  let ?b = "?p1 @ ?p2 @ ?p3 @ ?p4 @ ?p5 @ ?p6 @ ?p7 @ ?w"
  have s: "serializeBestChainState st = (Inr ?b :: ('e, bytes) result)" using assms(3) by (simp add: serializeBestChainState_def)
  have "slice ([] @ ?p1 @ ?p2 @ ?p3 @ ?p4 @ ?p5 @ ?p6 @ ?p7 @ ?w) 0 32 = (Inr ?p1 :: (ticketdb_error, bytes) result)"
    "slice (?p1 @ ?p2 @ ?p3 @ ?p4 @ ?p5 @ ?p6 @ ?p7 @ ?w) 32 36 = (Inr ?p2 :: (ticketdb_error, bytes) result)"
    "slice ((?p1 @ ?p2) @ ?p3 @ ?p4 @ ?p5 @ ?p6 @ ?p7 @ ?w) 36 40 = (Inr ?p3 :: (ticketdb_error, bytes) result)"
    "slice ((?p1 @ ?p2 @ ?p3) @ ?p4 @ ?p5 @ ?p6 @ ?p7 @ ?w) 40 44 = (Inr ?p4 :: (ticketdb_error, bytes) result)"
    "slice ((?p1 @ ?p2 @ ?p3 @ ?p4) @ ?p5 @ ?p6 @ ?p7 @ ?w) 44 52 = (Inr ?p5 :: (ticketdb_error, bytes) result)"
    "slice ((?p1 @ ?p2 @ ?p3 @ ?p4 @ ?p5) @ ?p6 @ ?p7 @ ?w) 52 60 = (Inr ?p6 :: (ticketdb_error, bytes) result)"
    "slice ((?p1 @ ?p2 @ ?p3 @ ?p4 @ ?p5 @ ?p6) @ ?p7 @ ?w) 60 62 = (Inr ?p7 :: (ticketdb_error, bytes) result)"
    by (rule slice_mid; use assms(1) in simp)+
  moreover have "readHashes (length (NextWinners st)) ((?p1 @ ?p2 @ ?p3 @ ?p4 @ ?p5 @ ?p6 @ ?p7) @ ?w @ []) 62 = (Inr (NextWinners st) :: (ticketdb_error, bytes list) result)"
    by (rule readHashes_concat [OF assms(2)]) (use assms(1) in simp)
  ultimately have "deserializeBestChainState ?b = Inr st"
    using assms by (simp add: deserializeBestChainState_def minimumBestChainStateSize_def)
  with s show ?thesis by blast
qed

lemma deserialize_database_info:
  assumes "0 \<le> Date dbi" "Date dbi < 2 ^ 32" "di_Version dbi AND upgradeStartedBit = 0"
  shows "deserializeDatabaseInfo (serializeDatabaseInfo dbi) = Inr dbi"
proof -
  have "(v OR upgradeStartedBit) AND NOT upgradeStartedBit = v AND NOT upgradeStartedBit" for v
    by (rule bit_word_eqI) (auto simp: bit_simps)
  moreover have "di_Version dbi AND NOT upgradeStartedBit = di_Version dbi"
    using assms(3) by (intro bit_word_eqI) (metis bit_and_iff bit_0_eq bot_apply bit_not_iff bot_bool_def bit_imp_possible_bit impossible_bit)
  moreover have "upgradeStartedBit AND (v OR upgradeStartedBit) = upgradeStartedBit" for v by (rule bit_word_eqI) (auto simp: bit_simps)
  moreover have "upgradeStartedBit > 0" by (simp add: upgradeStartedBit_def)
  ultimately show ?thesis using assms
    by (auto simp: deserializeDatabaseInfo_def serializeDatabaseInfo_def databaseInfoSize_def slice_def uint_word_of_int take_bit_int_eq_self and.commute Let_def)
qed

end
