(* ===== verification/MsgBlock.thy ===== *)
theory MsgBlock
  imports MsgTx
begin

unbundle bit_operations_syntax

text \<open>
  Block headers and blocks (\<^verbatim>\<open>wire/blockheader.go\<close>, \<^verbatim>\<open>wire/msgblock.go\<close>): encoding, decoding, sizes and the
  locations of the transactions inside an encoded block.
\<close>

section \<open>Block headers\<close>

text \<open>The timestamp is the number of seconds since the epoch; the encoding keeps its lower 32 bits.\<close>

record BlockHeader =
  bh_Version :: "32 word"
  PrevBlock :: bytes
  PrevKeyBlock :: bytes
  MerkleRoot :: bytes
  StakeRoot :: bytes
  VoteBits :: "16 word"
  FinalState :: bytes
  Voters :: "16 word"
  FreshStake :: byte
  Revocations :: byte
  PoolSize :: "32 word"
  Bits :: "32 word"
  SBits :: "64 word"
  bh_Height :: "32 word"
  bh_KeyHeight :: "32 word"
  bh_Size :: "32 word"
  Timestamp :: int
  Nonce :: "32 word"
  ExtraData :: bytes
  StakeVersion :: "32 word"

definition writeBlockHeader :: "BlockHeader \<Rightarrow> bytes" where
  "writeBlockHeader bh =
     PutUint32 (bh_Version bh) @ PrevBlock bh @ PrevKeyBlock bh @ MerkleRoot bh @ StakeRoot bh @ PutUint16 (VoteBits bh) @
     FinalState bh @ PutUint16 (Voters bh) @ PutUint8 (FreshStake bh) @ PutUint8 (Revocations bh) @ PutUint32 (PoolSize bh) @
     PutUint32 (Bits bh) @ PutUint64 (SBits bh) @ PutUint32 (bh_Height bh) @ PutUint32 (bh_KeyHeight bh) @ PutUint32 (bh_Size bh) @
     PutUint32 (word_of_int (Timestamp bh)) @ ExtraData bh @ PutUint32 (Nonce bh) @ PutUint32 (StakeVersion bh)"

definition readBlockHeader :: "BlockHeader reader" where
  "readBlockHeader r =
     bindE (Uint32 r) (\<lambda>(version, r). bindE (readFull 32 r) (\<lambda>(prevBlock, r). bindE (readFull 32 r) (\<lambda>(prevKeyBlock, r).
     bindE (readFull 32 r) (\<lambda>(merkleRoot, r). bindE (readFull 32 r) (\<lambda>(stakeRoot, r). bindE (Uint16 r) (\<lambda>(voteBits, r).
     bindE (readFull 6 r) (\<lambda>(finalState, r). bindE (Uint16 r) (\<lambda>(voters, r). bindE (Uint8 r) (\<lambda>(freshStake, r).
     bindE (Uint8 r) (\<lambda>(revocations, r). bindE (Uint32 r) (\<lambda>(poolSize, r). bindE (Uint32 r) (\<lambda>(bits, r).
     bindE (Uint64 r) (\<lambda>(sbits, r). bindE (Uint32 r) (\<lambda>(height, r). bindE (Uint32 r) (\<lambda>(keyHeight, r).
     bindE (Uint32 r) (\<lambda>(size, r). bindE (Uint32 r) (\<lambda>(sec, r). bindE (readFull 32 r) (\<lambda>(extraData, r).
     bindE (Uint32 r) (\<lambda>(nonce, r). bindE (Uint32 r) (\<lambda>(stakeVersion, r).
       Inr (\<lparr>bh_Version = version, PrevBlock = prevBlock, PrevKeyBlock = prevKeyBlock, MerkleRoot = merkleRoot, StakeRoot = stakeRoot,
             VoteBits = voteBits, FinalState = finalState, Voters = voters, FreshStake = freshStake, Revocations = revocations,
             PoolSize = poolSize, Bits = bits, SBits = sbits, bh_Height = height, bh_KeyHeight = keyHeight, bh_Size = size,
             Timestamp = uint sec, Nonce = nonce, ExtraData = extraData, StakeVersion = stakeVersion\<rparr>, r)))))))))))))))))))))"

definition BlockHeader_Bytes :: "BlockHeader \<Rightarrow> bytes" where
  "BlockHeader_Bytes h = writeBlockHeader h"

definition BlockHeader_FromBytes :: "bytes \<Rightarrow> (wire_error, BlockHeader) result" where
  "BlockHeader_FromBytes b = bindE (readBlockHeader b) (\<lambda>(h, _). Inr h)"

definition BlockHash :: "(bytes \<Rightarrow> bytes) \<Rightarrow> BlockHeader \<Rightarrow> bytes" where
  "BlockHash hashH h = hashH (writeBlockHeader h)"

definition blockHeaderLen :: nat where "blockHeaderLen = 180 + 32 + 4"

section \<open>Blocks\<close>

record MsgBlock =
  Header :: BlockHeader
  Transactions :: "MsgTx list"
  STransactions :: "MsgTx list"

record TxLoc =
  TxStart :: int
  TxLen :: int

definition MaxTxPerTxTree :: "32 word \<Rightarrow> nat" where
  "MaxTxPerTxTree pver = (if pver \<le> 3 then (2048000 div 15) div 2 + 1 else (2048000 div 15) div 2 + 1)"

definition NewMsgBlock :: "BlockHeader \<Rightarrow> MsgBlock" where
  "NewMsgBlock h = \<lparr>Header = h, Transactions = [], STransactions = []\<rparr>"

definition AddTransaction :: "MsgTx \<Rightarrow> MsgBlock \<Rightarrow> MsgBlock" where
  "AddTransaction t msg = msg\<lparr>Transactions := Transactions msg @ [t]\<rparr>"

definition AddSTransaction :: "MsgTx \<Rightarrow> MsgBlock \<Rightarrow> MsgBlock" where
  "AddSTransaction t msg = msg\<lparr>STransactions := STransactions msg @ [t]\<rparr>"

definition ClearTransactions :: "MsgBlock \<Rightarrow> MsgBlock" where
  "ClearTransactions msg = msg\<lparr>Transactions := []\<rparr>"

definition ClearSTransactions :: "MsgBlock \<Rightarrow> MsgBlock" where
  "ClearSTransactions msg = msg\<lparr>STransactions := []\<rparr>"

text \<open>The two loops over the transactions of a tree.\<close>

definition readTxTree :: "32 word \<Rightarrow> MsgTx list reader" where
  "readTxTree pver r = bindE (ReadVarInt r) (\<lambda>(txCount, r).
     if unat txCount > MaxTxPerTxTree pver then raise (MessageError ''MsgBlock.BtcDecode'')
     else readMany (unat txCount) (BtcDecode zeroMsgTx) r)"

definition MsgBlock_BtcDecode :: "32 word \<Rightarrow> MsgBlock reader" where
  "MsgBlock_BtcDecode pver r =
     bindE (readBlockHeader r) (\<lambda>(h, r).
     bindE (readTxTree pver r) (\<lambda>(txs, r).
     bindE (readTxTree pver r) (\<lambda>(stxs, r).
       Inr (\<lparr>Header = h, Transactions = txs, STransactions = stxs\<rparr>, r))))"

definition MsgBlock_FromBytes :: "bytes \<Rightarrow> (wire_error, MsgBlock) result" where
  "MsgBlock_FromBytes b = bindE (MsgBlock_BtcDecode 0 b) (\<lambda>(msg, _). Inr msg)"

primrec encodeTxs :: "MsgTx list \<Rightarrow> (wire_error, bytes) result" where
  "encodeTxs [] = Inr []"
| "encodeTxs (t # ts) = bindE (BtcEncode t) (\<lambda>b. bindE (encodeTxs ts) (\<lambda>bs. Inr (b @ bs)))"

definition MsgBlock_BtcEncode :: "MsgBlock \<Rightarrow> (wire_error, bytes) result" where
  "MsgBlock_BtcEncode msg =
     bindE (encodeTxs (Transactions msg)) (\<lambda>bs.
     bindE (encodeTxs (STransactions msg)) (\<lambda>ss.
       Inr (writeBlockHeader (Header msg) @ WriteVarInt (word_of_nat (length (Transactions msg))) @ bs @
            WriteVarInt (word_of_nat (length (STransactions msg))) @ ss)))"

definition MsgBlock_SerializeSize :: "MsgBlock \<Rightarrow> nat" where
  "MsgBlock_SerializeSize msg =
     blockHeaderLen + VarIntSerializeSize (word_of_nat (length (Transactions msg))) +
     VarIntSerializeSize (word_of_nat (length (STransactions msg))) +
     sum_list (map SerializeSize (Transactions msg)) + sum_list (map SerializeSize (STransactions msg))"

text \<open>
  \<^verbatim>\<open>DeserializeTxLoc\<close> reads from a buffer whose remaining length is observed before and after each transaction.
\<close>

primrec readTxLocs :: "nat \<Rightarrow> int \<Rightarrow> (MsgTx \<times> TxLoc) list reader" where
  "readTxLocs 0 fullLen r = Inr ([], r)"
| "readTxLocs (Suc n) fullLen r =
     (let start = fullLen - int (length r)
      in bindE (BtcDecode zeroMsgTx r) (\<lambda>(t, r).
         let loc = \<lparr>TxStart = start, TxLen = (fullLen - int (length r)) - start\<rparr>
         in bindE (readTxLocs n fullLen r) (\<lambda>(ts, r). Inr ((t, loc) # ts, r))))"

definition readTxTreeLocs :: "int \<Rightarrow> (MsgTx \<times> TxLoc) list reader" where
  "readTxTreeLocs fullLen r = bindE (ReadVarInt r) (\<lambda>(txCount, r).
     if unat txCount > MaxTxPerTxTree 1 then raise (MessageError ''MsgBlock.DeserializeTxLoc'')
     else readTxLocs (unat txCount) fullLen r)"

definition DeserializeTxLoc :: "bytes \<Rightarrow> (wire_error, (TxLoc list \<times> TxLoc list \<times> MsgBlock) \<times> bytes) result" where
  "DeserializeTxLoc r =
     (let fullLen = int (length r)
      in bindE (readBlockHeader r) (\<lambda>(h, r).
         bindE (readTxTreeLocs fullLen r) (\<lambda>(txs, r).
         bindE (readTxTreeLocs fullLen r) (\<lambda>(stxs, r).
           Inr ((map snd txs, map snd stxs, \<lparr>Header = h, Transactions = map fst txs, STransactions = map fst stxs\<rparr>), r)))))"

text \<open>The hashes of the transactions; \<^verbatim>\<open>TxHash\<close> panics for a transaction that does not serialize.\<close>

primrec hashTxs :: "(bytes \<Rightarrow> bytes) \<Rightarrow> MsgTx list \<Rightarrow> (wire_error, bytes list) result" where
  "hashTxs hashB [] = Inr []"
| "hashTxs hashB (t # ts) = bindE (TxHash hashB t) (\<lambda>h. bindE (hashTxs hashB ts) (\<lambda>hs. Inr (h # hs)))"

definition TxHashes :: "(bytes \<Rightarrow> bytes) \<Rightarrow> MsgBlock \<Rightarrow> (wire_error, bytes list) result" where
  "TxHashes hashB msg = hashTxs hashB (Transactions msg)"

definition STxHashes :: "(bytes \<Rightarrow> bytes) \<Rightarrow> MsgBlock \<Rightarrow> (wire_error, bytes list) result" where
  "STxHashes hashB msg = hashTxs hashB (STransactions msg)"

section \<open>Headers meet the interface of an encoding\<close>

definition wf_header :: "BlockHeader \<Rightarrow> bool" where
  "wf_header h \<longleftrightarrow> length (PrevBlock h) = 32 \<and> length (PrevKeyBlock h) = 32 \<and> length (MerkleRoot h) = 32 \<and> length (StakeRoot h) = 32 \<and>
     length (FinalState h) = 6 \<and> length (ExtraData h) = 32 \<and> 0 \<le> Timestamp h \<and> Timestamp h < 2 ^ 32"

interpretation header: codec writeBlockHeader readBlockHeader wf_header
proof
  fix x r
  assume "wf_header x"
  then show "readBlockHeader (writeBlockHeader x @ r) = Inr (x, r)"
    by (simp add: readBlockHeader_def writeBlockHeader_def wf_header_def uint_word_of_int take_bit_int_eq_self)
next
  fix s x r
  have sec: "uint w < 4294967296" for w :: "32 word" using uint_lt2p [of w] by simp
  assume "readBlockHeader s = Inr (x, r)"
  then show "wf_header x \<and> s = writeBlockHeader x @ r"
    by (auto simp: readBlockHeader_def writeBlockHeader_def wf_header_def bindE_eq_Inr fixed_dec_iff readFull_eq_Inr sec)
qed

lemma length_writeBlockHeader: "wf_header h \<Longrightarrow> length (writeBlockHeader h) = blockHeaderLen"
  by (simp add: writeBlockHeader_def wf_header_def blockHeaderLen_def PutUint8_def)

section \<open>Encoding and decoding of blocks\<close>

definition wf_block :: "MsgBlock \<Rightarrow> bool" where
  "wf_block b \<longleftrightarrow> wf_header (Header b) \<and> list_all wf_tx (Transactions b) \<and> list_all wf_tx (STransactions b) \<and>
     length (Transactions b) \<le> MaxTxPerTxTree 0 \<and> length (STransactions b) \<le> MaxTxPerTxTree 0"

text \<open>What an encoded block carries of its transactions.\<close>

definition carriedBlock :: "MsgBlock \<Rightarrow> MsgBlock" where
  "carriedBlock b = b\<lparr>Transactions := map carried (Transactions b), STransactions := map carried (STransactions b)\<rparr>"

lemma MaxTxPerTxTree_all: "MaxTxPerTxTree pver = MaxTxPerTxTree 0" "MaxTxPerTxTree 0 < 2 ^ 64"
  by (simp_all add: MaxTxPerTxTree_def)

lemma readMany_encodeTxs:
  "encodeTxs ts = Inr b \<Longrightarrow> list_all wf_tx ts \<Longrightarrow> readMany (length ts) (BtcDecode zeroMsgTx) (b @ r) = Inr (map carried ts, r)"
  by (induction ts arbitrary: b) (auto simp: bindE_eq_Inr BtcDecode_BtcEncode)

lemma encodeTxs_readMany:
  "readMany n (BtcDecode zeroMsgTx) s = Inr (ts, r) \<Longrightarrow> \<exists>b. encodeTxs ts = Inr b \<and> s = b @ r \<and> list_all wf_tx ts \<and> map carried ts = ts \<and> length ts = n"
proof (induction n arbitrary: s ts)
  case (Suc n)
  then obtain t s' ts' where t: "BtcDecode zeroMsgTx s = Inr (t, s')" "readMany n (BtcDecode zeroMsgTx) s' = Inr (ts', r)" "ts = t # ts'"
    by (auto simp: bindE_eq_Inr)
  from BtcEncode_BtcDecode [OF t(1)] Suc.IH [OF t(2)] t(3) show ?case by auto
qed simp

lemma readTxTree_encode:
  assumes "encodeTxs ts = Inr b" "list_all wf_tx ts" "length ts \<le> MaxTxPerTxTree 0"
  shows "readTxTree pver (WriteVarInt (word_of_nat (length ts)) @ b @ r) = Inr (map carried ts, r)"
proof -
  have "length ts < 2 ^ 64" using assms(3) MaxTxPerTxTree_all(2) by linarith
  then show ?thesis using assms(3) readMany_encodeTxs [OF assms(1,2)]
    by (simp add: readTxTree_def MaxTxPerTxTree_all(1) [of pver] unat_word_of_nat_64)
qed

lemma length_encodeTxs:
  "encodeTxs ts = Inr b \<Longrightarrow> list_all hashes_ok ts \<Longrightarrow> length b = sum_list (map SerializeSize ts)"
  by (induction ts arbitrary: b) (auto simp: bindE_eq_Inr length_BtcEncode)

lemma wf_tx_hashes_ok: "wf_tx t \<Longrightarrow> hashes_ok t"
  by (auto simp: wf_tx_def hashes_ok_def list_all_iff)

text \<open>
  C21. An encoded block decodes to the block, up to the parts of its transactions that their serialization
  type leaves out, whatever follows it, and the encoding is as long as \<^verbatim>\<open>SerializeSize\<close> says.
\<close>

theorem block_decode_encode:
  assumes "wf_block blk" "MsgBlock_BtcEncode blk = Inr b"
  shows "MsgBlock_BtcDecode pver (b @ r) = Inr (carriedBlock blk, r) \<and> length b = MsgBlock_SerializeSize blk"
proof -
  obtain bs ss where e: "encodeTxs (Transactions blk) = Inr bs" "encodeTxs (STransactions blk) = Inr ss"
    "b = writeBlockHeader (Header blk) @ WriteVarInt (word_of_nat (length (Transactions blk))) @ bs @ WriteVarInt (word_of_nat (length (STransactions blk))) @ ss"
    using assms(2) by (auto simp: MsgBlock_BtcEncode_def bindE_eq_Inr)
  have wf: "wf_header (Header blk)" "list_all wf_tx (Transactions blk)" "list_all wf_tx (STransactions blk)"
    "length (Transactions blk) \<le> MaxTxPerTxTree 0" "length (STransactions blk) \<le> MaxTxPerTxTree 0" using assms(1) by (simp_all add: wf_block_def)
  have h: "list_all hashes_ok (Transactions blk)" "list_all hashes_ok (STransactions blk)"
    using wf(2,3) by (auto simp: list_all_iff wf_tx_hashes_ok)
  have "MsgBlock_BtcDecode pver (b @ r) = Inr (carriedBlock blk, r)"
    using readTxTree_encode [OF e(1) wf(2,4)] readTxTree_encode [OF e(2) wf(3,5)]
    by (simp add: MsgBlock_BtcDecode_def e(3) header.dec_enc [OF wf(1)] carriedBlock_def)
  moreover have "length b = MsgBlock_SerializeSize blk"
    using length_encodeTxs [OF e(1) h(1)] length_encodeTxs [OF e(2) h(2)]
    by (simp add: e(3) MsgBlock_SerializeSize_def length_writeBlockHeader [OF wf(1)])
  ultimately show ?thesis by blast
qed

theorem block_decode_encode_witness:
  "\<exists>hdr b. MsgBlock_BtcEncode (AddTransaction (AddTxOut (NewTxOut 5 [1, 2]) NewMsgTx) (NewMsgBlock hdr)) = Inr b \<and>
     MsgBlock_BtcDecode 0 (b @ [7]) = Inr (AddTransaction (AddTxOut (NewTxOut 5 [1, 2]) NewMsgTx) (NewMsgBlock hdr), [7]) \<and> length b = 246"
proof -
  let ?tx = "AddTxOut (NewTxOut 5 [1, 2]) NewMsgTx" and ?z = "replicate 32 (0 :: byte)"
  let ?hdr = "\<lparr>bh_Version = 1, PrevBlock = ?z, PrevKeyBlock = ?z, MerkleRoot = ?z, StakeRoot = ?z,
             VoteBits = 1, FinalState = replicate 6 0, Voters = 5, FreshStake = 0, Revocations = 0,
             PoolSize = 9, Bits = 3, SBits = 2, bh_Height = 8, bh_KeyHeight = 4, bh_Size = 7,
             Timestamp = 1500000000, Nonce = 6, ExtraData = ?z, StakeVersion = 0\<rparr>"
  let ?blk = "AddTransaction ?tx (NewMsgBlock ?hdr)"
  have wf: "wf_block ?blk"
    by (simp add: wf_block_def wf_header_def AddTransaction_def NewMsgBlock_def MaxTxPerTxTree_def
        wf_tx_def AddTxOut_def NewMsgTx_def NewTxOut_def MaxMessagePayload_def maxTxInPerMessage_def maxTxOutPerMessage_def)
  have c: "carriedBlock ?blk = ?blk" by (simp add: carriedBlock_def AddTransaction_def NewMsgBlock_def carried_def AddTxOut_def NewMsgTx_def)
  obtain b where b: "MsgBlock_BtcEncode ?blk = Inr b"
    by (simp add: MsgBlock_BtcEncode_def AddTransaction_def NewMsgBlock_def BtcEncode_def AddTxOut_def NewMsgTx_def)
  have "MsgBlock_SerializeSize ?blk = 246"
    by (simp add: MsgBlock_SerializeSize_def AddTransaction_def NewMsgBlock_def blockHeaderLen_def SerializeSize_def AddTxOut_def NewMsgTx_def NewTxOut_def VarIntSerializeSize_def TxOut_SerializeSize_def)
  with block_decode_encode [OF wf b, of 0 "[7]"] b c show ?thesis by (metis (no_types))
qed

section \<open>Locations of transactions\<close>

lemma readTxLocs_spec:
  "readTxLocs n fullLen s = Inr (tls, r) \<Longrightarrow> full = pre @ s \<Longrightarrow> fullLen = int (length full) \<Longrightarrow>
     list_all (\<lambda>(t, l). BtcEncode t = Inr (take (nat (TxLen l)) (drop (nat (TxStart l)) full)) \<and>
       0 \<le> TxStart l \<and> 0 \<le> TxLen l \<and> TxStart l + TxLen l \<le> fullLen) tls"
proof (induction n arbitrary: s tls pre)
  case (Suc n)
  then obtain t s' tls' where t: "BtcDecode zeroMsgTx s = Inr (t, s')" "readTxLocs n fullLen s' = Inr (tls', r)"
    "tls = (t, \<lparr>TxStart = fullLen - int (length s), TxLen = (fullLen - int (length s')) - (fullLen - int (length s))\<rparr>) # tls'"
    by (auto simp: bindE_eq_Inr Let_def)
  obtain b where b: "BtcEncode t = Inr b" "s = b @ s'" using BtcEncode_BtcDecode [OF t(1)] by blast
  from Suc.IH [OF t(2), of "pre @ b"] Suc.prems b t show ?case by (auto simp: nat_diff_distrib')
qed simp

lemma readTxLocs_rest:
  "readTxLocs n fullLen s = Inr (tls, r) \<Longrightarrow> readMany n (BtcDecode zeroMsgTx) s = Inr (map fst tls, r)"
  by (induction n arbitrary: s tls) (auto simp: bindE_eq_Inr Let_def)

lemma DeserializeTxLoc_Inr:
  assumes "DeserializeTxLoc s = Inr ((txLocs, sTxLocs, blk), r)"
  shows "MsgBlock_BtcDecode 0 s = Inr (blk, r) \<and>
    list_all2 (\<lambda>l t. slice s (TxStart l) (TxStart l + TxLen l) = BtcEncode t) txLocs (Transactions blk) \<and>
    list_all2 (\<lambda>l t. slice s (TxStart l) (TxStart l + TxLen l) = BtcEncode t) sTxLocs (STransactions blk)"
proof -
  obtain h s1 txs s2 stxs where d: "readBlockHeader s = Inr (h, s1)" "readTxTreeLocs (int (length s)) s1 = Inr (txs, s2)"
    "readTxTreeLocs (int (length s)) s2 = Inr (stxs, r)" "txLocs = map snd txs" "sTxLocs = map snd stxs"
    "blk = \<lparr>Header = h, Transactions = map fst txs, STransactions = map fst stxs\<rparr>"
    using assms by (auto simp: DeserializeTxLoc_def bindE_eq_Inr Let_def)
  have tree: "readTxTree 0 s' = Inr (map fst tls, r') \<and>
      list_all2 (\<lambda>l t. slice s (TxStart l) (TxStart l + TxLen l) = BtcEncode t) (map snd tls) (map fst tls) \<and> (\<exists>b. s' = b @ r')"
    if tl: "readTxTreeLocs (int (length s)) s' = Inr (tls, r')" and pre: "s = pre @ s'" for s' tls r' pre
  proof -
    obtain c s'' where c: "ReadVarInt s' = Inr (c, s'')" "\<not> unat c > MaxTxPerTxTree 1" "readTxLocs (unat c) (int (length s)) s'' = Inr (tls, r')"
      using tl by (auto simp: readTxTreeLocs_def bindE_eq_Inr split: if_splits)
    have s': "s' = WriteVarInt c @ s''" using c(1) varint.dec_iff by auto
    from readTxLocs_rest [OF c(3)] readTxLocs_spec [OF c(3), of s "pre @ WriteVarInt c"] pre s' have
      "readMany (unat c) (BtcDecode zeroMsgTx) s'' = Inr (map fst tls, r')" and l: "list_all (\<lambda>(t, l). BtcEncode t = Inr (take (nat (TxLen l)) (drop (nat (TxStart l)) s)) \<and>
       0 \<le> TxStart l \<and> 0 \<le> TxLen l \<and> TxStart l + TxLen l \<le> int (length s)) tls" by auto
    moreover have "list_all2 (\<lambda>l t. slice s (TxStart l) (TxStart l + TxLen l) = BtcEncode t) (map snd tls) (map fst tls)"
      using l by (auto simp: list_all2_map1 list_all2_map2 list.rel_refl list_all_iff list_all2_same slice_def)
    ultimately show ?thesis using c encodeTxs_readMany [of "unat c" s'' "map fst tls" r'] s' MaxTxPerTxTree_all(1) [of 1]
      by (auto simp: readTxTree_def)
  qed
  have "s = writeBlockHeader h @ s1" using d(1) header.dec_iff by blast
  from tree [OF d(2) this] obtain b where "readTxTree 0 s1 = Inr (map fst txs, s2)" "s1 = b @ s2"
    "list_all2 (\<lambda>l t. slice s (TxStart l) (TxStart l + TxLen l) = BtcEncode t) (map snd txs) (map fst txs)" by blast
  moreover from this \<open>s = _\<close> tree [OF d(3), of "writeBlockHeader h @ b"] have "readTxTree 0 s2 = Inr (map fst stxs, r)"
    "list_all2 (\<lambda>l t. slice s (TxStart l) (TxStart l + TxLen l) = BtcEncode t) (map snd stxs) (map fst stxs)" by auto
  ultimately show ?thesis using d by (simp add: MsgBlock_BtcDecode_def)
qed

lemma readTxLocs_Inl: "readTxLocs n fullLen s = Inl e \<Longrightarrow> \<exists>e. readMany n (BtcDecode zeroMsgTx) s = Inl e"
  by (induction n arbitrary: s) (fastforce simp: bindE_def Let_def split: sum.splits)+

lemma DeserializeTxLoc_Inl:
  assumes "DeserializeTxLoc s = Inl e"
  shows "\<exists>e. MsgBlock_BtcDecode 0 s = Inl e"
proof (rule ccontr)
  assume "\<not> ?thesis"
  then obtain blk r where "MsgBlock_BtcDecode 0 s = Inr (blk, r)" by (metis old.sum.exhaust prod.exhaust)
  then obtain h s1 txs s2 stxs where d: "readBlockHeader s = Inr (h, s1)" "readTxTree 0 s1 = Inr (txs, s2)" "readTxTree 0 s2 = Inr (stxs, r)"
    by (auto simp: MsgBlock_BtcDecode_def bindE_eq_Inr)
  have locs: "\<exists>tls. readTxTreeLocs n s' = Inr (tls, r')" if t: "readTxTree 0 s' = Inr (txs', r')" for n s' txs' r'
  proof -
    obtain c s'' where c: "ReadVarInt s' = Inr (c, s'')" "\<not> unat c > MaxTxPerTxTree 0" "readMany (unat c) (BtcDecode zeroMsgTx) s'' = Inr (txs', r')"
      using t by (auto simp: readTxTree_def bindE_eq_Inr split: if_splits)
    have "readTxLocs (unat c) n s'' \<noteq> Inl e'" for e' using readTxLocs_Inl [of "unat c" n s'' e'] c(3) by auto
    then obtain tls r'' where tls: "readTxLocs (unat c) n s'' = Inr (tls, r'')" by (metis old.sum.exhaust prod.exhaust)
    have "r'' = r'" using readTxLocs_rest [OF tls] c(3) by simp
    with tls c MaxTxPerTxTree_all(1) [of 1] show ?thesis by (simp add: readTxTreeLocs_def)
  qed
  obtain tls stls where "readTxTreeLocs (int (length s)) s1 = Inr (tls, s2)" "readTxTreeLocs (int (length s)) s2 = Inr (stls, r)"
    using locs [OF d(2)] locs [OF d(3)] by meson
  with d assms show False by (simp add: DeserializeTxLoc_def Let_def)
qed

text \<open>
  C22. \<^verbatim>\<open>DeserializeTxLoc\<close> accepts the byte strings that \<^verbatim>\<open>BtcDecode\<close> accepts and reads the same block. Every location that it returns lies inside the block, and the bytes there are the
  encoding of the transaction with the same position in the decoded block.
\<close>

theorem tx_locs_correct:
  "case DeserializeTxLoc s of
     Inr ((txLocs, sTxLocs, blk), r) \<Rightarrow> MsgBlock_BtcDecode 0 s = Inr (blk, r) \<and>
       list_all2 (\<lambda>l t. slice s (TxStart l) (TxStart l + TxLen l) = BtcEncode t) txLocs (Transactions blk) \<and>
       list_all2 (\<lambda>l t. slice s (TxStart l) (TxStart l + TxLen l) = BtcEncode t) sTxLocs (STransactions blk)
   | Inl _ \<Rightarrow> \<exists>e. MsgBlock_BtcDecode 0 s = Inl e"
  using DeserializeTxLoc_Inr [of s] DeserializeTxLoc_Inl [of s] by (auto split: sum.split)

end
