(* ===== verification/Tickets.thy ===== *)
theory Tickets
  imports TicketDb MsgBlock
begin

unbundle bit_operations_syntax

text \<open>
  Stake nodes (\<^verbatim>\<open>blockchain/stake/tickets.go\<close>): the live, missed and revoked tickets after a block, how
  connecting a block moves tickets between them and draws the next winners, how disconnecting it
  moves them back, and how both are written to and loaded from the ticket database.

  The priorities drawn for treap nodes are a parameter \<open>rnd\<close>, a function of the step of the loop that
  draws them; the hash function is the parameter \<open>hashH\<close>. A result of \<open>None\<close> is a lottery that
  does not end. A nil slice of new tickets is the empty list.
\<close>

section \<open>Nodes\<close>

datatype stake_error =
    ErrMissingTicket | ErrDuplicateTicket | ErrUnknownTicketSpent | ErrMissingDatabaseTx | ErrDatabaseCorrupt
  | ErrMemoryCorruption | MissingNode | LotteryError lottery_error | DbError ticketdb_error

definition liftErr :: "('d \<Rightarrow> 'e) \<Rightarrow> ('d, 'a) result \<Rightarrow> ('e, 'a) result" where
  "liftErr f r = (case r of Inr x \<Rightarrow> Inr x | Inl (GoErr e) \<Rightarrow> raise (f e) | Inl GoPanic \<Rightarrow> panic)"

text \<open>The parameters of the chain that nodes use.\<close>

record stakeParams =
  StakeEnabledHeight :: int
  StakeValidationHeight :: int
  TicketExpiry :: "32 word"
  TicketsPerBlock :: "16 word"

type_synonym ticketTreap = "(bytes, ticketValue) Immutable"

record Node =
  height :: "32 word"
  keyHeight :: "32 word"
  liveTickets :: ticketTreap
  missedTickets :: ticketTreap
  revokedTickets :: ticketTreap
  databaseUndoUpdate :: "UndoTicketData list"
  databaseBlockTickets :: "bytes list"
  nextWinners :: "bytes list"
  finalState :: bytes
  nodeParams :: stakeParams

definition SpentByBlock :: "Node \<Rightarrow> bytes list" where
  "SpentByBlock sn = map TicketHash (filter u_Spent (databaseUndoUpdate sn))"

definition MissedByBlock :: "Node \<Rightarrow> bytes list" where
  "MissedByBlock sn = map TicketHash (filter u_Missed (databaseUndoUpdate sn))"

definition ExistsLiveTicket :: "Node \<Rightarrow> bytes \<Rightarrow> bool" where
  "ExistsLiveTicket sn ticket = Has (liveTickets sn) ticket"

text \<open>The list of keys of a treap, written into a slice of the length of the treap.\<close>

definition treapKeys :: "ticketTreap \<Rightarrow> ('e, bytes list) result" where
  "treapKeys t =
     bindE (ForEach t (\<lambda>k v s. case s of Inl e \<Rightarrow> (False, Inl e)
                                | Inr (tickets, i) \<Rightarrow> (case at tickets i of Inl e \<Rightarrow> (False, Inl e)
                                                    | Inr _ \<Rightarrow> (True, Inr (tickets[nat i := k], i + 1))))
              (Inr (replicate (nat (Len t)) (replicate 32 0), 0)))
       (\<lambda>(tickets, _). Inr tickets)"

definition LiveTickets :: "Node \<Rightarrow> ('e, bytes list) result" where
  "LiveTickets sn = treapKeys (liveTickets sn)"

definition PoolSize :: "Node \<Rightarrow> int" where
  "PoolSize sn = Len (liveTickets sn)"

definition ExistsMissedTicket :: "Node \<Rightarrow> bytes \<Rightarrow> bool" where
  "ExistsMissedTicket sn ticket = Has (missedTickets sn) ticket"

definition MissedTickets :: "Node \<Rightarrow> ('e, bytes list) result" where
  "MissedTickets sn = treapKeys (missedTickets sn)"

definition ExistsRevokedTicket :: "Node \<Rightarrow> bytes \<Rightarrow> bool" where
  "ExistsRevokedTicket sn ticket = Has (revokedTickets sn) ticket"

definition RevokedTickets :: "Node \<Rightarrow> ('e, bytes list) result" where
  "RevokedTickets sn = treapKeys (revokedTickets sn)"

definition ExistsExpiredTicket :: "Node \<Rightarrow> bytes \<Rightarrow> bool" where
  "ExistsExpiredTicket sn ticket \<longleftrightarrow>
     (case Get (missedTickets sn) ticket of Some v \<Rightarrow> Expired v | None \<Rightarrow> False) \<or>
     (case Get (revokedTickets sn) ticket of Some v \<Rightarrow> Expired v | None \<Rightarrow> False)"

definition genesisNode :: "stakeParams \<Rightarrow> Node" where
  "genesisNode params =
     \<lparr>height = 0, keyHeight = 0, liveTickets = NewImmutable, missedTickets = NewImmutable, revokedTickets = NewImmutable,
      databaseUndoUpdate = [], databaseBlockTickets = [], nextWinners = [], finalState = replicate 6 0, nodeParams = params\<rparr>"

section \<open>Checked operations on the treaps\<close>

definition hashInSlice :: "bytes \<Rightarrow> bytes list \<Rightarrow> bool" where
  "hashInSlice h l \<longleftrightarrow> h \<in> set l"

definition safeGet :: "ticketTreap \<Rightarrow> bytes \<Rightarrow> (stake_error, ticketValue) result" where
  "safeGet t k = (case Get t k of None \<Rightarrow> raise ErrMissingTicket | Some v \<Rightarrow> Inr v)"

definition safePut :: "int \<Rightarrow> ticketTreap \<Rightarrow> bytes \<Rightarrow> ticketValue \<Rightarrow> (stake_error, ticketTreap) result" where
  "safePut rnd t k v = (if Has t k then raise ErrDuplicateTicket else Inr (Put rnd t k (Some v)))"

definition safeDelete :: "ticketTreap \<Rightarrow> bytes \<Rightarrow> (stake_error, ticketTreap) result" where
  "safeDelete t k = (if \<not> Has t k then raise ErrMissingTicket else Inr (Delete t k))"

text \<open>The three treaps of a node, and the assignments \<^verbatim>\<open>node.treap, err = safePut(node.treap, ...)\<close>.\<close>

datatype ticketKind = Live | MissedKind | RevokedKind

primrec nodeTreap :: "ticketKind \<Rightarrow> Node \<Rightarrow> ticketTreap" where
  "nodeTreap Live n = liveTickets n"
| "nodeTreap MissedKind n = missedTickets n"
| "nodeTreap RevokedKind n = revokedTickets n"

primrec setTreap :: "ticketKind \<Rightarrow> ticketTreap \<Rightarrow> Node \<Rightarrow> Node" where
  "setTreap Live t n = n\<lparr>liveTickets := t\<rparr>"
| "setTreap MissedKind t n = n\<lparr>missedTickets := t\<rparr>"
| "setTreap RevokedKind t n = n\<lparr>revokedTickets := t\<rparr>"

definition nodePut :: "int \<Rightarrow> Node \<Rightarrow> ticketKind \<Rightarrow> bytes \<Rightarrow> ticketValue \<Rightarrow> (stake_error, Node) result" where
  "nodePut rnd n b k v = bindE (safePut rnd (nodeTreap b n) k v) (\<lambda>t. Inr (setTreap b t n))"

definition nodeDelete :: "Node \<Rightarrow> ticketKind \<Rightarrow> bytes \<Rightarrow> (stake_error, Node) result" where
  "nodeDelete n b k = bindE (safeDelete (nodeTreap b n) k) (\<lambda>t. Inr (setTreap b t n))"

section \<open>Connecting a block\<close>

definition undoOf :: "bytes \<Rightarrow> ticketValue \<Rightarrow> UndoTicketData" where
  "undoOf ticket v =
     \<lparr>TicketHash = ticket, TicketHeight = Height v, TicketKeyHeight = KeyHeight v, u_Missed = Missed v, u_Revoked = Revoked v,
      u_Spent = Spent v, u_Expired = Expired v\<rparr>"

definition addUndo :: "bytes \<Rightarrow> ticketValue \<Rightarrow> Node \<Rightarrow> Node" where
  "addUndo ticket v n = n\<lparr>databaseUndoUpdate := databaseUndoUpdate n @ [undoOf ticket v]\<rparr>"

text \<open>The bodies of the four loops of \<^verbatim>\<open>connectNode\<close>: winners, expired, revoked and new tickets.\<close>

definition winnerUpdate :: "bytes list \<Rightarrow> int \<Rightarrow> bytes \<Rightarrow> Node \<Rightarrow> (stake_error, Node) result" where
  "winnerUpdate spent rnd ticket n =
     bindE (safeGet (liveTickets n) ticket) (\<lambda>v.
       if hashInSlice ticket spent
       then let v = v\<lparr>Spent := True, Missed := False\<rparr>
            in bindE (nodeDelete n Live ticket) (\<lambda>n. Inr (addUndo ticket v n))
       else let v = v\<lparr>Spent := False, Missed := True\<rparr>
            in bindE (nodeDelete n Live ticket) (\<lambda>n.
               bindE (nodePut rnd n MissedKind ticket v) (\<lambda>n. Inr (addUndo ticket v n))))"

definition expireUpdate :: "int \<Rightarrow> bytes \<Rightarrow> Node \<Rightarrow> (stake_error, Node) result" where
  "expireUpdate rnd ticket n =
     bindE (safeGet (liveTickets n) ticket) (\<lambda>v.
       let v = v\<lparr>Missed := True, Expired := True\<rparr>
       in bindE (nodeDelete n Live ticket) (\<lambda>n.
          bindE (nodePut rnd n MissedKind ticket v) (\<lambda>n. Inr (addUndo ticket v n))))"

definition revokeUpdate :: "int \<Rightarrow> bytes \<Rightarrow> Node \<Rightarrow> (stake_error, Node) result" where
  "revokeUpdate rnd ticket n =
     bindE (safeGet (missedTickets n) ticket) (\<lambda>v.
       let v = v\<lparr>Revoked := True\<rparr>
       in bindE (nodeDelete n MissedKind ticket) (\<lambda>n.
          bindE (nodePut rnd n RevokedKind ticket v) (\<lambda>n. Inr (addUndo ticket v n))))"

definition newUpdate :: "int \<Rightarrow> bytes \<Rightarrow> Node \<Rightarrow> (stake_error, Node) result" where
  "newUpdate rnd ticket n =
     (let v = \<lparr>Height = height n, KeyHeight = keyHeight n, Missed = False, Revoked = False, Spent = False, Expired = False\<rparr>
      in bindE (nodePut rnd n Live ticket v) (\<lambda>n. Inr (addUndo ticket v n)))"

primrec forTickets ::
  "(int \<Rightarrow> bytes \<Rightarrow> Node \<Rightarrow> (stake_error, Node) result) \<Rightarrow> (nat \<Rightarrow> int) \<Rightarrow> bytes list \<Rightarrow> Node \<Rightarrow> (stake_error, Node) result" where
  "forTickets f rnd [] n = Inr n"
| "forTickets f rnd (k # ks) n = bindE (f (rnd (length (databaseUndoUpdate n))) k n) (forTickets f rnd ks)"

definition stakeUpdates :: "(nat \<Rightarrow> int) \<Rightarrow> Node \<Rightarrow> bytes list \<Rightarrow> bytes list \<Rightarrow> bool \<Rightarrow> Node \<Rightarrow> (stake_error, Node) result" where
  "stakeUpdates rnd node spent revoked isKeyBlock n =
     (if \<not> list_all (\<lambda>t. hashInSlice t (nextWinners node)) spent then raise ErrUnknownTicketSpent
      else bindE (if isKeyBlock then forTickets (winnerUpdate spent) rnd (nextWinners node) n else Inr n) (\<lambda>n.
           bindE (if isKeyBlock
                  then let toExpireKeyHeight = (if keyHeight n > TicketExpiry (nodeParams n) then keyHeight n - TicketExpiry (nodeParams n) else 0)
                       in forTickets expireUpdate rnd (fetchExpired toExpireKeyHeight (liveTickets n)) n
                  else Inr n) (\<lambda>n.
             forTickets revokeUpdate rnd revoked n)))"

text \<open>The winners drawn for a key block, or the first winners of the parent for any other block.\<close>

primrec derefAll :: "bytes option list \<Rightarrow> ('e, bytes list) result" where
  "derefAll [] = Inr []"
| "derefAll (k # ks) = (case k of None \<Rightarrow> panic | Some h \<Rightarrow> bindE (derefAll ks) (\<lambda>hs. Inr (h # hs)))"

definition selectWinners :: "bool \<Rightarrow> Node \<Rightarrow> bytes option list \<Rightarrow> ('e, bytes list) result" where
  "selectWinners isKeyBlock node keys =
     (if isKeyBlock then derefAll keys
      else if length keys \<le> length (nextWinners node) then Inr (take (length keys) (nextWinners node)) else panic)"

definition finalStateOf :: "(bytes \<Rightarrow> bytes) \<Rightarrow> bytes list \<Rightarrow> Hash256PRNG \<Rightarrow> bytes" where
  "finalStateOf hashH winners prng = take 6 (hashH (concat winners @ StateHash hashH prng))"

definition drawWinners :: "(bytes \<Rightarrow> bytes) \<Rightarrow> Node \<Rightarrow> BlockHeader \<Rightarrow> bool \<Rightarrow> Node \<Rightarrow> (stake_error, Node) result option" where
  "drawWinners hashH node header isKeyBlock n =
     (case findTicketIdxs hashH (Len (liveTickets n)) (TicketsPerBlock (nodeParams n)) (NewHash256PRNG hashH (BlockHeader_Bytes header)) of
        None \<Rightarrow> None
      | Some r \<Rightarrow> Some (bindE (liftErr LotteryError r) (\<lambda>(idxs, prng).
          bindE (liftErr LotteryError (fetchWinners (if idxs = [] then None else Some idxs) (liveTickets n))) (\<lambda>keys.
          bindE (selectWinners isKeyBlock node keys) (\<lambda>winners.
            Inr (n\<lparr>nextWinners := winners, finalState := finalStateOf hashH winners prng\<rparr>))))))"

definition realKeyHeight :: "BlockHeader \<Rightarrow> bool \<Rightarrow> 32 word" where
  "realKeyHeight header isKeyBlock = (if isKeyBlock then bh_KeyHeight header + 1 else bh_KeyHeight header)"

definition childNode :: "Node \<Rightarrow> BlockHeader \<Rightarrow> bytes list \<Rightarrow> Node" where
  "childNode node header newTickets =
     \<lparr>height = height node + 1, keyHeight = bh_KeyHeight header, liveTickets = liveTickets node, missedTickets = missedTickets node,
      revokedTickets = revokedTickets node, databaseUndoUpdate = [], databaseBlockTickets = newTickets, nextWinners = [],
      finalState = replicate 6 0, nodeParams = nodeParams node\<rparr>"

definition moveTickets ::
  "(nat \<Rightarrow> int) \<Rightarrow> Node \<Rightarrow> BlockHeader \<Rightarrow> bytes list \<Rightarrow> bytes list \<Rightarrow> bytes list \<Rightarrow> bool \<Rightarrow> (stake_error, Node) result" where
  "moveTickets rnd node header spent revoked newTickets isKeyBlock =
     (let n = childNode node header newTickets
      in bindE (if bh_KeyHeight header \<ge> word_of_int (StakeEnabledHeight (nodeParams n))
                then stakeUpdates rnd node spent revoked isKeyBlock n else Inr n) (\<lambda>n.
         forTickets newUpdate rnd newTickets n))"

definition connectNode ::
  "(bytes \<Rightarrow> bytes) \<Rightarrow> (nat \<Rightarrow> int) \<Rightarrow> Node option \<Rightarrow> BlockHeader \<Rightarrow> bytes list \<Rightarrow> bytes list \<Rightarrow> bytes list \<Rightarrow> bool \<Rightarrow>
     (stake_error, Node) result option" where
  "connectNode hashH rnd nodeOpt header spent revoked newTickets isKeyBlock =
     (case nodeOpt of
        None \<Rightarrow> Some (raise MissingNode)
      | Some node \<Rightarrow>
          (case moveTickets rnd node header spent revoked newTickets isKeyBlock of
             Inl e \<Rightarrow> Some (Inl e)
           | Inr n \<Rightarrow>
               if realKeyHeight header isKeyBlock \<ge> word_of_int (StakeValidationHeight (nodeParams n) - 1)
               then drawWinners hashH node header isKeyBlock n
               else Some (Inr n)))"

section \<open>Disconnecting a block\<close>

definition undoValue :: "UndoTicketData \<Rightarrow> ticketValue" where
  "undoValue undo =
     \<lparr>Height = TicketHeight undo, KeyHeight = TicketKeyHeight undo, Missed = u_Missed undo, Revoked = u_Revoked undo,
      Spent = u_Spent undo, Expired = u_Expired undo\<rparr>"

definition undoUpdate :: "int \<Rightarrow> UndoTicketData \<Rightarrow> Node \<Rightarrow> (stake_error, Node) result" where
  "undoUpdate rnd undo n =
     (let k = TicketHash undo; v = undoValue undo
      in if \<not> u_Missed undo \<and> \<not> u_Revoked undo \<and> \<not> u_Spent undo then nodeDelete n Live k
         else if u_Missed undo \<and> u_Revoked undo
         then bindE (nodeDelete n RevokedKind k) (\<lambda>n. nodePut rnd n MissedKind k (v\<lparr>Revoked := False\<rparr>))
         else if u_Missed undo \<and> \<not> u_Revoked undo
         then let (n, v) = (if \<not> u_Expired undo then (n\<lparr>nextWinners := nextWinners n @ [k]\<rparr>, v) else (n, v\<lparr>Expired := False\<rparr>))
              in bindE (nodeDelete n MissedKind k) (\<lambda>n. nodePut rnd n Live k (v\<lparr>Missed := False\<rparr>))
         else if u_Spent undo
         then nodePut rnd (n\<lparr>nextWinners := nextWinners n @ [k]\<rparr>) Live k (v\<lparr>Spent := False\<rparr>)
         else raise ErrMemoryCorruption)"

text \<open>The priority drawn for an entry is given by the number of entries left.\<close>

primrec undoAll :: "(nat \<Rightarrow> int) \<Rightarrow> UndoTicketData list \<Rightarrow> Node \<Rightarrow> (stake_error, Node) result" where
  "undoAll rnd [] n = Inr n"
| "undoAll rnd (u # us) n = bindE (undoUpdate (rnd (length us)) u n) (undoAll rnd us)"

text \<open>The undo data and tickets of the parent, from the arguments or else from the database.\<close>

definition parentData ::
  "Node \<Rightarrow> UndoTicketData list option \<Rightarrow> bytes list option \<Rightarrow> ticketDb option \<Rightarrow> (stake_error, UndoTicketData list \<times> bytes list) result" where
  "parentData node parentUtds parentTickets dbTx =
     (case (parentUtds, parentTickets) of
        (Some utds, Some tickets) \<Rightarrow> Inr (utds, tickets)
      | _ \<Rightarrow> (case dbTx of
               None \<Rightarrow> raise ErrMissingDatabaseTx
             | Some db \<Rightarrow>
                 bindE (liftErr DbError (DbFetchBlockUndoData db (height node - 1))) (\<lambda>utds.
                 bindE (liftErr DbError (DbFetchNewTickets db (height node - 1))) (\<lambda>tickets. Inr (utds, tickets)))))"

definition restoredNode :: "Node \<Rightarrow> BlockHeader \<Rightarrow> UndoTicketData list \<Rightarrow> bytes list \<Rightarrow> Node" where
  "restoredNode node parentHeader utds tickets =
     \<lparr>height = height node - 1, keyHeight = bh_KeyHeight parentHeader, liveTickets = liveTickets node,
      missedTickets = missedTickets node, revokedTickets = revokedTickets node, databaseUndoUpdate = utds,
      databaseBlockTickets = tickets, nextWinners = [], finalState = replicate 6 0, nodeParams = nodeParams node\<rparr>"

text \<open>The tail of \<^verbatim>\<open>disconnectNode\<close> and of \<^verbatim>\<open>LoadBestNode\<close>: the lottery is repeated for its final state only.\<close>

definition restoreFinalState :: "(bytes \<Rightarrow> bytes) \<Rightarrow> BlockHeader \<Rightarrow> Node \<Rightarrow> (stake_error, Node) result option" where
  "restoreFinalState hashH header n =
     (case findTicketIdxs hashH (Len (liveTickets n)) (TicketsPerBlock (nodeParams n)) (NewHash256PRNG hashH (BlockHeader_Bytes header)) of
        None \<Rightarrow> None
      | Some r \<Rightarrow> Some (bindE (liftErr LotteryError r) (\<lambda>(_, prng). Inr (n\<lparr>finalState := finalStateOf hashH (nextWinners n) prng\<rparr>))))"

definition disconnectNode ::
  "(bytes \<Rightarrow> bytes) \<Rightarrow> (nat \<Rightarrow> int) \<Rightarrow> Node option \<Rightarrow> BlockHeader \<Rightarrow> UndoTicketData list option \<Rightarrow> bytes list option \<Rightarrow> bool \<Rightarrow>
     ticketDb option \<Rightarrow> (stake_error, Node) result option" where
  "disconnectNode hashH rnd nodeOpt parentHeader parentUtds parentTickets isKeyBlock dbTx =
     (case nodeOpt of
        None \<Rightarrow> Some panic
      | Some node \<Rightarrow>
          if height node = 1 then Some (Inr (genesisNode (nodeParams node)))
          else (case bindE (parentData node parentUtds parentTickets dbTx) (\<lambda>(utds, tickets).
                       undoAll rnd (databaseUndoUpdate node) (restoredNode node parentHeader utds tickets)) of
                  Inl e \<Rightarrow> Some (Inl e)
                | Inr n \<Rightarrow>
                    let n = (if \<not> isKeyBlock then n\<lparr>nextWinners := nextWinners node\<rparr> else n)
                    in if keyHeight node + 1 \<ge> word_of_int (StakeValidationHeight (nodeParams node))
                       then restoreFinalState hashH parentHeader n
                       else Some (Inr n)))"

section \<open>Writing nodes to the database\<close>

primrec bucketName :: "ticketKind \<Rightarrow> string" where
  "bucketName Live = LiveTicketsBucketName"
| "bucketName MissedKind = MissedTicketsBucketName"
| "bucketName RevokedKind = RevokedTicketsBucketName"

definition connectWrite :: "UndoTicketData \<Rightarrow> ticketDb \<Rightarrow> (stake_error, ticketDb) result" where
  "connectWrite undo db =
     (let k = TicketHash undo; h = TicketHeight undo; kh = TicketKeyHeight undo
      in if \<not> u_Missed undo \<and> \<not> u_Revoked undo \<and> \<not> u_Spent undo
         then liftErr DbError (DbPutTicket db (bucketName Live) k h kh (u_Missed undo) (u_Revoked undo) (u_Spent undo) (u_Expired undo))
         else if u_Missed undo \<and> u_Revoked undo
         then bindE (liftErr DbError (DbDeleteTicket db (bucketName MissedKind) k)) (\<lambda>db.
              liftErr DbError (DbPutTicket db (bucketName RevokedKind) k h kh (u_Missed undo) (u_Revoked undo) (u_Spent undo) (u_Expired undo)))
         else if u_Missed undo \<and> \<not> u_Revoked undo
         then bindE (liftErr DbError (DbDeleteTicket db (bucketName Live) k)) (\<lambda>db.
              liftErr DbError (DbPutTicket db (bucketName MissedKind) k h kh True (u_Revoked undo) (u_Spent undo) (u_Expired undo)))
         else if u_Spent undo then liftErr DbError (DbDeleteTicket db (bucketName Live) k)
         else raise ErrMemoryCorruption)"

definition disconnectWrite :: "UndoTicketData \<Rightarrow> ticketDb \<Rightarrow> (stake_error, ticketDb) result" where
  "disconnectWrite undo db =
     (let k = TicketHash undo; h = TicketHeight undo; kh = TicketKeyHeight undo
      in if \<not> u_Missed undo \<and> \<not> u_Revoked undo \<and> \<not> u_Spent undo then liftErr DbError (DbDeleteTicket db (bucketName Live) k)
         else if u_Missed undo \<and> u_Revoked undo
         then bindE (liftErr DbError (DbDeleteTicket db (bucketName RevokedKind) k)) (\<lambda>db.
              liftErr DbError (DbPutTicket db (bucketName MissedKind) k h kh (u_Missed undo) False (u_Spent undo) (u_Expired undo)))
         else if u_Missed undo \<and> \<not> u_Revoked undo
         then bindE (liftErr DbError (DbDeleteTicket db (bucketName MissedKind) k)) (\<lambda>db.
              liftErr DbError (DbPutTicket db (bucketName Live) k h kh False (u_Revoked undo) (u_Spent undo) False))
         else if u_Spent undo
         then liftErr DbError (DbPutTicket db (bucketName Live) k h kh (u_Missed undo) (u_Revoked undo) False (u_Expired undo))
         else raise ErrMemoryCorruption)"

primrec writeAll :: "(UndoTicketData \<Rightarrow> ticketDb \<Rightarrow> (stake_error, ticketDb) result) \<Rightarrow> UndoTicketData list \<Rightarrow> ticketDb \<Rightarrow> (stake_error, ticketDb) result" where
  "writeAll f [] db = Inr db"
| "writeAll f (u # us) db = bindE (f u db) (writeAll f us)"

text \<open>The winners are copied into a slice of \<^verbatim>\<open>TicketsPerBlock\<close> hashes.\<close>

definition padWinners :: "Node \<Rightarrow> ('e, bytes list) result" where
  "padWinners node =
     (let n = unat (TicketsPerBlock (nodeParams node))
      in if length (nextWinners node) > n then panic
         else Inr (nextWinners node @ replicate (n - length (nextWinners node)) (replicate 32 0)))"

text \<open>The writes that both functions end with; only connecting stores the key height.\<close>

definition writeNodeState :: "Node \<Rightarrow> bytes \<Rightarrow> 32 word \<Rightarrow> ticketDb \<Rightarrow> (stake_error, ticketDb) result" where
  "writeNodeState node hash kh db =
     bindE (liftErr DbError (DbPutBlockUndoData db (height node) (databaseUndoUpdate node))) (\<lambda>db.
     bindE (liftErr DbError (DbPutNewTickets db (height node) (databaseBlockTickets node))) (\<lambda>db.
     bindE (padWinners node) (\<lambda>winners.
       liftErr DbError (DbPutBestState db
         \<lparr>bs_Hash = hash, bs_Height = height node, bs_KeyHeight = kh, bs_Live = word_of_int (Len (liveTickets node)),
          bs_Missed = word_of_int (Len (missedTickets node)), bs_Revoked = word_of_int (Len (revokedTickets node)),
          PerBlock = TicketsPerBlock (nodeParams node), NextWinners = winners\<rparr>))))"

definition WriteConnectedBestNode :: "ticketDb \<Rightarrow> Node \<Rightarrow> bytes \<Rightarrow> (stake_error, ticketDb) result" where
  "WriteConnectedBestNode db node hash =
     bindE (writeAll connectWrite (databaseUndoUpdate node) db) (writeNodeState node hash (keyHeight node))"

primrec dropAbove :: "nat \<Rightarrow> 32 word \<Rightarrow> ticketDb \<Rightarrow> (stake_error, ticketDb) result" where
  "dropAbove 0 i db = Inr db"
| "dropAbove (Suc n) i db =
     bindE (liftErr DbError (DbDropBlockUndoData db i)) (\<lambda>db.
     bindE (liftErr DbError (DbDropNewTickets db i)) (dropAbove n (i - 1)))"

definition WriteDisconnectedBestNode :: "ticketDb \<Rightarrow> Node \<Rightarrow> bytes \<Rightarrow> UndoTicketData list \<Rightarrow> (stake_error, ticketDb) result" where
  "WriteDisconnectedBestNode db node hash childUndoData =
     bindE (liftErr DbError (DbFetchBestState db)) (\<lambda>formerBest.
     bindE (dropAbove (unat (bs_Height formerBest) - unat (height node)) (bs_Height formerBest) db) (\<lambda>db.
     bindE (writeAll disconnectWrite childUndoData db) (writeNodeState node hash 0)))"

definition InitDatabaseState :: "int \<Rightarrow> bytes \<Rightarrow> ticketDb \<Rightarrow> stakeParams \<Rightarrow> (stake_error, Node \<times> ticketDb) result" where
  "InitDatabaseState now genesisHash db params =
     bindE (liftErr DbError (DbCreate now db)) (\<lambda>db.
     let genesis = genesisNode params
     in bindE (writeNodeState genesis genesisHash 0 db) (\<lambda>db. Inr (genesis, db)))"

section \<open>Loading a node\<close>

definition HashToBig :: "bytes \<Rightarrow> int" where
  "HashToBig h = leVal h"

definition CompactToBig :: "32 word \<Rightarrow> int" where
  "CompactToBig compact =
     (let mantissa = compact AND 0x007fffff; isNegative = (compact AND 0x00800000 \<noteq> 0); exponent = unat (drop_bit 24 compact);
          bn = (if exponent \<le> 3 then uint (drop_bit (8 * (3 - exponent)) mantissa) else push_bit (8 * (exponent - 3)) (uint mantissa))
      in if isNegative then - bn else bn)"

definition loadTreap :: "(bytes \<Rightarrow> int) \<Rightarrow> ticketDb \<Rightarrow> ticketKind \<Rightarrow> int \<Rightarrow> (stake_error, ticketTreap) result" where
  "loadTreap rnd db b n =
     bindE (liftErr DbError (DbLoadAllTickets rnd db (bucketName b))) (\<lambda>t.
       if Len t \<noteq> n then raise ErrDatabaseCorrupt else Inr t)"

definition LoadBestNode ::
  "(bytes \<Rightarrow> bytes) \<Rightarrow> (ticketKind \<Rightarrow> bytes \<Rightarrow> int) \<Rightarrow> ticketDb \<Rightarrow> 32 word \<Rightarrow> 32 word \<Rightarrow> bytes \<Rightarrow> BlockHeader \<Rightarrow> stakeParams \<Rightarrow>
     (stake_error, Node) result option" where
  "LoadBestNode hashH rnd db h kh blockHash header params =
     (case bindE (liftErr DbError (DbFetchDatabaseInfo db)) (\<lambda>info.
           bindE (liftErr DbError (DbFetchBestState db)) (\<lambda>state.
           if bs_Hash state \<noteq> blockHash \<or> bs_Height state \<noteq> h then raise ErrDatabaseCorrupt
           else bindE (loadTreap (rnd Live) db Live (uint (bs_Live state))) (\<lambda>live.
                bindE (loadTreap (rnd MissedKind) db MissedKind (sint (bs_Missed state))) (\<lambda>missed.
                bindE (loadTreap (rnd RevokedKind) db RevokedKind (sint (bs_Revoked state))) (\<lambda>revoked.
                bindE (liftErr DbError (DbFetchBlockUndoData db h)) (\<lambda>utds.
                bindE (liftErr DbError (DbFetchNewTickets db h)) (\<lambda>tickets.
                  Inr (info, NextWinners state,
                       \<lparr>height = h, keyHeight = kh, liveTickets = live, missedTickets = missed, revokedTickets = revoked,
                        databaseUndoUpdate = utds, databaseBlockTickets = tickets, nextWinners = [], finalState = replicate 6 0,
                        nodeParams = params\<rparr>)))))))) of
        Inl e \<Rightarrow> Some (Inl e)
      | Inr (info, winners, n) \<Rightarrow>
          (case (if realKeyHeight header (HashToBig blockHash \<le> CompactToBig (Bits header)) \<ge> word_of_int (StakeValidationHeight params - 1)
                 then restoreFinalState hashH header (n\<lparr>nextWinners := winners\<rparr>) else Some (Inr n)) of
             None \<Rightarrow> None
           | Some r \<Rightarrow> Some (bindE r (\<lambda>n. if info = None then panic else Inr n))))"

end
