(* ===== verification/TicketMoves.thy ===== *)
theory TicketMoves
  imports Tickets
begin

unbundle bit_operations_syntax

text \<open>
  What connecting and disconnecting a block do to the tickets of a stake node. A node is viewed as one
  map of tickets per kind; each entry of the undo data stands for the move of one ticket between the
  kinds. The locale \<open>ticketStore\<close> is the interface of a place that holds the three kinds, with
  the laws that applying and reverting moves rely on; the treaps of a node are shown to meet it here,
  the buckets of the database in \<open>TicketStore\<close>. The loops of \<^verbatim>\<open>connectNode\<close> are shown to be sequences
  of moves, and the loop of \<^verbatim>\<open>disconnectNode\<close> to revert them.
\<close>

section \<open>Views of the tickets\<close>

text \<open>The tickets of each kind, as maps; and the part of a view that belongs to one ticket.\<close>

type_synonym ticketView = "ticketKind \<Rightarrow> bytes \<Rightarrow> ticketValue option"

definition viewAt :: "ticketView \<Rightarrow> bytes \<Rightarrow> ticketKind \<Rightarrow> ticketValue option" where
  "viewAt \<sigma> k b = \<sigma> b k"

definition replaceAt :: "ticketView \<Rightarrow> bytes \<Rightarrow> (ticketKind \<Rightarrow> ticketValue option) \<Rightarrow> ticketView" where
  "replaceAt \<sigma> k f b = (\<sigma> b)(k := f b)"

text \<open>What an entry of the undo data says about its ticket before and after the block.\<close>

definition isNew :: "UndoTicketData \<Rightarrow> bool" where
  "isNew u \<longleftrightarrow> \<not> u_Missed u \<and> \<not> u_Revoked u \<and> \<not> u_Spent u"

definition moved :: "UndoTicketData \<Rightarrow> (ticketKind \<Rightarrow> ticketValue option) \<Rightarrow> (ticketKind \<Rightarrow> ticketValue option) \<Rightarrow> bool" where
  "moved u f g \<longleftrightarrow>
     (let v = undoValue u
      in if isNew u then f Live = None \<and> g = f(Live \<mapsto> v)
         else if u_Missed u \<and> u_Revoked u
         then f MissedKind = Some (v\<lparr>Revoked := False\<rparr>) \<and> f RevokedKind = None \<and> g = f(MissedKind := None, RevokedKind \<mapsto> v)
         else if u_Missed u
         then f Live = Some (v\<lparr>Missed := False, Expired := False\<rparr>) \<and> f MissedKind = None \<and> g = f(Live := None, MissedKind \<mapsto> v)
         else u_Spent u \<and> f Live = Some (v\<lparr>Spent := False\<rparr>) \<and> g = f(Live := None))"

lemma replaceAt_simps [simp]:
  "viewAt (replaceAt \<sigma> k f) k = f" "k' \<noteq> k \<Longrightarrow> viewAt (replaceAt \<sigma> k f) k' = viewAt \<sigma> k'"
  "replaceAt (replaceAt \<sigma> k f) k g = replaceAt \<sigma> k g" "replaceAt \<sigma> k (viewAt \<sigma> k) = \<sigma>"
  by (auto simp: viewAt_def replaceAt_def fun_eq_iff)

lemma viewAt_replaceAt: "viewAt (replaceAt \<sigma> k f) k' = (if k' = k then f else viewAt \<sigma> k')"
  by simp

lemma view_eqI: "(\<And>k. viewAt \<sigma> k = viewAt \<tau> k) \<Longrightarrow> \<sigma> = \<tau>"
  by (simp add: viewAt_def fun_eq_iff)

lemma update_kind: "\<sigma>(b := (\<sigma> b)(k := x)) = replaceAt \<sigma> k ((viewAt \<sigma> k)(b := x))"
  by (auto simp: viewAt_def replaceAt_def fun_eq_iff)

text \<open>One step of a list of entries after the other, and all of them at once.\<close>

primrec steps :: "UndoTicketData list \<Rightarrow> ticketView \<Rightarrow> ticketView \<Rightarrow> bool" where
  "steps [] \<sigma> \<tau> \<longleftrightarrow> \<tau> = \<sigma>"
| "steps (u # us) \<sigma> \<tau> \<longleftrightarrow>
     (\<exists>g. length (TicketHash u) = 32 \<and> moved u (viewAt \<sigma> (TicketHash u)) g \<and> steps us (replaceAt \<sigma> (TicketHash u) g) \<tau>)"

definition moves :: "UndoTicketData list \<Rightarrow> ticketView \<Rightarrow> ticketView \<Rightarrow> bool" where
  "moves us \<sigma> \<tau> \<longleftrightarrow> distinct (map TicketHash us) \<and>
     (\<forall>u \<in> set us. length (TicketHash u) = 32 \<and> moved u (viewAt \<sigma> (TicketHash u)) (viewAt \<tau> (TicketHash u))) \<and>
     (\<forall>k. k \<notin> TicketHash ` set us \<longrightarrow> viewAt \<tau> k = viewAt \<sigma> k)"

lemma steps_append: "steps (us @ vs) \<sigma> \<tau> \<longleftrightarrow> (\<exists>\<rho>. steps us \<sigma> \<rho> \<and> steps vs \<rho> \<tau>)"
  by (induction us arbitrary: \<sigma>) auto

lemma steps_other: "steps us \<sigma> \<tau> \<Longrightarrow> k \<notin> TicketHash ` set us \<Longrightarrow> viewAt \<tau> k = viewAt \<sigma> k"
  by (induction us arbitrary: \<sigma>) auto

lemma steps_moves: "steps us \<sigma> \<tau> \<Longrightarrow> distinct (map TicketHash us) \<Longrightarrow> moves us \<sigma> \<tau>"
proof (induction us arbitrary: \<sigma>)
  case Nil
  then show ?case by (simp add: moves_def)
next
  case (Cons u us)
  then obtain g where g: "length (TicketHash u) = 32" "moved u (viewAt \<sigma> (TicketHash u)) g" "steps us (replaceAt \<sigma> (TicketHash u) g) \<tau>" by auto
  have "moves us (replaceAt \<sigma> (TicketHash u) g) \<tau>" using Cons.IH [OF g(3)] Cons.prems(2) by simp
  moreover have "viewAt \<tau> (TicketHash u) = g" using steps_other [OF g(3), of "TicketHash u"] Cons.prems(2) by simp
  moreover have "TicketHash v \<noteq> TicketHash u" if "v \<in> set us" for v using Cons.prems(2) that by (force simp: image_iff)
  ultimately show ?case using g(1,2) Cons.prems(2) by (simp add: moves_def)
qed

text \<open>
  If every step makes a property of its ticket false that must hold before, no ticket occurs twice.
\<close>

lemma steps_distinct:
  assumes "\<forall>u \<in> set us. \<forall>f g. moved u f g \<longrightarrow> Q f \<and> \<not> Q g"
  shows "steps us \<sigma> \<tau> \<Longrightarrow> distinct (map TicketHash us) \<and> (\<forall>k \<in> TicketHash ` set us. Q (viewAt \<sigma> k))"
  using assms
proof (induction us arbitrary: \<sigma>)
  case (Cons u us)
  then obtain g where g: "moved u (viewAt \<sigma> (TicketHash u)) g" "steps us (replaceAt \<sigma> (TicketHash u) g) \<tau>" by auto
  have "distinct (map TicketHash us) \<and> (\<forall>k \<in> TicketHash ` set us. Q (viewAt (replaceAt \<sigma> (TicketHash u) g) k))"
    by (rule Cons.IH [OF g(2)]) (use Cons.prems(2) in simp)
  moreover have "Q (viewAt \<sigma> (TicketHash u))" "\<not> Q g" using Cons.prems(2) g(1) by auto
  ultimately show ?case
    by (metis (no_types, lifting) distinct.simps(2) image_insert insert_iff list.set_map list.simps(9) list.simps(15) replaceAt_simps(1,2))
qed simp

section \<open>Stores of tickets\<close>

text \<open>
  What the treaps of a node and the buckets of the database have in common: a ticket can be inserted
  where it is not, and removed where it is, and nothing else changes. Applying and reverting the
  entries of a block on such a store are shown inverse here, for both.
\<close>

locale ticketStore =
  fixes inv :: "'s \<Rightarrow> bool" and look :: "'s \<Rightarrow> ticketView" and rest :: "'s \<Rightarrow> 'r"
    and ins :: "int \<Rightarrow> 's \<Rightarrow> ticketKind \<Rightarrow> bytes \<Rightarrow> ticketValue \<Rightarrow> (stake_error, 's) result"
    and rem :: "'s \<Rightarrow> ticketKind \<Rightarrow> bytes \<Rightarrow> (stake_error, 's) result"
  assumes ins_ok: "inv s \<Longrightarrow> length k = 32 \<Longrightarrow> look s b k = None \<Longrightarrow>
      \<exists>s'. ins rnd s b k v = Inr s' \<and> inv s' \<and> rest s' = rest s \<and> look s' = (look s)(b := (look s b)(k \<mapsto> v))"
    and rem_ok: "inv s \<Longrightarrow> look s b k \<noteq> None \<Longrightarrow>
      \<exists>s'. rem s b k = Inr s' \<and> inv s' \<and> rest s' = rest s \<and> look s' = (look s)(b := (look s b)(k := None))"
begin

definition applyMove :: "int \<Rightarrow> UndoTicketData \<Rightarrow> 's \<Rightarrow> (stake_error, 's) result" where
  "applyMove rnd u s =
     (let k = TicketHash u; v = undoValue u
      in if isNew u then ins rnd s Live k v
         else if u_Missed u \<and> u_Revoked u then bindE (rem s MissedKind k) (\<lambda>s. ins rnd s RevokedKind k v)
         else if u_Missed u then bindE (rem s Live k) (\<lambda>s. ins rnd s MissedKind k v)
         else rem s Live k)"

definition revertMove :: "int \<Rightarrow> UndoTicketData \<Rightarrow> 's \<Rightarrow> (stake_error, 's) result" where
  "revertMove rnd u s =
     (let k = TicketHash u; v = undoValue u
      in if isNew u then rem s Live k
         else if u_Missed u \<and> u_Revoked u then bindE (rem s RevokedKind k) (\<lambda>s. ins rnd s MissedKind k (v\<lparr>Revoked := False\<rparr>))
         else if u_Missed u then bindE (rem s MissedKind k) (\<lambda>s. ins rnd s Live k (v\<lparr>Missed := False, Expired := False\<rparr>))
         else ins rnd s Live k (v\<lparr>Spent := False\<rparr>))"

lemma transfer:
  assumes "inv s" "length k = 32" "look s a k \<noteq> None" "look s b k = None" "a \<noteq> b"
  shows "\<exists>s'. bindE (rem s a k) (\<lambda>s. ins rnd s b k v) = Inr s' \<and> inv s' \<and> rest s' = rest s \<and>
    look s' = replaceAt (look s) k ((viewAt (look s) k)(a := None, b \<mapsto> v))"
proof -
  obtain s1 where s1: "rem s a k = Inr s1" "inv s1" "rest s1 = rest s" "look s1 = (look s)(a := (look s a)(k := None))"
    using rem_ok [OF assms(1,3)] by blast
  moreover have "look s1 b k = None" using s1(4) assms(4,5) by simp
  ultimately obtain s2 where "ins rnd s1 b k v = Inr s2" "inv s2" "rest s2 = rest s1" "look s2 = (look s1)(b := (look s1 b)(k \<mapsto> v))"
    using ins_ok [of s1 k b rnd v] assms(2) by blast
  with s1 show ?thesis by (simp add: update_kind)
qed

lemma applyMove_ok:
  assumes "inv s" "length (TicketHash u) = 32" "moved u (viewAt (look s) (TicketHash u)) g"
  shows "\<exists>s'. applyMove rnd u s = Inr s' \<and> inv s' \<and> rest s' = rest s \<and> look s' = replaceAt (look s) (TicketHash u) g"
  using assms(3) ins_ok [OF assms(1,2), of Live rnd "undoValue u"] rem_ok [OF assms(1), of Live "TicketHash u"]
    transfer [OF assms(1,2), of MissedKind RevokedKind rnd "undoValue u"] transfer [OF assms(1,2), of Live MissedKind rnd "undoValue u"]
  by (auto simp: moved_def applyMove_def viewAt_def update_kind Let_def split: if_splits)

lemma revertMove_ok:
  assumes "inv s" "length (TicketHash u) = 32" "moved u f (viewAt (look s) (TicketHash u))"
  shows "\<exists>s'. revertMove rnd u s = Inr s' \<and> inv s' \<and> rest s' = rest s \<and> look s' = replaceAt (look s) (TicketHash u) f"
proof -
  let ?k = "TicketHash u" and ?v = "undoValue u" and ?g = "viewAt (look s) (TicketHash u)"
  have g: "?g b = look s b ?k" for b by (simp add: viewAt_def)
  consider (new) "isNew u" "f Live = None" "?g = f(Live \<mapsto> ?v)"
    | (revoked) "\<not> isNew u" "u_Missed u" "u_Revoked u" "f MissedKind = Some (?v\<lparr>Revoked := False\<rparr>)" "f RevokedKind = None"
        "?g = f(MissedKind := None, RevokedKind \<mapsto> ?v)"
    | (missed) "\<not> isNew u" "u_Missed u" "\<not> u_Revoked u" "f Live = Some (?v\<lparr>Missed := False, Expired := False\<rparr>)" "f MissedKind = None"
        "?g = f(Live := None, MissedKind \<mapsto> ?v)"
    | (spent) "\<not> isNew u" "\<not> u_Missed u" "f Live = Some (?v\<lparr>Spent := False\<rparr>)" "?g = f(Live := None)"
    using assms(3) by (auto simp: moved_def Let_def split: if_splits)
  then show ?thesis
  proof cases
    case new
    have "look s Live ?k \<noteq> None" using new(3) by (simp flip: g)
    from rem_ok [OF assms(1) this] obtain s' where "rem s Live ?k = Inr s'" "inv s'" "rest s' = rest s" "look s' = replaceAt (look s) ?k (?g(Live := None))"
      by (auto simp: update_kind)
    moreover have "?g(Live := None) = f" using new(2,3) by auto
    ultimately show ?thesis using new(1) by (simp add: revertMove_def)
  next
    case revoked
    have "look s RevokedKind ?k \<noteq> None" "look s MissedKind ?k = None" using revoked(6) by (simp_all flip: g)
    from transfer [OF assms(1,2) this] obtain s' where "bindE (rem s RevokedKind ?k) (\<lambda>s. ins rnd s MissedKind ?k (?v\<lparr>Revoked := False\<rparr>)) = Inr s'"
      "inv s'" "rest s' = rest s" "look s' = replaceAt (look s) ?k (?g(RevokedKind := None, MissedKind \<mapsto> ?v\<lparr>Revoked := False\<rparr>))" by blast
    moreover have "?g(RevokedKind := None, MissedKind \<mapsto> ?v\<lparr>Revoked := False\<rparr>) = f" using revoked(4-6) by (auto simp: fun_eq_iff)
    ultimately show ?thesis using revoked(1-3) by (simp add: revertMove_def)
  next
    case missed
    have "look s MissedKind ?k \<noteq> None" "look s Live ?k = None" using missed(6) by (simp_all flip: g)
    from transfer [OF assms(1,2) this] obtain s' where
      "bindE (rem s MissedKind ?k) (\<lambda>s. ins rnd s Live ?k (?v\<lparr>Missed := False, Expired := False\<rparr>)) = Inr s'"
      "inv s'" "rest s' = rest s" "look s' = replaceAt (look s) ?k (?g(MissedKind := None, Live \<mapsto> ?v\<lparr>Missed := False, Expired := False\<rparr>))" by blast
    moreover have "?g(MissedKind := None, Live \<mapsto> ?v\<lparr>Missed := False, Expired := False\<rparr>) = f" using missed(4-6) by (auto simp: fun_eq_iff)
    ultimately show ?thesis using missed(1-3) by (simp add: revertMove_def)
  next
    case spent
    have "look s Live ?k = None" using spent(4) by (simp flip: g)
    from ins_ok [OF assms(1,2) this] obtain s' where "ins rnd s Live ?k (?v\<lparr>Spent := False\<rparr>) = Inr s'" "inv s'" "rest s' = rest s"
      "look s' = replaceAt (look s) ?k (?g(Live \<mapsto> ?v\<lparr>Spent := False\<rparr>))" unfolding update_kind by blast
    moreover have "?g(Live \<mapsto> ?v\<lparr>Spent := False\<rparr>) = f" using spent(3,4) by (auto simp: fun_eq_iff)
    ultimately show ?thesis using spent(1,2) by (simp add: revertMove_def)
  qed
qed

end

lemma moves_Cons:
  assumes "moves (u # us) \<sigma> \<tau>"
  shows "length (TicketHash u) = 32" "moved u (viewAt \<sigma> (TicketHash u)) (viewAt \<tau> (TicketHash u))"
    "moves us (replaceAt \<sigma> (TicketHash u) (viewAt \<tau> (TicketHash u))) \<tau>" "moves us \<sigma> (replaceAt \<tau> (TicketHash u) (viewAt \<sigma> (TicketHash u)))"
proof -
  show "length (TicketHash u) = 32" "moved u (viewAt \<sigma> (TicketHash u)) (viewAt \<tau> (TicketHash u))" using assms by (simp_all add: moves_def)
  have ne: "TicketHash v \<noteq> TicketHash u" if "v \<in> set us" for v using assms that by (force simp: moves_def image_iff)
  show "moves us (replaceAt \<sigma> (TicketHash u) (viewAt \<tau> (TicketHash u))) \<tau>"
    using assms ne unfolding moves_def by (auto simp: viewAt_replaceAt)
  show "moves us \<sigma> (replaceAt \<tau> (TicketHash u) (viewAt \<sigma> (TicketHash u)))"
    using assms ne unfolding moves_def by (auto simp: viewAt_replaceAt)
qed


section \<open>The treaps of a node are such a store\<close>

definition wf_node :: "Node \<Rightarrow> bool" where
  "wf_node n \<longleftrightarrow> (\<forall>b. wf_treap (nodeTreap b n))"

definition nodeView :: "Node \<Rightarrow> ticketView" where
  "nodeView n b = treapMap (nodeTreap b n)"

text \<open>Everything in a node but its treaps.\<close>

definition nodeRest :: "Node \<Rightarrow> Node" where
  "nodeRest n = n\<lparr>liveTickets := NewImmutable, missedTickets := NewImmutable, revokedTickets := NewImmutable\<rparr>"

lemma nodeRest_eq:
  "nodeRest a = nodeRest b \<longleftrightarrow> height a = height b \<and> keyHeight a = keyHeight b \<and> databaseUndoUpdate a = databaseUndoUpdate b \<and>
     databaseBlockTickets a = databaseBlockTickets b \<and> nextWinners a = nextWinners b \<and> finalState a = finalState b \<and> nodeParams a = nodeParams b"
  by (cases a; cases b) (auto simp: nodeRest_def)

lemma nodeTreap_set [simp]: "nodeTreap a (setTreap b t n) = (if a = b then t else nodeTreap a n)"
  by (cases a; cases b) simp_all

lemma nodeRest_set [simp]: "nodeRest (setTreap b t n) = nodeRest n"
  by (cases b) (simp_all add: nodeRest_def)

lemma nodeTreap_frame [simp]:
  "nodeTreap b (n\<lparr>nextWinners := w\<rparr>) = nodeTreap b n" "nodeTreap b (n\<lparr>databaseUndoUpdate := us\<rparr>) = nodeTreap b n"
  "nodeTreap b (n\<lparr>finalState := f\<rparr>) = nodeTreap b n"
  by (cases b; simp)+

lemma view_frame [simp]:
  "nodeView (n\<lparr>nextWinners := w\<rparr>) = nodeView n" "nodeView (n\<lparr>databaseUndoUpdate := us\<rparr>) = nodeView n" "nodeView (n\<lparr>finalState := f\<rparr>) = nodeView n"
  "wf_node (n\<lparr>nextWinners := w\<rparr>) = wf_node n" "wf_node (n\<lparr>databaseUndoUpdate := us\<rparr>) = wf_node n" "wf_node (n\<lparr>finalState := f\<rparr>) = wf_node n"
  by (simp_all add: nodeView_def wf_node_def fun_eq_iff)

lemma nodePut_ok:
  assumes "wf_node n"
  shows "nodePut rnd n b k v = (if nodeView n b k \<noteq> None then raise ErrDuplicateTicket
    else Inr (setTreap b (Put rnd (nodeTreap b n) k (Some v)) n))"
    "wf_node (setTreap b (Put rnd (nodeTreap b n) k (Some v)) n)"
    "nodeView (setTreap b (Put rnd (nodeTreap b n) k (Some v)) n) = (nodeView n)(b := (nodeView n b)(k \<mapsto> v))"
  using assms by (auto simp: nodePut_def safePut_def wf_node_def nodeView_def imm.has_map imm.wf_put imm.map_put fun_eq_iff)

lemma nodeDelete_ok:
  assumes "wf_node n"
  shows "nodeDelete n b k = (if nodeView n b k = None then raise ErrMissingTicket else Inr (setTreap b (Delete (nodeTreap b n) k) n))"
    "wf_node (setTreap b (Delete (nodeTreap b n) k) n)"
    "nodeView (setTreap b (Delete (nodeTreap b n) k) n) = (nodeView n)(b := (nodeView n b)(k := None))"
  using assms by (auto simp: nodeDelete_def safeDelete_def wf_node_def nodeView_def imm.has_map imm.wf_del imm.map_del fun_eq_iff)

interpretation nodes: ticketStore wf_node nodeView nodeRest nodePut nodeDelete
  by unfold_locales (auto simp: nodePut_ok nodeDelete_ok)

text \<open>The winners that an entry puts back.\<close>

definition winnerOf :: "UndoTicketData \<Rightarrow> bytes list" where
  "winnerOf u = (if isNew u \<or> u_Missed u \<and> (u_Revoked u \<or> u_Expired u) then [] else [TicketHash u])"

lemma undoUpdate_eq:
  assumes "moved u f g"
  shows "undoUpdate rnd u n = nodes.revertMove rnd u (n\<lparr>nextWinners := nextWinners n @ winnerOf u\<rparr>)"
proof -
  have "u_Missed u \<and> \<not> u_Revoked u \<and> \<not> u_Expired u \<Longrightarrow> undoValue u\<lparr>Missed := False, Expired := False\<rparr> = undoValue u\<lparr>Missed := False\<rparr>"
    by (simp add: undoValue_def)
  moreover have comm: "undoValue u\<lparr>Expired := False, Missed := False\<rparr> = undoValue u\<lparr>Missed := False, Expired := False\<rparr>" by (simp add: undoValue_def)
  ultimately show ?thesis using assms
    by (auto simp: comm undoUpdate_def nodes.revertMove_def winnerOf_def isNew_def moved_def Let_def split: if_splits)
qed

lemma undoAll_moves:
  "wf_node n \<Longrightarrow> moves us \<sigma> (nodeView n) \<Longrightarrow> \<exists>n'. undoAll rnd us n = Inr n' \<and> wf_node n' \<and> nodeView n' = \<sigma> \<and>
     nodeRest n' = nodeRest (n\<lparr>nextWinners := nextWinners n @ concat (map winnerOf us)\<rparr>)"
proof (induction us arbitrary: n)
  case Nil
  then show ?case by (auto simp: moves_def intro!: view_eqI)
next
  case (Cons u us)
  note m = moves_Cons [OF Cons.prems(2)]
  let ?n = "n\<lparr>nextWinners := nextWinners n @ winnerOf u\<rparr>"
  have eq: "wf_node ?n" "nodeView ?n = nodeView n" using Cons.prems(1) by simp_all
  obtain n1 where n1: "undoUpdate (rnd (length us)) u n = Inr n1" "wf_node n1" "nodeRest n1 = nodeRest ?n"
    "nodeView n1 = replaceAt (nodeView n) (TicketHash u) (viewAt \<sigma> (TicketHash u))"
    using nodes.revertMove_ok [OF eq(1) m(1), of "viewAt \<sigma> (TicketHash u)"] m(2) unfolding eq(2) undoUpdate_eq [OF m(2)] by blast
  have "moves us \<sigma> (nodeView n1)" using m(4) n1(4) by simp
  from Cons.IH [OF n1(2) this] obtain n' where n': "undoAll rnd us n1 = Inr n'" "wf_node n'" "nodeView n' = \<sigma>"
    "nodeRest n' = nodeRest (n1\<lparr>nextWinners := nextWinners n1 @ concat (map winnerOf us)\<rparr>)" by blast
  have "nextWinners n1 = nextWinners n @ winnerOf u" "nodeRest (n1\<lparr>nextWinners := w\<rparr>) = nodeRest (n\<lparr>nextWinners := w\<rparr>)" for w
    using n1(3) by (simp_all add: nodeRest_eq)
  with n' n1(1) show ?case by simp
qed

section \<open>What connecting a block does to the tickets\<close>

text \<open>
  The flags of the tickets of each kind, and that a ticket is of one kind only.
\<close>

definition okAt :: "bytes \<Rightarrow> (ticketKind \<Rightarrow> ticketValue option) \<Rightarrow> bool" where
  "okAt k f \<longleftrightarrow>
     (\<forall>v. f Live = Some v \<longrightarrow> length k = 32 \<and> \<not> Missed v \<and> \<not> Revoked v \<and> \<not> Spent v \<and> \<not> Expired v \<and> f MissedKind = None \<and> f RevokedKind = None) \<and>
     (\<forall>v. f MissedKind = Some v \<longrightarrow> length k = 32 \<and> Missed v \<and> \<not> Revoked v \<and> \<not> Spent v \<and> f RevokedKind = None) \<and>
     (\<forall>v. f RevokedKind = Some v \<longrightarrow> length k = 32 \<and> Missed v \<and> Revoked v \<and> \<not> Spent v)"

definition goodNode :: "Node \<Rightarrow> bool" where
  "goodNode n \<longleftrightarrow> wf_node n \<and> (\<forall>k. okAt k (viewAt (nodeView n) k))"

definition sameBlock :: "Node \<Rightarrow> Node \<Rightarrow> bool" where
  "sameBlock n n' \<longleftrightarrow> nodeRest (n'\<lparr>databaseUndoUpdate := []\<rparr>) = nodeRest (n\<lparr>databaseUndoUpdate := []\<rparr>)"

definition stepTo :: "UndoTicketData \<Rightarrow> Node \<Rightarrow> Node \<Rightarrow> bool" where
  "stepTo u n n' \<longleftrightarrow> goodNode n' \<and> steps [u] (nodeView n) (nodeView n') \<and> databaseUndoUpdate n' = databaseUndoUpdate n @ [u] \<and> sameBlock n n'"

lemma undoOf_simps [simp]:
  "undoValue (undoOf k v) = v" "TicketHash (undoOf k v) = k" "u_Missed (undoOf k v) = Missed v" "u_Revoked (undoOf k v) = Revoked v"
  "u_Spent (undoOf k v) = Spent v" "u_Expired (undoOf k v) = Expired v" "isNew (undoOf k v) \<longleftrightarrow> \<not> Missed v \<and> \<not> Revoked v \<and> \<not> Spent v"
  by (simp_all add: undoOf_def undoValue_def isNew_def)

lemma applyMove_step:
  assumes "goodNode n" "length k = 32" "moved (undoOf k v) (viewAt (nodeView n) k) g" "okAt k g"
    "bindE (nodes.applyMove rnd (undoOf k v) n) (\<lambda>n. Inr (addUndo k v n)) = Inr n'"
  shows "stepTo (undoOf k v) n n'"
proof -
  obtain n1 where n1: "nodes.applyMove rnd (undoOf k v) n = Inr n1" "wf_node n1" "nodeRest n1 = nodeRest n" "nodeView n1 = replaceAt (nodeView n) k g"
    using nodes.applyMove_ok [of n "undoOf k v" g rnd] assms(1-3) by (auto simp: goodNode_def)
  then have n': "n' = addUndo k v n1" using assms(5) by simp
  have "okAt k' (viewAt (nodeView n1) k')" for k' using assms(1,4) by (simp add: n1(4) viewAt_replaceAt goodNode_def)
  with n1 assms(2,3) n' show ?thesis
    by (auto simp: stepTo_def goodNode_def addUndo_def sameBlock_def nodeRest_eq)
qed

lemma safeGet_view: "wf_node n \<Longrightarrow> safeGet (nodeTreap b n) k = Inr v \<longleftrightarrow> nodeView n b k = Some v"
  by (auto simp: safeGet_def wf_node_def nodeView_def imm.get_map split: option.split)

lemmas safeGet_live = safeGet_view [of _ Live, simplified]
lemmas safeGet_missed = safeGet_view [of _ MissedKind, simplified]

lemma okAt_live:
  assumes "goodNode n" "nodeView n Live k = Some v"
  shows "length k = 32" "\<not> Missed v" "\<not> Revoked v" "\<not> Spent v" "\<not> Expired v" "nodeView n MissedKind k = None" "nodeView n RevokedKind k = None"
proof -
  have "okAt k (viewAt (nodeView n) k)" using assms(1) by (simp add: goodNode_def)
  with assms(2) show "length k = 32" "\<not> Missed v" "\<not> Revoked v" "\<not> Spent v" "\<not> Expired v" "nodeView n MissedKind k = None" "nodeView n RevokedKind k = None"
    by (auto simp: okAt_def viewAt_def)
qed

lemma winner_step:
  assumes "goodNode n" "winnerUpdate spent rnd k n = Inr n'"
  shows "\<exists>u. TicketHash u = k \<and> (u_Missed u \<longleftrightarrow> k \<notin> set spent) \<and> (u_Spent u \<longleftrightarrow> k \<in> set spent) \<and> \<not> u_Revoked u \<and> \<not> u_Expired u \<and> stepTo u n n'"
proof -
  have wf: "wf_node n" using assms(1) by (simp add: goodNode_def)
  obtain v where v: "nodeView n Live k = Some v" using assms(2) by (auto simp: winnerUpdate_def bindE_eq_Inr safeGet_live [OF wf])
  note ok = okAt_live [OF assms(1) v]
  show ?thesis
  proof (cases "k \<in> set spent")
    case True
    let ?v = "v\<lparr>Spent := True, Missed := False\<rparr>"
    have "bindE (nodes.applyMove rnd (undoOf k ?v) n) (\<lambda>n. Inr (addUndo k ?v n)) = Inr n'"
      using assms(2) True v ok by (simp add: winnerUpdate_def safeGet_live [OF wf, THEN iffD2, OF v] hashInSlice_def nodes.applyMove_def)
    moreover have "v = ?v\<lparr>Spent := False\<rparr>" using ok by (cases v) simp
    then have "moved (undoOf k ?v) (viewAt (nodeView n) k) ((viewAt (nodeView n) k)(Live := None))"
      using v by (simp add: moved_def viewAt_def)
    moreover have "okAt k ((viewAt (nodeView n) k)(Live := None))" using ok v by (simp add: okAt_def viewAt_def)
    ultimately have "stepTo (undoOf k ?v) n n'" using applyMove_step [OF assms(1) ok(1)] by blast
    with True ok show ?thesis by (intro exI [of _ "undoOf k ?v"]) simp
  next
    case False
    let ?v = "v\<lparr>Spent := False, Missed := True\<rparr>" and ?g = "\<lambda>w. (viewAt (nodeView n) k)(Live := None, MissedKind \<mapsto> w)"
    have "bindE (nodes.applyMove rnd (undoOf k ?v) n) (\<lambda>n. Inr (addUndo k ?v n)) = Inr n'"
      using assms(2) False v ok by (simp add: winnerUpdate_def safeGet_live [OF wf, THEN iffD2, OF v] hashInSlice_def nodes.applyMove_def bindE_assoc Let_def)
    moreover have "v = ?v\<lparr>Missed := False, Expired := False\<rparr>" using ok by (cases v) simp
    then have "moved (undoOf k ?v) (viewAt (nodeView n) k) (?g ?v)"
      using v ok by (simp add: moved_def viewAt_def)
    moreover have "okAt k (?g ?v)" using ok v by (simp add: okAt_def viewAt_def)
    ultimately have "stepTo (undoOf k ?v) n n'" using applyMove_step [OF assms(1) ok(1)] by blast
    with False ok show ?thesis by (intro exI [of _ "undoOf k ?v"]) simp
  qed
qed

lemma expire_step:
  assumes "goodNode n" "expireUpdate rnd k n = Inr n'"
  shows "\<exists>u. TicketHash u = k \<and> u_Missed u \<and> \<not> u_Spent u \<and> \<not> u_Revoked u \<and> u_Expired u \<and> stepTo u n n'"
proof -
  have wf: "wf_node n" using assms(1) by (simp add: goodNode_def)
  obtain v where v: "nodeView n Live k = Some v" using assms(2) by (auto simp: expireUpdate_def bindE_eq_Inr safeGet_live [OF wf])
  note ok = okAt_live [OF assms(1) v]
  let ?v = "v\<lparr>Missed := True, Expired := True\<rparr>" and ?g = "\<lambda>w. (viewAt (nodeView n) k)(Live := None, MissedKind \<mapsto> w)"
  have "bindE (nodes.applyMove rnd (undoOf k ?v) n) (\<lambda>n. Inr (addUndo k ?v n)) = Inr n'"
    using assms(2) v ok by (simp add: expireUpdate_def safeGet_live [OF wf, THEN iffD2, OF v] nodes.applyMove_def bindE_assoc Let_def)
  moreover have "v = ?v\<lparr>Missed := False, Expired := False\<rparr>" using ok by (cases v) simp
  then have "moved (undoOf k ?v) (viewAt (nodeView n) k) (?g ?v)"
    using v ok by (simp add: moved_def viewAt_def)
  moreover have "okAt k (?g ?v)" using ok v by (simp add: okAt_def viewAt_def)
  ultimately have "stepTo (undoOf k ?v) n n'" using applyMove_step [OF assms(1) ok(1)] by blast
  with ok show ?thesis by (intro exI [of _ "undoOf k ?v"]) simp
qed

lemma revoke_step:
  assumes "goodNode n" "revokeUpdate rnd k n = Inr n'"
  shows "\<exists>u. TicketHash u = k \<and> u_Missed u \<and> u_Revoked u \<and> stepTo u n n'"
proof -
  have wf: "wf_node n" using assms(1) by (simp add: goodNode_def)
  obtain v where v: "nodeView n MissedKind k = Some v" using assms(2) by (auto simp: revokeUpdate_def bindE_eq_Inr safeGet_missed [OF wf])
  have "okAt k (viewAt (nodeView n) k)" using assms(1) by (simp add: goodNode_def)
  then have ok: "length k = 32" "Missed v" "\<not> Revoked v" "\<not> Spent v" "nodeView n RevokedKind k = None" "nodeView n Live k = None"
    using v by (auto simp: okAt_def viewAt_def)
  let ?v = "v\<lparr>Revoked := True\<rparr>" and ?g = "\<lambda>w. (viewAt (nodeView n) k)(MissedKind := None, RevokedKind \<mapsto> w)"
  have "bindE (nodes.applyMove rnd (undoOf k ?v) n) (\<lambda>n. Inr (addUndo k ?v n)) = Inr n'"
    using assms(2) v ok by (simp add: revokeUpdate_def safeGet_missed [OF wf, THEN iffD2, OF v] nodes.applyMove_def bindE_assoc Let_def)
  moreover have "v = ?v\<lparr>Revoked := False\<rparr>" using ok by (cases v) simp
  then have "moved (undoOf k ?v) (viewAt (nodeView n) k) (?g ?v)"
    using v ok by (simp add: moved_def viewAt_def)
  moreover have "okAt k (?g ?v)" using ok v by (simp add: okAt_def viewAt_def)
  ultimately have "stepTo (undoOf k ?v) n n'" using applyMove_step [OF assms(1) ok(1)] by blast
  with ok show ?thesis by (intro exI [of _ "undoOf k ?v"]) simp
qed

lemma new_step:
  assumes "goodNode n" "length k = 32" "nodeView n MissedKind k = None" "nodeView n RevokedKind k = None" "newUpdate rnd k n = Inr n'"
  shows "\<exists>u. TicketHash u = k \<and> isNew u \<and> stepTo u n n'"
proof -
  have wf: "wf_node n" using assms(1) by (simp add: goodNode_def)
  let ?v = "\<lparr>Height = height n, KeyHeight = keyHeight n, Missed = False, Revoked = False, Spent = False, Expired = False\<rparr>"
    and ?g = "\<lambda>w. (viewAt (nodeView n) k)(Live \<mapsto> w)"
  have l: "nodeView n Live k = None" using assms(5) by (auto simp: Let_def newUpdate_def bindE_eq_Inr nodePut_ok(1) [OF wf] split: if_splits)
  have "bindE (nodes.applyMove rnd (undoOf k ?v) n) (\<lambda>n. Inr (addUndo k ?v n)) = Inr n'"
    using assms(5) by (simp add: newUpdate_def nodes.applyMove_def Let_def)
  moreover have "moved (undoOf k ?v) (viewAt (nodeView n) k) (?g ?v)" using l by (simp add: moved_def viewAt_def)
  moreover have "okAt k (?g ?v)" using assms(2-4) by (simp add: okAt_def viewAt_def)
  ultimately have "stepTo (undoOf k ?v) n n'" using applyMove_step [OF assms(1,2)] by blast
  then show ?thesis by (intro exI [of _ "undoOf k ?v"]) simp
qed

text \<open>A loop over tickets whose body is such a step.\<close>

lemma forTickets_steps:
  assumes "\<And>r k n n'. P n \<Longrightarrow> k \<in> set ks \<Longrightarrow> f r k n = Inr n' \<Longrightarrow> \<exists>u. TicketHash u = k \<and> K u \<and> stepTo u n n' \<and> P n'"
  shows "forTickets f rnd ks n = Inr n' \<Longrightarrow> P n \<Longrightarrow>
    \<exists>us. map TicketHash us = ks \<and> list_all K us \<and> steps us (nodeView n) (nodeView n') \<and> databaseUndoUpdate n' = databaseUndoUpdate n @ us \<and>
      sameBlock n n' \<and> P n'"
  using assms
proof (induction ks arbitrary: n)
  case Nil
  then show ?case by (simp add: sameBlock_def)
next
  case (Cons k ks)
  from Cons.prems(1) obtain n1 where n1: "f (rnd (length (databaseUndoUpdate n))) k n = Inr n1" "forTickets f rnd ks n1 = Inr n'" by (auto simp: bindE_eq_Inr)
  from Cons.prems(3) [OF Cons.prems(2) _ n1(1)] obtain u where u: "TicketHash u = k" "K u" "stepTo u n n1" "P n1" by auto
  obtain us where us: "map TicketHash us = ks" "list_all K us" "steps us (nodeView n1) (nodeView n')" "databaseUndoUpdate n' = databaseUndoUpdate n1 @ us"
    "sameBlock n1 n'" "P n'" using Cons.IH [OF n1(2) u(4)] Cons.prems(3) by auto
  have "steps (u # us) (nodeView n) (nodeView n')" using u(3) us(3) by (auto simp: stepTo_def)
  moreover have "sameBlock n n'" using u(3) us(5) by (simp add: stepTo_def sameBlock_def)
  ultimately show ?case using u us by (intro exI [of _ "u # us"]) (simp add: stepTo_def)
qed

text \<open>The entries that the four loops make.\<close>

definition winnerEntry :: "bytes list \<Rightarrow> UndoTicketData \<Rightarrow> bool" where
  "winnerEntry spent u \<longleftrightarrow> (u_Missed u \<longleftrightarrow> TicketHash u \<notin> set spent) \<and> (u_Spent u \<longleftrightarrow> TicketHash u \<in> set spent) \<and> \<not> u_Revoked u \<and> \<not> u_Expired u"

definition expiredEntry :: "UndoTicketData \<Rightarrow> bool" where
  "expiredEntry u \<longleftrightarrow> u_Missed u \<and> \<not> u_Spent u \<and> \<not> u_Revoked u \<and> u_Expired u"

definition revokedEntry :: "UndoTicketData \<Rightarrow> bool" where
  "revokedEntry u \<longleftrightarrow> u_Missed u \<and> u_Revoked u"

lemma entry_moves:
  "winnerEntry spent u \<or> expiredEntry u \<Longrightarrow> moved u f g \<Longrightarrow> f Live \<noteq> None \<and> g Live = None"
  "revokedEntry u \<Longrightarrow> moved u f g \<Longrightarrow> f MissedKind \<noteq> None \<and> g MissedKind = None \<and> g Live = f Live"
  "isNew u \<Longrightarrow> moved u f g \<Longrightarrow> f Live = None \<and> g Live \<noteq> None"
  by (auto simp: moved_def winnerEntry_def expiredEntry_def revokedEntry_def isNew_def Let_def split: if_splits)

text \<open>A ticket no node knows.\<close>

definition freshTicket :: "Node \<Rightarrow> bytes \<Rightarrow> bool" where
  "freshTicket n k \<longleftrightarrow> length k = 32 \<and> \<not> ExistsLiveTicket n k \<and> \<not> ExistsMissedTicket n k \<and> \<not> ExistsRevokedTicket n k"

lemma all_kinds: "(\<forall>b. P b) \<longleftrightarrow> P Live \<and> P MissedKind \<and> P RevokedKind"
  by (metis ticketKind.exhaust)

lemma freshTicket_view: "wf_node n \<Longrightarrow> freshTicket n k \<longleftrightarrow> length k = 32 \<and> (\<forall>b. nodeView n b k = None)"
proof -
  assume wf: "wf_node n"
  have "Has (nodeTreap b n) k \<longleftrightarrow> nodeView n b k \<noteq> None" for b using wf by (simp add: wf_node_def nodeView_def imm.has_map domIff)
  from this [of Live] this [of MissedKind] this [of RevokedKind] show ?thesis
    unfolding freshTicket_def ExistsLiveTicket_def ExistsMissedTicket_def ExistsRevokedTicket_def
    by (simp add: all_kinds)
qed

definition stakeEnabled :: "Node \<Rightarrow> BlockHeader \<Rightarrow> bool" where
  "stakeEnabled p header \<longleftrightarrow> bh_KeyHeight header \<ge> word_of_int (StakeEnabledHeight (nodeParams p))"

definition expireHeight :: "Node \<Rightarrow> BlockHeader \<Rightarrow> 32 word" where
  "expireHeight p header =
     (if bh_KeyHeight header > TicketExpiry (nodeParams p) then bh_KeyHeight header - TicketExpiry (nodeParams p) else 0)"

lemma sameBlock_trans: "sameBlock a b \<Longrightarrow> sameBlock b c \<Longrightarrow> sameBlock a c"
  by (simp add: sameBlock_def)

lemma sameBlock_fields:
  "sameBlock a b \<Longrightarrow> height b = height a \<and> keyHeight b = keyHeight a \<and> databaseBlockTickets b = databaseBlockTickets a \<and>
     nextWinners b = nextWinners a \<and> finalState b = finalState a \<and> nodeParams b = nodeParams a"
  by (simp add: sameBlock_def nodeRest_eq)

lemma fetchExpired_view:
  assumes "wf_node n"
  shows "k \<in> set (fetchExpired h (liveTickets n)) \<longleftrightarrow> (\<exists>v. nodeView n Live k = Some v \<and> KeyHeight v \<le> h)"
proof -
  have "wf_treap (liveTickets n)" using assms by (metis wf_node_def nodeTreap.simps(1))
  then have "distinct (map fst (entries (root (liveTickets n))))" by (auto simp: wf_treap_def bst_def strict_sorted_iff)
  then show ?thesis by (auto simp: fetchExpired_eq nodeView_def contents_def image_iff)
qed

lemma stakeUpdates_spec:
  assumes "goodNode n" "stakeUpdates rnd p spent revoked isKey n = Inr n'"
  obtains ws es rs \<rho> where "databaseUndoUpdate n' = databaseUndoUpdate n @ ws @ es @ rs" "list_all (winnerEntry spent) ws" "list_all expiredEntry es"
    "list_all revokedEntry rs" "steps (ws @ es) (nodeView n) \<rho>" "steps rs \<rho> (nodeView n')" "goodNode n'" "sameBlock n n'"
    "map TicketHash ws = (if isKey then nextWinners p else [])" "map TicketHash rs = revoked" "set spent \<subseteq> set (nextWinners p)"
    "TicketHash ` set es = (if isKey then {k. k \<notin> set (nextWinners p) \<and> (\<exists>v. nodeView n Live k = Some v \<and>
       KeyHeight v \<le> (if keyHeight n > TicketExpiry (nodeParams n) then keyHeight n - TicketExpiry (nodeParams n) else 0))} else {})"
proof -
  let ?h = "\<lambda>n. if keyHeight n > TicketExpiry (nodeParams n) then keyHeight n - TicketExpiry (nodeParams n) else 0"
  have sp: "set spent \<subseteq> set (nextWinners p)"
    using assms(2) by (auto simp: stakeUpdates_def hashInSlice_def list_all_iff split: if_splits)
  then have "list_all (\<lambda>t. hashInSlice t (nextWinners p)) spent" by (auto simp: hashInSlice_def list_all_iff)
  then have "bindE (if isKey then forTickets (winnerUpdate spent) rnd (nextWinners p) n else Inr n) (\<lambda>n.
      bindE (if isKey then forTickets expireUpdate rnd (fetchExpired (?h n) (liveTickets n)) n else Inr n) (\<lambda>n. forTickets revokeUpdate rnd revoked n)) = Inr n'"
    using assms(2) by (simp add: stakeUpdates_def Let_def cong: if_cong)
  then obtain n1 n2 where u: "(if isKey then forTickets (winnerUpdate spent) rnd (nextWinners p) n else Inr n) = Inr n1"
    "(if isKey then forTickets expireUpdate rnd (fetchExpired (?h n1) (liveTickets n1)) n1 else Inr n1) = Inr n2"
    "forTickets revokeUpdate rnd revoked n2 = Inr n'" unfolding bindE_eq_Inr by blast
  have "\<exists>us. map TicketHash us = (if isKey then nextWinners p else []) \<and> list_all (winnerEntry spent) us \<and> steps us (nodeView n) (nodeView n1) \<and>
      databaseUndoUpdate n1 = databaseUndoUpdate n @ us \<and> sameBlock n n1 \<and> goodNode n1"
  proof (cases isKey)
    case True
    have w: "forTickets (winnerUpdate spent) rnd (nextWinners p) n = Inr n1" using u(1) True by simp
    show ?thesis unfolding if_P [OF True]
    proof (rule forTickets_steps [where P = goodNode, OF _ w assms(1)])
      fix r k a b
      assume "goodNode a" "winnerUpdate spent r k a = Inr b"
      from winner_step [OF this] show "\<exists>u. TicketHash u = k \<and> winnerEntry spent u \<and> stepTo u a b \<and> goodNode b"
        by (auto simp: winnerEntry_def stepTo_def)
    qed
  qed (use u(1) assms(1) in \<open>auto simp: sameBlock_def\<close>)
  then obtain ws where ws: "map TicketHash ws = (if isKey then nextWinners p else [])" "list_all (winnerEntry spent) ws" "steps ws (nodeView n) (nodeView n1)"
    "databaseUndoUpdate n1 = databaseUndoUpdate n @ ws" "sameBlock n n1" "goodNode n1" by blast
  have "\<exists>us. map TicketHash us = (if isKey then fetchExpired (?h n1) (liveTickets n1) else []) \<and> list_all expiredEntry us \<and> steps us (nodeView n1) (nodeView n2) \<and>
      databaseUndoUpdate n2 = databaseUndoUpdate n1 @ us \<and> sameBlock n1 n2 \<and> goodNode n2"
  proof (cases isKey)
    case True
    have w: "forTickets expireUpdate rnd (fetchExpired (?h n1) (liveTickets n1)) n1 = Inr n2" using u(2) True by (simp cong: if_cong)
    show ?thesis unfolding if_P [OF True]
    proof (rule forTickets_steps [where P = goodNode, OF _ w ws(6)])
      fix r k a b
      assume "goodNode a" "expireUpdate r k a = Inr b"
      from expire_step [OF this] show "\<exists>u. TicketHash u = k \<and> expiredEntry u \<and> stepTo u a b \<and> goodNode b"
        by (auto simp: expiredEntry_def stepTo_def)
    qed
  qed (use u(2) ws(6) in \<open>auto simp: sameBlock_def\<close>)
  then obtain es where es: "map TicketHash es = (if isKey then fetchExpired (?h n1) (liveTickets n1) else [])" "list_all expiredEntry es"
    "steps es (nodeView n1) (nodeView n2)" "databaseUndoUpdate n2 = databaseUndoUpdate n1 @ es" "sameBlock n1 n2" "goodNode n2" by blast
  have "\<exists>us. map TicketHash us = revoked \<and> list_all revokedEntry us \<and> steps us (nodeView n2) (nodeView n') \<and>
      databaseUndoUpdate n' = databaseUndoUpdate n2 @ us \<and> sameBlock n2 n' \<and> goodNode n'"
  proof (rule forTickets_steps [where P = goodNode, OF _ u(3) es(6)])
    fix r k a b
    assume "goodNode a" "revokeUpdate r k a = Inr b"
    from revoke_step [OF this] show "\<exists>u. TicketHash u = k \<and> revokedEntry u \<and> stepTo u a b \<and> goodNode b"
      by (auto simp: revokedEntry_def stepTo_def)
  qed
  then obtain rs where rs: "map TicketHash rs = revoked" "list_all revokedEntry rs" "steps rs (nodeView n2) (nodeView n')"
    "databaseUndoUpdate n' = databaseUndoUpdate n2 @ rs" "sameBlock n2 n'" "goodNode n'" by blast
  have live: "nodeView n1 Live k = (if k \<in> TicketHash ` set ws then None else nodeView n Live k)" for k
  proof (cases "k \<in> TicketHash ` set ws")
    case True
    have "distinct (map TicketHash ws)"
      using steps_distinct [OF _ ws(3), of "\<lambda>f. f Live \<noteq> None"] ws(2) entry_moves(1) by (fastforce simp: list_all_iff)
    from steps_moves [OF ws(3) this] True ws(2) entry_moves(1) show ?thesis by (fastforce simp: moves_def viewAt_def list_all_iff)
  next
    case False
    from steps_other [OF ws(3) this] show ?thesis using False by (simp add: viewAt_def fun_eq_iff)
  qed
  have "TicketHash ` set es = set (map TicketHash es)" by simp
  also have "\<dots> = (if isKey then {k. k \<notin> set (nextWinners p) \<and> (\<exists>v. nodeView n Live k = Some v \<and> KeyHeight v \<le> ?h n)} else {})"
  proof (cases isKey)
    case True
    have "TicketHash ` set ws = set (nextWinners p)" using ws(1) True by (metis list.set_map)
    moreover have "?h n1 = ?h n" using sameBlock_fields [OF ws(5)] by simp
    moreover have "wf_node n1" using ws(6) by (simp add: goodNode_def)
    ultimately show ?thesis using True by (auto simp: es(1) fetchExpired_view live split: if_splits)
  qed (simp add: es(1))
  finally have ek: "TicketHash ` set es = \<dots>" .
  have "databaseUndoUpdate n' = databaseUndoUpdate n @ ws @ es @ rs" by (simp add: ws(4) es(4) rs(4))
  moreover have "steps (ws @ es) (nodeView n) (nodeView n2)" unfolding steps_append using ws(3) es(3) by blast
  moreover have "sameBlock n n'" using sameBlock_trans ws(5) es(5) rs(5) by blast
  ultimately show thesis using ws(1,2) es(2) rs(1-3,6) sp ek by (intro that)
qed

definition expiredKeys :: "Node \<Rightarrow> BlockHeader \<Rightarrow> bytes set" where
  "expiredKeys p header = {k. k \<notin> set (nextWinners p) \<and> (\<exists>v. nodeView p Live k = Some v \<and> KeyHeight v \<le> expireHeight p header)}"

lemma childNode_simps [simp]:
  "nodeTreap b (childNode p header new) = nodeTreap b p" "nodeView (childNode p header new) = nodeView p"
  "wf_node (childNode p header new) = wf_node p" "goodNode (childNode p header new) = goodNode p"
  "databaseUndoUpdate (childNode p header new) = []" "keyHeight (childNode p header new) = bh_KeyHeight header"
  "nodeParams (childNode p header new) = nodeParams p" "height (childNode p header new) = height p + 1"
  "databaseBlockTickets (childNode p header new) = new" "nextWinners (childNode p header new) = []"
  "finalState (childNode p header new) = replicate 6 0"
proof -
  show t: "nodeTreap b (childNode p header new) = nodeTreap b p" for b by (cases b) (simp_all add: childNode_def)
  show "nodeView (childNode p header new) = nodeView p" "wf_node (childNode p header new) = wf_node p"
    by (simp_all add: nodeView_def wf_node_def t fun_eq_iff)
  then show "goodNode (childNode p header new) = goodNode p" by (simp add: goodNode_def)
qed (simp_all add: childNode_def)

lemma steps_kind:
  assumes "list_all K us" "\<And>u f g. K u \<Longrightarrow> moved u f g \<Longrightarrow> Q f \<and> \<not> Q g" "steps us \<sigma> \<tau>"
  shows "distinct (map TicketHash us)" "k \<in> TicketHash ` set us \<Longrightarrow> Q (viewAt \<sigma> k)"
proof -
  have "\<forall>u \<in> set us. \<forall>f g. moved u f g \<longrightarrow> Q f \<and> \<not> Q g" using assms(1,2) by (metis list_all_iff)
  from steps_distinct [where Q = Q, OF this assms(3)]
  show "distinct (map TicketHash us)" "k \<in> TicketHash ` set us \<Longrightarrow> Q (viewAt \<sigma> k)" by metis+
qed

lemma steps_live:
  assumes "list_all (\<lambda>u. winnerEntry spent u \<or> expiredEntry u) us" "steps us \<sigma> \<tau>"
  shows "distinct (map TicketHash us)" "k \<in> TicketHash ` set us \<Longrightarrow> \<sigma> Live k \<noteq> None"
  using steps_kind [where Q = "\<lambda>f. f Live \<noteq> None", OF assms(1) _ assms(2)] entry_moves(1) unfolding viewAt_def by metis+

lemma steps_revoked:
  assumes "list_all revokedEntry us" "steps us \<sigma> \<tau>"
  shows "distinct (map TicketHash us)" "k \<in> TicketHash ` set us \<Longrightarrow> \<sigma> MissedKind k \<noteq> None"
  using steps_kind [where Q = "\<lambda>f. f MissedKind \<noteq> None", OF assms(1) _ assms(2)] entry_moves(2) unfolding viewAt_def by metis+

lemma steps_new:
  assumes "list_all isNew us" "steps us \<sigma> \<tau>"
  shows "distinct (map TicketHash us)" "k \<in> TicketHash ` set us \<Longrightarrow> \<sigma> Live k = None"
  using steps_kind [where Q = "\<lambda>f. f Live = None", OF assms(1) _ assms(2)] entry_moves(3) unfolding viewAt_def by metis+

lemma new_spec:
  assumes "goodNode n" "\<forall>k \<in> set new. length k = 32 \<and> nodeView n MissedKind k = None \<and> nodeView n RevokedKind k = None"
    "forTickets newUpdate rnd new n = Inr n'"
  shows "\<exists>us. map TicketHash us = new \<and> list_all isNew us \<and> steps us (nodeView n) (nodeView n') \<and>
    databaseUndoUpdate n' = databaseUndoUpdate n @ us \<and> sameBlock n n' \<and> goodNode n'"
proof -
  let ?P = "\<lambda>n. goodNode n \<and> (\<forall>k \<in> set new. nodeView n MissedKind k = None \<and> nodeView n RevokedKind k = None)"
  have "\<exists>us. map TicketHash us = new \<and> list_all isNew us \<and> steps us (nodeView n) (nodeView n') \<and>
    databaseUndoUpdate n' = databaseUndoUpdate n @ us \<and> sameBlock n n' \<and> ?P n'"
  proof (rule forTickets_steps [where P = ?P, OF _ assms(3)])
    fix r k a b
    assume a: "?P a" "k \<in> set new" "newUpdate r k a = Inr b"
    then have "goodNode a" "length k = 32" "nodeView a MissedKind k = None" "nodeView a RevokedKind k = None" using assms(2) by auto
    from new_step [OF this a(3)] obtain u where u: "TicketHash u = k" "isNew u" "stepTo u a b" by blast
    from u(3) obtain g where "moved u (viewAt (nodeView a) k) g" "nodeView b = replaceAt (nodeView a) k g" by (auto simp: stepTo_def u(1))
    then have "nodeView b = replaceAt (nodeView a) k ((viewAt (nodeView a) k)(Live \<mapsto> undoValue u))" using u(2) by (simp add: moved_def Let_def)
    then have "\<forall>k' \<in> set new. nodeView b MissedKind k' = None \<and> nodeView b RevokedKind k' = None"
      using a(1) by (simp add: replaceAt_def viewAt_def)
    with u show "\<exists>u. TicketHash u = k \<and> isNew u \<and> stepTo u a b \<and> ?P b" by (auto simp: stepTo_def)
  qed (use assms in auto)
  then show ?thesis by blast
qed

lemma moveTickets_spec:
  assumes "goodNode p" "list_all (freshTicket p) new" "moveTickets rnd p header spent revoked new isKey = Inr n"
  obtains ws es rs ns \<rho>1 \<rho>2 where "databaseUndoUpdate n = ws @ es @ rs @ ns" "list_all (winnerEntry spent) ws" "list_all expiredEntry es"
    "list_all revokedEntry rs" "list_all isNew ns" "steps (ws @ es) (nodeView p) \<rho>1" "steps rs \<rho>1 \<rho>2" "steps ns \<rho>2 (nodeView n)"
    "goodNode n" "sameBlock (childNode p header new) n" "map TicketHash ns = new"
    "map TicketHash ws = (if stakeEnabled p header \<and> isKey then nextWinners p else [])"
    "map TicketHash rs = (if stakeEnabled p header then revoked else [])"
    "TicketHash ` set es = (if stakeEnabled p header \<and> isKey then expiredKeys p header else {})"
    "stakeEnabled p header \<longrightarrow> set spent \<subseteq> set (nextWinners p)"
proof -
  let ?c = "childNode p header new"
  have wf: "wf_node p" using assms(1) by (simp add: goodNode_def)
  obtain n1 where n1: "(if stakeEnabled p header then stakeUpdates rnd p spent revoked isKey ?c else Inr ?c) = Inr n1"
    "forTickets newUpdate rnd new n1 = Inr n"
    using assms(3) by (auto simp: moveTickets_def bindE_eq_Inr stakeEnabled_def Let_def)
  obtain ws es rs \<rho> where s: "databaseUndoUpdate n1 = ws @ es @ rs" "list_all (winnerEntry spent) ws" "list_all expiredEntry es"
    "list_all revokedEntry rs" "steps (ws @ es) (nodeView p) \<rho>" "steps rs \<rho> (nodeView n1)" "goodNode n1" "sameBlock ?c n1"
    "map TicketHash ws = (if stakeEnabled p header \<and> isKey then nextWinners p else [])"
    "map TicketHash rs = (if stakeEnabled p header then revoked else [])"
    "TicketHash ` set es = (if stakeEnabled p header \<and> isKey then expiredKeys p header else {})"
    "stakeEnabled p header \<longrightarrow> set spent \<subseteq> set (nextWinners p)"
  proof (cases "stakeEnabled p header")
    case True
    have g: "goodNode ?c" using assms(1) by simp
    have u: "stakeUpdates rnd p spent revoked isKey ?c = Inr n1" using n1(1) True by simp
    obtain ws es rs \<rho> where s: "databaseUndoUpdate n1 = databaseUndoUpdate ?c @ ws @ es @ rs" "list_all (winnerEntry spent) ws" "list_all expiredEntry es"
      "list_all revokedEntry rs" "steps (ws @ es) (nodeView ?c) \<rho>" "steps rs \<rho> (nodeView n1)" "goodNode n1" "sameBlock ?c n1"
      "map TicketHash ws = (if isKey then nextWinners p else [])" "map TicketHash rs = revoked" "set spent \<subseteq> set (nextWinners p)"
      "TicketHash ` set es = (if isKey then {k. k \<notin> set (nextWinners p) \<and> (\<exists>v. nodeView ?c Live k = Some v \<and>
       KeyHeight v \<le> (if keyHeight ?c > TicketExpiry (nodeParams ?c) then keyHeight ?c - TicketExpiry (nodeParams ?c) else 0))} else {})"
      by (rule stakeUpdates_spec [OF g u])
    show thesis
      by (rule that [OF _ s(2-4) _ s(6-8)])
        (simp_all only: True s(1,5,9,10,11,12) childNode_simps append_Nil expiredKeys_def expireHeight_def simp_thms if_True, use s(5) in simp)
  next
    case False
    then show thesis using n1(1) assms(1) by (intro that [of "[]" "[]" "[]" "nodeView p"]) (auto simp: sameBlock_def)
  qed
  have keys: "\<forall>k \<in> set new. length k = 32 \<and> nodeView n1 MissedKind k = None \<and> nodeView n1 RevokedKind k = None"
  proof
    fix k assume "k \<in> set new"
    then have fr: "length k = 32" "nodeView p b k = None" for b using assms(2) freshTicket_view [OF wf] by (auto simp: list_all_iff)
    have "k \<notin> TicketHash ` set (ws @ es)" using steps_live(2) [OF _ s(5), of spent k] s(2,3) fr(2) by (auto simp: list_all_iff)
    from steps_other [OF s(5) this] have \<rho>: "\<rho> b k = None" for b using fr(2) by (simp add: viewAt_def fun_eq_iff)
    then have "k \<notin> TicketHash ` set rs" using steps_revoked(2) [OF s(4,6), of k] by auto
    from steps_other [OF s(6) this] \<rho> have "nodeView n1 b k = None" for b by (simp add: viewAt_def fun_eq_iff)
    with fr show "length k = 32 \<and> nodeView n1 MissedKind k = None \<and> nodeView n1 RevokedKind k = None" by simp
  qed
  obtain ns where ns: "map TicketHash ns = new" "list_all isNew ns" "steps ns (nodeView n1) (nodeView n)"
    "databaseUndoUpdate n = databaseUndoUpdate n1 @ ns" "sameBlock n1 n" "goodNode n"
    using new_spec [OF s(7) keys n1(2)] by blast
  have "databaseUndoUpdate n = ws @ es @ rs @ ns" by (simp add: s(1) ns(4))
  from that [OF this s(2-4) ns(2) s(5,6) ns(3,6) sameBlock_trans [OF s(8) ns(5)] ns(1) s(9-12)] show thesis .
qed

text \<open>If the revoked tickets were missed before the block, no ticket is moved twice.\<close>

lemma moveTickets_moves:
  assumes "goodNode p" "list_all (freshTicket p) new" "moveTickets rnd p header spent revoked new isKey = Inr n"
    "list_all (ExistsMissedTicket p) revoked"
  shows "moves (databaseUndoUpdate n) (nodeView p) (nodeView n)"
proof -
  have wf: "wf_node p" using assms(1) by (simp add: goodNode_def)
  obtain ws es rs ns \<rho>1 \<rho>2 where s: "databaseUndoUpdate n = ws @ es @ rs @ ns" "list_all (winnerEntry spent) ws" "list_all expiredEntry es"
    "list_all revokedEntry rs" "list_all isNew ns" "steps (ws @ es) (nodeView p) \<rho>1" "steps rs \<rho>1 \<rho>2" "steps ns \<rho>2 (nodeView n)"
    "map TicketHash ns = new" "map TicketHash rs = (if stakeEnabled p header then revoked else [])"
    by (rule moveTickets_spec [OF assms(1-3)])
  have "list_all (\<lambda>u. winnerEntry spent u \<or> expiredEntry u) (ws @ es)" using s(2,3) by (auto simp: list_all_iff)
  note le = steps_live [OF this s(6)]
  have rk: "nodeView p MissedKind k \<noteq> None" if "k \<in> TicketHash ` set rs" for k
  proof -
    have "k \<in> set revoked" using that s(10) by (metis empty_iff list.set(1) list.set_map)
    then have "Has (missedTickets p) k" using assms(4) by (simp add: list_all_iff ExistsMissedTicket_def)
    moreover have "wf_treap (missedTickets p)" using wf by (metis wf_node_def nodeTreap.simps(2))
    ultimately show ?thesis by (simp add: nodeView_def imm.has_map domIff)
  qed
  have nk: "nodeView p b k = None" if "k \<in> TicketHash ` set ns" for b k
    using that s(9) assms(2) freshTicket_view [OF wf] by (metis list.set_map list_all_iff)
  have lr: "k \<notin> TicketHash ` set rs" if k: "k \<in> TicketHash ` set (ws @ es)" for k
  proof -
    obtain v where "nodeView p Live k = Some v" using le(2) [OF k] by blast
    from okAt_live(6) [OF assms(1) this] rk [of k] show ?thesis by metis
  qed
  have ln: "k \<notin> TicketHash ` set ns" if k: "k \<in> TicketHash ` set (ws @ es)" for k using le(2) [OF k] nk [of k Live] by metis
  have rn: "k \<notin> TicketHash ` set ns" if k: "k \<in> TicketHash ` set rs" for k using rk [OF k] nk [of k MissedKind] by metis
  have "distinct (map TicketHash (ws @ es) @ map TicketHash rs @ map TicketHash ns)"
    unfolding distinct_append set_append set_map
    using le(1) steps_revoked(1) [OF s(4,7)] steps_new(1) [OF s(5,8)] lr ln rn by (intro conjI) (simp_all add: disjoint_iff)
  then have "distinct (map TicketHash (databaseUndoUpdate n))" unfolding s(1) by simp
  moreover have "steps (databaseUndoUpdate n) (nodeView p) (nodeView n)"
    using s(6-8) unfolding s(1) by (metis append_assoc steps_append)
  ultimately show ?thesis by (rule steps_moves [rotated])
qed

end
