(* ===== verification/TicketChain.thy ===== *)
theory TicketChain
  imports TicketMoves
begin

unbundle bit_operations_syntax

text \<open>
  Chains of stake nodes: the nodes that connecting blocks to the genesis node gives, by an inductive
  relation. The invariant of every such node, the exact sets of tickets that a block moves, and that
  disconnecting a block gives the parent node again.
\<close>

section \<open>The next winners\<close>

lemma liftErr_simps [simp]:
  "liftErr f (Inr x) = Inr x" "liftErr f r = Inr x \<longleftrightarrow> r = Inr x" "liftErr f (raise e) = raise (f e)" "liftErr f panic = panic"
  by (auto simp: liftErr_def split: sum.splits failure.splits)

lemma derefAll_Some: "derefAll (map (\<lambda>i. Some (f i)) is) = Inr (map f is)"
  by (induction "is") simp_all

definition drawSource :: "(bytes \<Rightarrow> bytes) \<Rightarrow> BlockHeader \<Rightarrow> Node \<Rightarrow> (lottery_error, int list \<times> Hash256PRNG) result option" where
  "drawSource hashH header n =
     findTicketIdxs hashH (Len (liveTickets n)) (TicketsPerBlock (nodeParams n)) (NewHash256PRNG hashH (BlockHeader_Bytes header))"

lemma wf_live: "wf_node n \<Longrightarrow> wf_treap (liveTickets n)"
  by (metis wf_node_def nodeTreap.simps(1))

lemma nodeView_Live: "nodeView n Live k = Get (liveTickets n) k" if "wf_node n"
  using imm.get_map [OF wf_live [OF that]] by (simp add: nodeView_def)

lemma drawWinners_spec:
  assumes "wf_node n" "size (root (liveTickets n)) < 2 ^ 63" "drawWinners hashH p header isKey n = Some (Inr n')"
  obtains idxs prng winners where "drawSource hashH header n = Some (Inr (idxs, prng))"
    "n' = n\<lparr>nextWinners := winners, finalState := finalStateOf hashH winners prng\<rparr>" "length winners = unat (TicketsPerBlock (nodeParams n))"
    "isKey \<Longrightarrow> distinct winners \<and> (\<forall>k \<in> set winners. nodeView n Live k \<noteq> None)"
    "\<not> isKey \<Longrightarrow> winners = take (unat (TicketsPerBlock (nodeParams n))) (nextWinners p)"
proof -
  note wf = wf_live [OF assms(1)]
  let ?es = "entries (root (liveTickets n))"
  obtain idxs prng keys winners where d: "drawSource hashH header n = Some (Inr (idxs, prng))"
    "fetchWinners (if idxs = [] then None else Some idxs) (liveTickets n) = Inr keys" "selectWinners isKey p keys = (Inr winners :: (stake_error, bytes list) result)"
    "n' = n\<lparr>nextWinners := winners, finalState := finalStateOf hashH winners prng\<rparr>"
    using assms(3) by (auto simp: drawWinners_def drawSource_def bindE_eq_Inr split: option.splits)
  note f = findTicketIdxs_sound [OF d(1) [unfolded drawSource_def]]
  have ne: "idxs \<noteq> []" using d(2) by (auto simp: fetchWinners_def)
  have keys: "keys = map (\<lambda>i. Some (fst (?es ! nat i))) idxs"
    using fetchWinners_eq [OF wf assms(2) ne f(1,3)] d(2) ne by simp
  have len: "Len (liveTickets n) = int (length ?es)" using wf assms(2) by (simp add: wf_treap_def Len_def wrap64_id)
  have dk: "distinct (map fst ?es)" using wf by (auto simp: wf_treap_def bst_def strict_sorted_iff)
  show thesis
  proof (rule that [OF d(1,4)])
    show "length winners = unat (TicketsPerBlock (nodeParams n))"
      using d(3) f(2) by (auto simp: selectWinners_def keys derefAll_Some split: if_splits)
    show "winners = take (unat (TicketsPerBlock (nodeParams n))) (nextWinners p)" if "\<not> isKey"
      using d(3) f(2) that by (auto simp: selectWinners_def keys split: if_splits)
    show "distinct winners \<and> (\<forall>k \<in> set winners. nodeView n Live k \<noteq> None)" if "isKey"
    proof -
      have "winners = map (\<lambda>i. fst (?es ! nat i)) idxs" using d(3) that by (simp add: selectWinners_def keys derefAll_Some)
      also have "\<dots> = map (\<lambda>i. map fst ?es ! nat i) idxs" by (rule map_cong) (use f(3) len in \<open>auto simp: nat_less_iff\<close>)
      finally have w: "winners = map (\<lambda>i. map fst ?es ! nat i) idxs" .
      have "inj_on (\<lambda>i. map fst ?es ! nat i) (set idxs)"
        using dk f(3) len by (intro inj_onI) (metis length_map nat_less_iff nth_eq_iff_index_eq int_nat_eq nat_eq_iff)
      then have "distinct winners" using f(1) by (simp add: w distinct_map)
      moreover have "nodeView n Live k \<noteq> None" if kw: "k \<in> set winners" for k
      proof -
        obtain i where "i \<in> set idxs" "k = map fst ?es ! nat i" using kw unfolding w set_map by blast
        moreover from this(1) have "nat i < length (map fst ?es)" using f(3) len by (auto simp: nat_less_iff)
        ultimately have "k \<in> set (map fst ?es)" using nth_mem by blast
        then show ?thesis by (auto simp: nodeView_def contents_def map_of_eq_None_iff)
      qed
      ultimately show ?thesis by blast
    qed
  qed
qed

section \<open>Connecting as a whole\<close>

definition drawsWinners :: "stakeParams \<Rightarrow> BlockHeader \<Rightarrow> bool \<Rightarrow> bool" where
  "drawsWinners params header isKey \<longleftrightarrow> realKeyHeight header isKey \<ge> word_of_int (StakeValidationHeight params - 1)"

text \<open>What the winners and the final state of a connected node are.\<close>

definition drawnFor :: "(bytes \<Rightarrow> bytes) \<Rightarrow> Node \<Rightarrow> BlockHeader \<Rightarrow> bool \<Rightarrow> Node \<Rightarrow> bool" where
  "drawnFor hashH p header isKey n \<longleftrightarrow>
     (if drawsWinners (nodeParams p) header isKey
     then length (nextWinners n) = unat (TicketsPerBlock (nodeParams n)) \<and>
       (\<exists>idxs prng. drawSource hashH header n = Some (Inr (idxs, prng)) \<and> finalState n = finalStateOf hashH (nextWinners n) prng) \<and>
       (if isKey then distinct (nextWinners n) \<and> (\<forall>k \<in> set (nextWinners n). nodeView n Live k \<noteq> None)
        else nextWinners n = take (unat (TicketsPerBlock (nodeParams n))) (nextWinners p))
     else nextWinners n = [] \<and> finalState n = replicate 6 0)"

lemma connect_spec:
  assumes "goodNode p" "list_all (freshTicket p) new" "connectNode hashH rnd (Some p) header spent revoked new isKey = Some (Inr n)"
    "size (root (liveTickets n)) < 2 ^ 63"
  obtains m where "moveTickets rnd p header spent revoked new isKey = Inr m" "nodeView n = nodeView m" "goodNode n"
    "databaseUndoUpdate n = databaseUndoUpdate m" "height n = height p + 1" "keyHeight n = bh_KeyHeight header"
    "databaseBlockTickets n = new" "nodeParams n = nodeParams p"
    "drawnFor hashH p header isKey n"
proof -
  obtain m where m: "moveTickets rnd p header spent revoked new isKey = Inr m"
    "(if drawsWinners (nodeParams m) header isKey then drawWinners hashH p header isKey m else Some (Inr m)) = Some (Inr n)"
    using assms(3) by (auto simp: connectNode_def drawsWinners_def split: sum.splits)
  have "goodNode m \<and> sameBlock (childNode p header new) m" by (rule moveTickets_spec [OF assms(1,2) m(1)]) blast
  then have gm: "goodNode m" "wf_node m" and bl: "nodeParams m = nodeParams p" "height m = height p + 1" "keyHeight m = bh_KeyHeight header"
    "databaseBlockTickets m = new" "nextWinners m = []" "finalState m = replicate 6 0"
    using sameBlock_fields [of "childNode p header new" m] by (auto simp: goodNode_def)
  show thesis
  proof (cases "drawsWinners (nodeParams p) header isKey")
    case False
    then have "n = m" using m(2) bl(1) by simp
    with that [OF m(1)] False gm(1) bl show thesis by (simp add: drawnFor_def)
  next
    case True
    then have d: "drawWinners hashH p header isKey m = Some (Inr n)" using m(2) bl(1) by simp
    then have "\<exists>w f. n = m\<lparr>nextWinners := w, finalState := f\<rparr>"
      by (auto simp: drawWinners_def bindE_eq_Inr split: option.splits)
    then have "liveTickets n = liveTickets m" by auto
    then have sz: "size (root (liveTickets m)) < 2 ^ 63" using assms(4) by simp
    show thesis
    proof (rule drawWinners_spec [OF gm(2) sz d])
      fix idxs prng winners
      assume w: "drawSource hashH header m = Some (Inr (idxs, prng))"
        "n = m\<lparr>nextWinners := winners, finalState := finalStateOf hashH winners prng\<rparr>" "length winners = unat (TicketsPerBlock (nodeParams m))"
        "isKey \<Longrightarrow> distinct winners \<and> (\<forall>k \<in> set winners. nodeView m Live k \<noteq> None)"
        "\<not> isKey \<Longrightarrow> winners = take (unat (TicketsPerBlock (nodeParams m))) (nextWinners p)"
      have src: "drawSource hashH header n = Some (Inr (idxs, prng))" using w(1,2) by (simp add: drawSource_def)
      show thesis by (rule that [OF m(1)]) (use True w(2-5) gm bl src in \<open>auto simp: goodNode_def drawnFor_def\<close>)
    qed
  qed
qed

section \<open>Nodes of a chain\<close>

text \<open>
  The nodes that connecting blocks to the genesis node gives, with the header of the last block and
  whether it is a key block. No winners are drawn for the genesis block, the key height in a header counts the key blocks before it, the new
  tickets of a block are not known yet, and the 32 bit height and pool size do not overflow.
\<close>

inductive onChain :: "(bytes \<Rightarrow> bytes) \<Rightarrow> stakeParams \<Rightarrow> BlockHeader \<Rightarrow> bool \<Rightarrow> Node \<Rightarrow> bool"
  for hashH :: "bytes \<Rightarrow> bytes" and params :: stakeParams where
  genesis: "\<not> drawsWinners params header isKey \<Longrightarrow> onChain hashH params header isKey (genesisNode params)"
| connect: "onChain hashH params parent parentKey p \<Longrightarrow> bh_KeyHeight header = realKeyHeight parent parentKey \<Longrightarrow> height p \<noteq> - 1 \<Longrightarrow>
    list_all (freshTicket p) new \<Longrightarrow> connectNode hashH rnd (Some p) header spent revoked new isKey = Some (Inr n) \<Longrightarrow>
    size (root (liveTickets n)) < 2 ^ 32 \<Longrightarrow> onChain hashH params header isKey n"

definition nodeInv :: "Node \<Rightarrow> bool" where
  "nodeInv n \<longleftrightarrow> goodNode n \<and> distinct (nextWinners n) \<and> list_all (ExistsLiveTicket n) (nextWinners n) \<and>
     (nextWinners n = [] \<or> length (nextWinners n) = unat (TicketsPerBlock (nodeParams n)))"

lemma exists_view:
  assumes "wf_node n"
  shows "ExistsLiveTicket n k \<longleftrightarrow> nodeView n Live k \<noteq> None"
  using imm.has_map [OF wf_live [OF assms]] by (simp add: ExistsLiveTicket_def nodeView_def domIff)

lemma steps_keep_live:
  "list_all (\<lambda>u. revokedEntry u \<or> isNew u) us \<Longrightarrow> steps us \<sigma> \<tau> \<Longrightarrow> \<sigma> Live k \<noteq> None \<Longrightarrow> \<tau> Live k \<noteq> None"
proof (induction us arbitrary: \<sigma>)
  case (Cons u us)
  from Cons.prems(2) obtain g where g: "moved u (viewAt \<sigma> (TicketHash u)) g" "steps us (replaceAt \<sigma> (TicketHash u) g) \<tau>" by auto
  have "g Live \<noteq> None" if "k = TicketHash u"
    using Cons.prems(1,3) that entry_moves(2,3) [OF _ g(1)] by (auto simp: viewAt_def)
  then have "replaceAt \<sigma> (TicketHash u) g Live k \<noteq> None" using Cons.prems(3) by (simp add: replaceAt_def)
  with Cons.IH [OF _ g(2)] Cons.prems(1) show ?case by simp
qed simp

lemma genesis_good: "goodNode (genesisNode params)"
proof -
  have "nodeTreap b (genesisNode params) = NewImmutable" for b by (cases b) (simp_all add: genesisNode_def)
  then show ?thesis by (simp add: goodNode_def wf_node_def nodeView_def wf_NewImmutable okAt_def viewAt_def)
qed

lemma connect_inv:
  assumes "nodeInv p" "list_all (freshTicket p) new" "connectNode hashH rnd (Some p) header spent revoked new isKey = Some (Inr n)"
    "size (root (liveTickets n)) < 2 ^ 32"
  shows "nodeInv n"
proof -
  have gp: "goodNode p" "wf_node p" using assms(1) by (simp_all add: nodeInv_def goodNode_def)
  have sz: "size (root (liveTickets n)) < 2 ^ 63" using assms(4) by simp
  show ?thesis
  proof (rule connect_spec [OF gp(1) assms(2,3) sz])
    fix m
    assume m: "moveTickets rnd p header spent revoked new isKey = Inr m" "nodeView n = nodeView m" "goodNode n" "nodeParams n = nodeParams p"
      and d: "drawnFor hashH p header isKey n"
    have wn: "wf_node n" using m(3) by (simp add: goodNode_def)
    have "distinct (nextWinners n) \<and> (\<forall>k \<in> set (nextWinners n). nodeView n Live k \<noteq> None)"
    proof (cases "drawsWinners (nodeParams p) header isKey \<and> \<not> isKey")
      case True
      then have w: "nextWinners n = take (unat (TicketsPerBlock (nodeParams n))) (nextWinners p)" using d by (simp add: drawnFor_def split: if_splits)
      have keep: "nodeView n Live k \<noteq> None" if "nodeView p Live k \<noteq> None" for k
      proof (rule moveTickets_spec [OF gp(1) assms(2) m(1)])
        fix ws es rs ns \<rho>1 \<rho>2
        assume s: "list_all revokedEntry rs" "list_all isNew ns" "steps (ws @ es) (nodeView p) \<rho>1" "steps rs \<rho>1 \<rho>2" "steps ns \<rho>2 (nodeView m)"
          "map TicketHash ws = (if stakeEnabled p header \<and> isKey then nextWinners p else [])"
          "TicketHash ` set es = (if stakeEnabled p header \<and> isKey then expiredKeys p header else {})"
        have "ws = []" "es = []" using s(6,7) True by simp_all
        then have "steps (rs @ ns) (nodeView p) (nodeView m)" using s(3-5) by (auto simp: steps_append)
        moreover have "list_all (\<lambda>u. revokedEntry u \<or> isNew u) (rs @ ns)" using s(1,2) by (auto simp: list_all_iff)
        ultimately show ?thesis using steps_keep_live that by (metis m(2))
      qed
      have "\<forall>k \<in> set (nextWinners p). nodeView p Live k \<noteq> None" "distinct (nextWinners p)"
        using assms(1) exists_view [OF gp(2)] by (auto simp: nodeInv_def list_all_iff)
      then show ?thesis using keep unfolding w by (meson distinct_take in_set_takeD)
    qed (use d in \<open>auto simp: drawnFor_def split: if_splits\<close>)
    moreover have "nextWinners n = [] \<or> length (nextWinners n) = unat (TicketsPerBlock (nodeParams n))" using d by (auto simp: drawnFor_def split: if_splits)
    ultimately show ?thesis using m(3) exists_view [OF wn] by (simp add: nodeInv_def list_all_iff)
  qed
qed

lemma onChain_inv: "onChain hashH params header isKey n \<Longrightarrow> nodeInv n"
proof (induction rule: onChain.induct)
  case genesis
  then show ?case using genesis_good by (simp add: nodeInv_def genesisNode_def)
qed (rule connect_inv)

text \<open>
  C11. In every node of a chain the live, missed and revoked tickets are disjoint and carry the flags of
  their kind, the treaps that hold them are well formed, and the next winners are as many different
  live tickets as the parameters ask for, or none.
\<close>

theorem stake_node_invariant:
  assumes "onChain hashH params header isKey n"
  shows "nodeInv n"
  using assms by (rule onChain_inv)

section \<open>Which tickets a block moves\<close>

definition kindSet :: "Node \<Rightarrow> ticketKind \<Rightarrow> bytes set" where
  "kindSet n b = dom (treapMap (nodeTreap b n))"

lemma kindSet_view: "k \<in> kindSet n b \<longleftrightarrow> nodeView n b k \<noteq> None"
  by (simp add: kindSet_def nodeView_def domIff)

lemma moves_at:
  assumes "moves us \<sigma> \<tau>"
  obtains (moved) u where "u \<in> set us" "TicketHash u = k" "moved u (viewAt \<sigma> k) (viewAt \<tau> k)"
  | (kept) "k \<notin> TicketHash ` set us" "viewAt \<tau> k = viewAt \<sigma> k"
  using assms by (auto simp: moves_def)

lemma moves_live:
  assumes "moves us \<sigma> \<tau>" "list_all (\<lambda>u. winnerEntry spent u \<or> expiredEntry u) us"
  shows "\<tau> Live k \<noteq> None \<longleftrightarrow> \<sigma> Live k \<noteq> None \<and> k \<notin> TicketHash ` set us" "\<tau> RevokedKind k = \<sigma> RevokedKind k"
    "\<tau> MissedKind k \<noteq> None \<longleftrightarrow> \<sigma> MissedKind k \<noteq> None \<or> k \<in> TicketHash ` {u \<in> set us. u_Missed u}"
proof -
  have inj: "u = v" if "u \<in> set us" "v \<in> set us" "TicketHash u = TicketHash v" for u v
    using assms(1) that by (auto simp: moves_def distinct_map inj_on_def)
  have "(\<tau> Live k \<noteq> None \<longleftrightarrow> \<sigma> Live k \<noteq> None \<and> k \<notin> TicketHash ` set us) \<and> \<tau> RevokedKind k = \<sigma> RevokedKind k \<and>
    (\<tau> MissedKind k \<noteq> None \<longleftrightarrow> \<sigma> MissedKind k \<noteq> None \<or> k \<in> TicketHash ` {u \<in> set us. u_Missed u})"
  proof (rule moves_at [OF assms(1), of k])
    fix u assume u: "u \<in> set us" "TicketHash u = k" "moved u (viewAt \<sigma> k) (viewAt \<tau> k)"
    have k: "k \<in> TicketHash ` set us" using u(1,2) by blast
    have e: "winnerEntry spent u \<or> expiredEntry u" using assms(2) u(1) by (auto simp: list_all_iff)
    have km: "k \<in> TicketHash ` {u \<in> set us. u_Missed u} \<longleftrightarrow> u_Missed u" using u(1,2) inj by blast
    have v: "viewAt \<sigma> k b = \<sigma> b k" "viewAt \<tau> k b = \<tau> b k" for b by (simp_all add: viewAt_def)
    show ?thesis
    proof (cases "u_Missed u")
      case True
      then have "viewAt \<tau> k = (viewAt \<sigma> k)(Live := None, MissedKind \<mapsto> undoValue u)"
        using e u(3) by (auto simp: moved_def winnerEntry_def expiredEntry_def isNew_def Let_def)
      then show ?thesis using k km True by (simp flip: v)
    next
      case False
      then have "viewAt \<tau> k = (viewAt \<sigma> k)(Live := None)"
        using e u(3) by (auto simp: moved_def winnerEntry_def expiredEntry_def isNew_def Let_def)
      then show ?thesis using k km False by (simp flip: v)
    qed
  next
    assume k: "k \<notin> TicketHash ` set us" "viewAt \<tau> k = viewAt \<sigma> k"
    then have "\<tau> b k = \<sigma> b k" for b by (simp add: viewAt_def fun_eq_iff)
    with k(1) show ?thesis by auto
  qed
  then show "\<tau> Live k \<noteq> None \<longleftrightarrow> \<sigma> Live k \<noteq> None \<and> k \<notin> TicketHash ` set us" "\<tau> RevokedKind k = \<sigma> RevokedKind k"
    "\<tau> MissedKind k \<noteq> None \<longleftrightarrow> \<sigma> MissedKind k \<noteq> None \<or> k \<in> TicketHash ` {u \<in> set us. u_Missed u}" by blast+
qed

lemma moves_revoked:
  assumes "moves us \<sigma> \<tau>" "list_all revokedEntry us"
  shows "\<tau> Live k = \<sigma> Live k" "\<tau> MissedKind k \<noteq> None \<longleftrightarrow> \<sigma> MissedKind k \<noteq> None \<and> k \<notin> TicketHash ` set us"
    "\<tau> RevokedKind k \<noteq> None \<longleftrightarrow> \<sigma> RevokedKind k \<noteq> None \<or> k \<in> TicketHash ` set us"
proof -
  have "\<tau> Live k = \<sigma> Live k \<and> (\<tau> MissedKind k \<noteq> None \<longleftrightarrow> \<sigma> MissedKind k \<noteq> None \<and> k \<notin> TicketHash ` set us) \<and>
    (\<tau> RevokedKind k \<noteq> None \<longleftrightarrow> \<sigma> RevokedKind k \<noteq> None \<or> k \<in> TicketHash ` set us)"
  proof (rule moves_at [OF assms(1), of k])
    fix u assume u: "u \<in> set us" "TicketHash u = k" "moved u (viewAt \<sigma> k) (viewAt \<tau> k)"
    have v: "viewAt \<sigma> k b = \<sigma> b k" "viewAt \<tau> k b = \<tau> b k" for b by (simp_all add: viewAt_def)
    have "revokedEntry u" using assms(2) u(1) by (simp add: list_all_iff)
    then have "viewAt \<tau> k = (viewAt \<sigma> k)(MissedKind := None, RevokedKind \<mapsto> undoValue u)"
      using u(3) by (simp add: moved_def revokedEntry_def isNew_def Let_def)
    moreover have "k \<in> TicketHash ` set us" using u(1,2) by blast
    ultimately show ?thesis by (simp flip: v)
  next
    assume k: "k \<notin> TicketHash ` set us" "viewAt \<tau> k = viewAt \<sigma> k"
    then have "\<tau> b k = \<sigma> b k" for b by (simp add: viewAt_def fun_eq_iff)
    with k(1) show ?thesis by auto
  qed
  then show "\<tau> Live k = \<sigma> Live k" "\<tau> MissedKind k \<noteq> None \<longleftrightarrow> \<sigma> MissedKind k \<noteq> None \<and> k \<notin> TicketHash ` set us"
    "\<tau> RevokedKind k \<noteq> None \<longleftrightarrow> \<sigma> RevokedKind k \<noteq> None \<or> k \<in> TicketHash ` set us" by blast+
qed

lemma moves_new:
  assumes "moves us \<sigma> \<tau>" "list_all isNew us"
  shows "\<tau> Live k \<noteq> None \<longleftrightarrow> \<sigma> Live k \<noteq> None \<or> k \<in> TicketHash ` set us" "b \<noteq> Live \<Longrightarrow> \<tau> b k = \<sigma> b k"
proof -
  have "(\<tau> Live k \<noteq> None \<longleftrightarrow> \<sigma> Live k \<noteq> None \<or> k \<in> TicketHash ` set us) \<and> (b \<noteq> Live \<longrightarrow> \<tau> b k = \<sigma> b k)"
  proof (rule moves_at [OF assms(1), of k])
    fix u assume u: "u \<in> set us" "TicketHash u = k" "moved u (viewAt \<sigma> k) (viewAt \<tau> k)"
    have v: "viewAt \<sigma> k b = \<sigma> b k" "viewAt \<tau> k b = \<tau> b k" for b by (simp_all add: viewAt_def)
    have "isNew u" using assms(2) u(1) by (simp add: list_all_iff)
    then have "viewAt \<tau> k = (viewAt \<sigma> k)(Live \<mapsto> undoValue u)" using u(3) by (simp add: moved_def Let_def)
    moreover have "k \<in> TicketHash ` set us" using u(1,2) by blast
    ultimately show ?thesis by (simp flip: v)
  next
    assume k: "k \<notin> TicketHash ` set us" "viewAt \<tau> k = viewAt \<sigma> k"
    then have "\<tau> b k = \<sigma> b k" for b by (simp add: viewAt_def fun_eq_iff)
    with k(1) show ?thesis by auto
  qed
  then show "\<tau> Live k \<noteq> None \<longleftrightarrow> \<sigma> Live k \<noteq> None \<or> k \<in> TicketHash ` set us" "b \<noteq> Live \<Longrightarrow> \<tau> b k = \<sigma> b k" by blast+
qed

lemma connect_sets:
  assumes "nodeInv p" "list_all (freshTicket p) new" "connectNode hashH rnd (Some p) header spent revoked new isKey = Some (Inr n)"
    "size (root (liveTickets n)) < 2 ^ 32"
  defines "winners \<equiv> (if stakeEnabled p header \<and> isKey then set (nextWinners p) else {})"
    and "expired \<equiv> (if stakeEnabled p header \<and> isKey then expiredKeys p header else {})"
    and "revs \<equiv> (if stakeEnabled p header then set revoked else {})"
  shows "kindSet n Live = (kindSet p Live - winners - expired) \<union> set new"
    "kindSet n MissedKind = (kindSet p MissedKind \<union> (winners - set spent) \<union> expired) - revs"
    "kindSet n RevokedKind = kindSet p RevokedKind \<union> revs"
proof -
  have gp: "goodNode p" using assms(1) by (simp add: nodeInv_def)
  have sz: "size (root (liveTickets n)) < 2 ^ 63" using assms(4) by simp
  obtain m where m: "moveTickets rnd p header spent revoked new isKey = Inr m" "nodeView n = nodeView m"
    by (rule connect_spec [OF gp assms(2,3) sz])
  obtain ws es rs ns \<rho>1 \<rho>2 where s: "list_all (winnerEntry spent) ws" "list_all expiredEntry es"
    "list_all revokedEntry rs" "list_all isNew ns" "steps (ws @ es) (nodeView p) \<rho>1" "steps rs \<rho>1 \<rho>2" "steps ns \<rho>2 (nodeView n)"
    "map TicketHash ns = new" "map TicketHash ws = (if stakeEnabled p header \<and> isKey then nextWinners p else [])"
    "map TicketHash rs = (if stakeEnabled p header then revoked else [])"
    "TicketHash ` set es = (if stakeEnabled p header \<and> isKey then expiredKeys p header else {})"
    unfolding m(2) by (rule moveTickets_spec [OF gp assms(2) m(1)])
  have le: "list_all (\<lambda>u. winnerEntry spent u \<or> expiredEntry u) (ws @ es)" using s(1,2) by (auto simp: list_all_iff)
  have mv: "moves (ws @ es) (nodeView p) \<rho>1" "moves rs \<rho>1 \<rho>2" "moves ns \<rho>2 (nodeView n)"
    using steps_moves [OF s(5) steps_live(1) [OF le s(5)]] steps_moves [OF s(6) steps_revoked(1) [OF s(3,6)]] steps_moves [OF s(7) steps_new(1) [OF s(4,7)]] .
  have W: "TicketHash ` set ws = winners" unfolding winners_def set_map [symmetric] s(9) by auto
  have E: "TicketHash ` set es = expired" using s(11) by (simp add: expired_def)
  have R: "TicketHash ` set rs = revs" unfolding revs_def set_map [symmetric] s(10) by simp
  have N: "TicketHash ` set ns = set new" using arg_cong [OF s(8), of set] by simp
  have "TicketHash ` {u \<in> set (ws @ es). u_Missed u} = (winners - set spent) \<union> expired"
    using s(1,2) unfolding W [symmetric] E [symmetric] by (auto simp: list_all_iff winnerEntry_def expiredEntry_def)
  note M = this
  note m1 = moves_live [OF mv(1) le] and m2 = moves_revoked [OF mv(2) s(3)] and m3 = moves_new [OF mv(3) s(4)]
  have "k \<in> kindSet n Live \<longleftrightarrow> k \<in> (kindSet p Live - winners - expired) \<union> set new" for k
    unfolding kindSet_view m3(1) m2(1) m1(1) N Un_iff Diff_iff set_append image_Un W E by blast
  then show "kindSet n Live = (kindSet p Live - winners - expired) \<union> set new" by blast
  have "k \<in> kindSet n MissedKind \<longleftrightarrow> k \<in> (kindSet p MissedKind \<union> (winners - set spent) \<union> expired) - revs" for k
    using m3(2) [of MissedKind k] m2(2) [of k] m1(3) [of k] unfolding kindSet_view M R Un_iff Diff_iff by simp
  then show "kindSet n MissedKind = (kindSet p MissedKind \<union> (winners - set spent) \<union> expired) - revs" by blast
  have "k \<in> kindSet n RevokedKind \<longleftrightarrow> k \<in> kindSet p RevokedKind \<union> revs" for k
    using m3(2) [of RevokedKind k] m1(2) [of k] m2(3) [of k] unfolding kindSet_view R Un_iff by simp
  then show "kindSet n RevokedKind = kindSet p RevokedKind \<union> revs" by blast
qed

text \<open>
  C6. Once stake is enabled, a key block takes the winners and the expired tickets from the live ones
  and adds the new tickets; winners that did not vote and expired tickets become missed; revoked
  tickets leave the missed ones for the revoked ones. Nothing else moves.
\<close>

theorem connect_ticket_sets:
  assumes "onChain hashH params parent parentKey p" "list_all (freshTicket p) new" "stakeEnabled p header"
    "connectNode hashH rnd (Some p) header spent revoked new True = Some (Inr n)" "size (root (liveTickets n)) < 2 ^ 32"
  shows "kindSet n Live = (kindSet p Live - set (nextWinners p) - expiredKeys p header) \<union> set new \<and>
    kindSet n MissedKind = (kindSet p MissedKind \<union> (set (nextWinners p) - set spent) \<union> expiredKeys p header) - set revoked \<and>
    kindSet n RevokedKind = kindSet p RevokedKind \<union> set revoked"
  using connect_sets [OF onChain_inv [OF assms(1)] assms(2,4,5)] assms(3) by simp

section \<open>Disconnecting undoes connecting\<close>

text \<open>Nodes that agree in everything but the shape of their treaps.\<close>

definition sameNode :: "Node \<Rightarrow> Node \<Rightarrow> bool" where
  "sameNode a b \<longleftrightarrow> nodeView a = nodeView b \<and> nodeRest a = nodeRest b"

definition wf_params :: "stakeParams \<Rightarrow> bool" where
  "wf_params params \<longleftrightarrow> 0 \<le> StakeEnabledHeight params \<and> StakeEnabledHeight params < StakeValidationHeight params \<and>
     StakeValidationHeight params < 2 ^ 32"

lemma onChain_last:
  "onChain hashH params header isKey n \<Longrightarrow> nodeParams n = params \<and> list_all (\<lambda>k. length k = 32) (databaseBlockTickets n) \<and>
     list_all (\<lambda>u. length (TicketHash u) = 32) (databaseUndoUpdate n) \<and>
     (n = genesisNode params \<or> height n \<noteq> 0 \<and> keyHeight n = bh_KeyHeight header) \<and>
     (if drawsWinners params header isKey
      then length (nextWinners n) = unat (TicketsPerBlock params) \<and>
        (\<exists>idxs prng. drawSource hashH header n = Some (Inr (idxs, prng)) \<and> finalState n = finalStateOf hashH (nextWinners n) prng)
      else nextWinners n = [] \<and> finalState n = replicate 6 0)"
proof (induction rule: onChain.induct)
  case (genesis header isKey)
  then show ?case by (simp add: genesisNode_def)
next
  case (connect parent parentKey p header new rnd spent revoked isKey n)
  have gp: "goodNode p" "wf_node p" using onChain_inv [OF connect.hyps(1)] by (simp_all add: nodeInv_def goodNode_def)
  have sz: "size (root (liveTickets n)) < 2 ^ 63" using connect.hyps(6) by simp
  show ?case
  proof (rule connect_spec [OF gp(1) connect.hyps(4,5) sz])
    fix m
    assume m: "moveTickets rnd p header spent revoked new isKey = Inr m" "databaseUndoUpdate n = databaseUndoUpdate m" "height n = height p + 1"
      "keyHeight n = bh_KeyHeight header" "databaseBlockTickets n = new" "nodeParams n = nodeParams p" and d: "drawnFor hashH p header isKey n"
    have "length k = 32" if "k \<in> set new" for k using connect.hyps(4) that freshTicket_view [OF gp(2)] by (auto simp: list_all_iff)
    moreover have "list_all (\<lambda>u. length (TicketHash u) = 32) (databaseUndoUpdate m)"
    proof -
      have st: "steps us \<sigma> \<tau> \<Longrightarrow> list_all (\<lambda>u. length (TicketHash u) = 32) us" for us \<sigma> \<tau> by (induction us arbitrary: \<sigma>) auto
      show ?thesis by (rule moveTickets_spec [OF gp(1) connect.hyps(4) m(1)]) (use st in \<open>fastforce\<close>)
    qed
    moreover have "height p + 1 \<noteq> 0" using connect.hyps(3) by (metis add.right_neutral add_diff_cancel_right' diff_0)
    ultimately show ?thesis using m(2-6) d connect.IH by (auto simp: drawnFor_def list_all_iff)
  qed
qed

lemma draws_next:
  assumes "wf_params params" "bh_KeyHeight header = realKeyHeight parent parentKey" "bh_KeyHeight header \<noteq> - 1"
  shows "bh_KeyHeight header + 1 \<ge> word_of_int (StakeValidationHeight params) \<longleftrightarrow> drawsWinners params parent parentKey"
    "bh_KeyHeight header \<ge> word_of_int (StakeValidationHeight params - 1) \<longleftrightarrow> drawsWinners params parent parentKey"
    "drawsWinners params parent parentKey \<Longrightarrow> bh_KeyHeight header \<ge> word_of_int (StakeEnabledHeight params)"
proof -
  let ?w = "bh_KeyHeight header" and ?v = "StakeValidationHeight params"
  have u: "uint (word_of_int x :: 32 word) = x" if "0 \<le> x" "x < 2 ^ 32" for x using that by (simp add: uint_word_of_int take_bit_int_eq_self)
  have v1: "uint (word_of_int ?v - 1 :: 32 word) = ?v - 1" using u [of "?v - 1"] assms(1) by (simp add: wf_params_def)
  have "uint (- 1 :: 32 word) = 2 ^ 32 - 1" by (simp add: unsigned_minus_1_eq_mask mask_eq_exp_minus_1)
  then have "uint ?w \<noteq> 2 ^ 32 - 1" using assms(3) by (metis word_uint_eq_iff)
  then have "uint ?w + 1 < 2 ^ 32" using uint_lt2p [of ?w] by simp
  then have "uint (?w + 1) = uint ?w + 1" by (simp add: uint_word_ariths)
  then show "?w + 1 \<ge> word_of_int ?v \<longleftrightarrow> drawsWinners params parent parentKey"
    using assms(1,2) by (auto simp: drawsWinners_def wf_params_def word_le_def u v1)
  show "?w \<ge> word_of_int (?v - 1) \<longleftrightarrow> drawsWinners params parent parentKey" using assms(2) by (simp add: drawsWinners_def)
  show "drawsWinners params parent parentKey \<Longrightarrow> ?w \<ge> word_of_int (StakeEnabledHeight params)"
    using assms(1,2) by (auto simp: drawsWinners_def wf_params_def word_le_def u v1)
qed

lemma undo_winners:
  assumes "list_all (winnerEntry spent) ws" "list_all expiredEntry es" "list_all revokedEntry rs" "list_all isNew ns"
  shows "concat (map winnerOf (ws @ es @ rs @ ns)) = map TicketHash ws"
proof -
  have "concat (map winnerOf ws) = map TicketHash ws"
    using assms(1) by (induction ws) (auto simp: winnerOf_def winnerEntry_def isNew_def)
  moreover have "concat (map winnerOf es) = []" "concat (map winnerOf rs) = []" "concat (map winnerOf ns) = []"
    using assms(2-4) by (auto simp: list_all_iff winnerOf_def expiredEntry_def revokedEntry_def)
  ultimately show ?thesis by simp
qed

lemma sameView_Len: "wf_node a \<Longrightarrow> wf_node b \<Longrightarrow> nodeView a = nodeView b \<Longrightarrow> Len (nodeTreap c a) = Len (nodeTreap c b)"
  by (metis Len_map nodeView_def wf_node_def)

lemma restoredNode_simps:
  "nodeView (restoredNode n parent utds tickets) = nodeView n" "wf_node (restoredNode n parent utds tickets) = wf_node n"
proof -
  have t: "nodeTreap b (restoredNode n parent utds tickets) = nodeTreap b n" for b by (cases b) (simp_all add: restoredNode_def)
  show "nodeView (restoredNode n parent utds tickets) = nodeView n" "wf_node (restoredNode n parent utds tickets) = wf_node n"
    by (simp_all add: nodeView_def wf_node_def t fun_eq_iff)
qed

lemma restoreFinalState_eq:
  assumes "wf_node a" "wf_node b" "nodeView a = nodeView b" "nodeParams a = nodeParams b" "drawSource hashH header b = Some (Inr (idxs, prng))"
  shows "restoreFinalState hashH header a = Some (Inr (a\<lparr>finalState := finalStateOf hashH (nextWinners a) prng\<rparr>))"
proof -
  have "Len (liveTickets a) = Len (liveTickets b)" using sameView_Len [OF assms(1-3), of Live] by simp
  with assms(4,5) show ?thesis by (simp add: restoreFinalState_def drawSource_def)
qed

text \<open>Reverting the entries of a block on the restored node.\<close>

lemma disconnect_tickets:
  assumes "goodNode p" "list_all (freshTicket p) new" "list_all (ExistsMissedTicket p) revoked"
    "moveTickets rnd p header spent revoked new isKey = Inr m" "nodeView n = nodeView m" "goodNode n" "databaseUndoUpdate n = databaseUndoUpdate m"
  shows "\<exists>r. undoAll rnd' (databaseUndoUpdate n) (restoredNode n parent utds tickets) = Inr r \<and> wf_node r \<and> nodeView r = nodeView p \<and>
    nodeRest r = nodeRest ((restoredNode n parent utds tickets)\<lparr>nextWinners := if stakeEnabled p header \<and> isKey then nextWinners p else []\<rparr>)"
proof -
  let ?r = "restoredNode n parent utds tickets"
  have mv: "moves (databaseUndoUpdate n) (nodeView p) (nodeView ?r)"
    using moveTickets_moves [OF assms(1,2,4,3)] assms(5,7) by (simp add: restoredNode_simps)
  have "wf_node ?r" using assms(6) by (simp add: restoredNode_simps goodNode_def)
  from undoAll_moves [OF this mv, of rnd'] obtain r where r: "undoAll rnd' (databaseUndoUpdate n) ?r = Inr r" "wf_node r" "nodeView r = nodeView p"
    "nodeRest r = nodeRest (?r\<lparr>nextWinners := nextWinners ?r @ concat (map winnerOf (databaseUndoUpdate n))\<rparr>)" by blast
  have "concat (map winnerOf (databaseUndoUpdate n)) = (if stakeEnabled p header \<and> isKey then nextWinners p else [])"
    unfolding assms(7) by (rule moveTickets_spec [OF assms(1,2,4)]) (simp only: undo_winners)
  with r show ?thesis by (simp add: restoredNode_def)
qed

text \<open>The winners of the parent, from the undo data of a key block or from the node of any other block.\<close>

lemma winners_restored:
  assumes "wf_params params" "bh_KeyHeight header = realKeyHeight parent parentKey" "bh_KeyHeight header \<noteq> - 1" "nodeParams p = params"
    "nodeParams n = params" "drawnFor hashH p header isKey n"
    "if drawsWinners params parent parentKey then length (nextWinners p) = unat (TicketsPerBlock params) else nextWinners p = []"
  shows "(if isKey then if stakeEnabled p header then nextWinners p else [] else nextWinners n) = nextWinners p"
proof (cases isKey)
  case True
  then show ?thesis using draws_next(3) [OF assms(1-3)] assms(4,7) by (auto simp: stakeEnabled_def split: if_splits)
next
  case nonkey: False
  then have "drawsWinners params header isKey \<longleftrightarrow> drawsWinners params parent parentKey"
    using draws_next(2) [OF assms(1-3)] by (simp add: drawsWinners_def realKeyHeight_def)
  then show ?thesis using assms(4-7) nonkey by (simp add: drawnFor_def split: if_splits)
qed

text \<open>
  C1. Disconnecting a block from the node it was connected to gives the parent node again: the same
  tickets of every kind with the same values, the same next winners and final state, the same
  heights, undo data and new tickets. The tickets revoked in the block must have been missed before
  it; the undo data of a ticket missed and revoked in one block cannot be applied in their order.
\<close>

theorem disconnect_undoes_connect:
  assumes chain: "onChain hashH params parent parentKey p" and params: "wf_params params"
    and heights: "bh_KeyHeight header = realKeyHeight parent parentKey" "bh_KeyHeight header \<noteq> - 1" "height p \<noteq> - 1"
    and fresh: "list_all (freshTicket p) new" and missed: "list_all (ExistsMissedTicket p) revoked"
    and conn: "connectNode hashH rnd (Some p) header spent revoked new isKey = Some (Inr n)" and size: "size (root (liveTickets n)) < 2 ^ 32"
  shows "\<exists>r. disconnectNode hashH rnd' (Some n) parent (Some (databaseUndoUpdate p)) (Some (databaseBlockTickets p)) isKey db =
    Some (Inr r) \<and> sameNode r p"
proof -
  note inv = onChain_inv [OF chain] and last = onChain_last [OF chain]
  have gp: "goodNode p" "wf_node p" using inv by (simp_all add: nodeInv_def goodNode_def)
  have sz: "size (root (liveTickets n)) < 2 ^ 63" using size by simp
  obtain m where m: "moveTickets rnd p header spent revoked new isKey = Inr m" "nodeView n = nodeView m" "goodNode n"
    "databaseUndoUpdate n = databaseUndoUpdate m" "height n = height p + 1" "keyHeight n = bh_KeyHeight header" "nodeParams n = nodeParams p"
    "drawnFor hashH p header isKey n" by (rule connect_spec [OF gp(1) fresh conn sz])
  show ?thesis
  proof (cases "p = genesisNode params")
    case True
    then have "height n = 1" "nodeParams n = params" using m(5,7) by (simp_all add: genesisNode_def)
    then show ?thesis using True by (simp add: disconnectNode_def sameNode_def)
  next
    case False
    have p: "nodeParams p = params" "height p \<noteq> 0" "keyHeight p = bh_KeyHeight parent"
      and drawn: "if drawsWinners params parent parentKey then length (nextWinners p) = unat (TicketsPerBlock params) \<and>
          (\<exists>idxs prng. drawSource hashH parent p = Some (Inr (idxs, prng)) \<and> finalState p = finalStateOf hashH (nextWinners p) prng)
        else nextWinners p = [] \<and> finalState p = replicate 6 0"
      using last False by auto
    obtain r where r: "undoAll rnd' (databaseUndoUpdate n) (restoredNode n parent (databaseUndoUpdate p) (databaseBlockTickets p)) = Inr r" "wf_node r"
      "nodeView r = nodeView p" "nodeRest r = nodeRest ((restoredNode n parent (databaseUndoUpdate p) (databaseBlockTickets p))
        \<lparr>nextWinners := if stakeEnabled p header \<and> isKey then nextWinners p else []\<rparr>)"
      using disconnect_tickets [OF gp(1) fresh missed m(1-4)] by blast
    then have rr: "nextWinners r = (if stakeEnabled p header \<and> isKey then nextWinners p else [])" "height r = height p" "keyHeight r = keyHeight p"
      "databaseUndoUpdate r = databaseUndoUpdate p" "databaseBlockTickets r = databaseBlockTickets p" "finalState r = replicate 6 0" "nodeParams r = params"
      using m(5,7) p by (simp_all add: nodeRest_eq restoredNode_def)
    define r' where "r' = (if \<not> isKey then r\<lparr>nextWinners := nextWinners n\<rparr> else r)"
    have w: "nextWinners r' = nextWinners p"
      using winners_restored [OF params heights(1,2) p(1) _ m(8)] m(7) p(1) drawn rr(1) by (auto simp: r'_def split: if_splits)
    have v: "wf_node r'" "nodeView r' = nodeView p" "nodeParams r' = nodeParams p" using r(2,3) rr(7) p(1) by (simp_all add: r'_def)
    have ne: "height n \<noteq> 1" using m(5) p(2) by simp
    have d: "disconnectNode hashH rnd' (Some n) parent (Some (databaseUndoUpdate p)) (Some (databaseBlockTickets p)) isKey db =
        (if drawsWinners params parent parentKey then restoreFinalState hashH parent r' else Some (Inr r'))"
      using ne r(1) draws_next(1) [OF params heights(1,2)] m(6,7) p(1) by (simp add: disconnectNode_def parentData_def r'_def Let_def)
    show ?thesis
    proof (cases "drawsWinners params parent parentKey")
      case True
      then obtain idxs prng where "drawSource hashH parent p = Some (Inr (idxs, prng))" and f: "finalState p = finalStateOf hashH (nextWinners p) prng"
        using drawn by auto
      from restoreFinalState_eq [OF v(1) gp(2) v(2,3) this(1)] True d w f have
        "disconnectNode hashH rnd' (Some n) parent (Some (databaseUndoUpdate p)) (Some (databaseBlockTickets p)) isKey db =
          Some (Inr (r'\<lparr>finalState := finalState p\<rparr>))" by simp
      moreover have "sameNode (r'\<lparr>finalState := finalState p\<rparr>) p"
        using v(2) w rr(2-5,7) p(1) by (auto simp: sameNode_def nodeRest_eq r'_def)
      ultimately show ?thesis by blast
    next
      case no: False
      then have "finalState p = replicate 6 0" using drawn by simp
      then have "sameNode r' p" using v(2) w rr(2-7) p(1) by (auto simp: sameNode_def nodeRest_eq r'_def)
      with d no show ?thesis by simp
    qed
  qed
qed

section \<open>A worked chain\<close>

text \<open>
  Two key blocks: the first adds a ticket, which expires in the second, where stake is enabled and
  another ticket is added.
\<close>

definition exampleParams :: stakeParams where
  "exampleParams = \<lparr>StakeEnabledHeight = 1, StakeValidationHeight = 100, TicketExpiry = 0, TicketsPerBlock = 5\<rparr>"

definition exampleHeader :: "32 word \<Rightarrow> BlockHeader" where
  "exampleHeader kh =
     \<lparr>bh_Version = 1, PrevBlock = replicate 32 0, PrevKeyBlock = replicate 32 0, MerkleRoot = replicate 32 0, StakeRoot = replicate 32 0,
      VoteBits = 1, FinalState = replicate 6 0, Voters = 0, FreshStake = 0, Revocations = 0, PoolSize = 0, Bits = 0x207fffff, SBits = 2,
      bh_Height = kh, bh_KeyHeight = kh, bh_Size = 0, Timestamp = 1500000000, Nonce = 0, ExtraData = replicate 32 0, StakeVersion = 0\<rparr>"

definition exampleTicket :: "byte \<Rightarrow> bytes" where
  "exampleTicket b = replicate 32 b"

definition exampleNode1 :: Node where
  "exampleNode1 =
     \<lparr>height = 1, keyHeight = 0,
      liveTickets = \<lparr>root = TreapNode NilNode (exampleTicket 1)
          \<lparr>Height = 1, KeyHeight = 0, Missed = False, Revoked = False, Spent = False, Expired = False\<rparr> 7 NilNode, cnt = 1, totalSize = 68\<rparr>,
      missedTickets = NewImmutable, revokedTickets = NewImmutable,
      databaseUndoUpdate = [\<lparr>TicketHash = exampleTicket 1, TicketHeight = 1, TicketKeyHeight = 0, u_Missed = False, u_Revoked = False,
        u_Spent = False, u_Expired = False\<rparr>],
      databaseBlockTickets = [exampleTicket 1], nextWinners = [], finalState = replicate 6 0, nodeParams = exampleParams\<rparr>"

definition exampleNode2 :: Node where
  "exampleNode2 =
     \<lparr>height = 2, keyHeight = 1,
      liveTickets = \<lparr>root = TreapNode NilNode (exampleTicket 2)
          \<lparr>Height = 2, KeyHeight = 1, Missed = False, Revoked = False, Spent = False, Expired = False\<rparr> 7 NilNode, cnt = 1, totalSize = 68\<rparr>,
      missedTickets = \<lparr>root = TreapNode NilNode (exampleTicket 1)
          \<lparr>Height = 1, KeyHeight = 0, Missed = True, Revoked = False, Spent = False, Expired = True\<rparr> 7 NilNode, cnt = 1, totalSize = 68\<rparr>,
      revokedTickets = NewImmutable,
      databaseUndoUpdate = [\<lparr>TicketHash = exampleTicket 1, TicketHeight = 1, TicketKeyHeight = 0, u_Missed = True, u_Revoked = False,
        u_Spent = False, u_Expired = True\<rparr>, \<lparr>TicketHash = exampleTicket 2, TicketHeight = 2, TicketKeyHeight = 1, u_Missed = False,
        u_Revoked = False, u_Spent = False, u_Expired = False\<rparr>],
      databaseBlockTickets = [exampleTicket 2], nextWinners = [], finalState = replicate 6 0, nodeParams = exampleParams\<rparr>"

lemma example_connect1:
  "connectNode id (\<lambda>_. 7) (Some (genesisNode exampleParams)) (exampleHeader 0) [] [] [exampleTicket 1] True = Some (Inr exampleNode1)"
  by code_simp

lemma example_connect2:
  "connectNode id (\<lambda>_. 7) (Some exampleNode1) (exampleHeader 1) [] [] [exampleTicket 2] True = Some (Inr exampleNode2)"
  by code_simp

lemma example_fresh:
  "list_all (freshTicket (genesisNode exampleParams)) [exampleTicket 1]" "list_all (freshTicket exampleNode1) [exampleTicket 2]"
  by code_simp+

lemma example_chain: "onChain id exampleParams (exampleHeader 0) True exampleNode1" "onChain id exampleParams (exampleHeader 1) True exampleNode2"
proof -
  have h: "bh_KeyHeight (exampleHeader kh) = kh" "realKeyHeight (exampleHeader kh) k = (if k then kh + 1 else kh)" for kh k
    by (simp_all add: exampleHeader_def realKeyHeight_def)
  show c1: "onChain id exampleParams (exampleHeader 0) True exampleNode1"
    by (rule onChain.connect [OF onChain.genesis [of exampleParams "exampleHeader 0" False] _ _ example_fresh(1) example_connect1])
      (simp_all add: h genesisNode_def exampleNode1_def drawsWinners_def exampleParams_def)
  show "onChain id exampleParams (exampleHeader 1) True exampleNode2"
    by (rule onChain.connect [OF c1 _ _ example_fresh(2) example_connect2]) (simp_all add: h exampleNode1_def exampleNode2_def)
qed

theorem stake_node_invariant_witness: "nodeInv exampleNode2"
  using stake_node_invariant [OF example_chain(2)] .

theorem connect_ticket_sets_witness:
  "kindSet exampleNode2 Live = {exampleTicket 2} \<and> kindSet exampleNode2 MissedKind = {exampleTicket 1} \<and> kindSet exampleNode2 RevokedKind = {}"
proof -
  have e: "stakeEnabled exampleNode1 (exampleHeader 1)" "size (root (liveTickets exampleNode2)) < 2 ^ 32"
    by (simp_all add: stakeEnabled_def exampleNode1_def exampleNode2_def exampleHeader_def exampleParams_def)
  have k: "kindSet exampleNode1 Live = {exampleTicket 1}" "kindSet exampleNode1 MissedKind = {}" "kindSet exampleNode1 RevokedKind = {}"
    "nextWinners exampleNode1 = []" "expiredKeys exampleNode1 (exampleHeader 1) = {exampleTicket 1}"
    by (auto simp: kindSet_def expiredKeys_def expireHeight_def nodeView_def contents_def exampleNode1_def exampleHeader_def exampleParams_def
        NewImmutable_def split: if_splits)
  from connect_ticket_sets [OF example_chain(1) example_fresh(2) e(1) example_connect2 e(2)] show ?thesis by (simp add: k)
qed

theorem disconnect_undoes_connect_witness:
  "\<exists>r. disconnectNode id (\<lambda>_. 3) (Some exampleNode2) (exampleHeader 0) (Some (databaseUndoUpdate exampleNode1))
     (Some (databaseBlockTickets exampleNode1)) True None = Some (Inr r) \<and> sameNode r exampleNode1"
proof -
  have h: "bh_KeyHeight (exampleHeader 1) = realKeyHeight (exampleHeader 0) True" "bh_KeyHeight (exampleHeader 1) \<noteq> - 1"
    "height exampleNode1 \<noteq> - 1" "wf_params exampleParams" "list_all (ExistsMissedTicket exampleNode1) []"
    "size (root (liveTickets exampleNode2)) < 2 ^ 32"
    by (simp_all add: exampleHeader_def realKeyHeight_def exampleNode1_def exampleNode2_def wf_params_def exampleParams_def)
  show ?thesis by (rule disconnect_undoes_connect [OF example_chain(1) h(4,1-3) example_fresh(2) h(5) example_connect2 h(6)])
qed

text \<open>A ticket that expires and is revoked in one block cannot be restored.\<close>

lemma missed_and_revoked_not_undone:
  "case connectNode id (\<lambda>_. 7) (Some exampleNode1) (exampleHeader 1) [] [exampleTicket 1] [] True of
     Some (Inr n) \<Rightarrow> disconnectNode id (\<lambda>_. 3) (Some n) (exampleHeader 0) (Some []) (Some []) True None = Some (raise ErrMissingTicket)
   | _ \<Rightarrow> False"
  by code_simp

end
