(* ===== verification/TicketStore.thy ===== *)
theory TicketStore
  imports TicketChain
begin

unbundle bit_operations_syntax

text \<open>
  The ticket database holds the node: the buckets of the database meet the interface \<open>ticketStore\<close>, so
  that writing a connected node applies the moves of its block to the buckets and writing a
  disconnected one reverts them; loading a node that was written gives it back.
\<close>

section \<open>The ticket buckets\<close>

definition encTicket :: "ticketValue \<Rightarrow> bytes" where
  "encTicket v = PutUint32 (Height v) @ PutUint32 (KeyHeight v) @ [undoBitFlagsToByte (Missed v) (Revoked v) (Spent v) (Expired v)]"

definition decTicket :: "bytes \<Rightarrow> ticketValue" where
  "decTicket v = (case undoBitFlagsFromByte (v ! 8) of (missed, revoked, spent, expired) \<Rightarrow>
     \<lparr>Height = leUint32 (take 4 v), KeyHeight = leUint32 (take 4 (drop 4 v)), Missed = missed, Revoked = revoked, Spent = spent, Expired = expired\<rparr>)"

lemma decTicket_encTicket [simp]: "decTicket (encTicket v) = v" "length (encTicket v) = 9"
  by (simp_all add: decTicket_def encTicket_def nth_append)

definition bucketOk :: "bucket \<Rightarrow> bool" where
  "bucketOk bk \<longleftrightarrow> distinct (map fst bk) \<and> (\<forall>k v. (k, v) \<in> set bk \<longrightarrow> length k = 32 \<and> v \<in> range encTicket)"

definition dbInv :: "ticketDb \<Rightarrow> bool" where
  "dbInv db \<longleftrightarrow> (\<forall>b. \<exists>bk. dbBuckets db (bucketName b) = Some bk \<and> bucketOk bk)"

definition dbView :: "ticketDb \<Rightarrow> ticketView" where
  "dbView db b k = map_option decTicket (map_of (the (dbBuckets db (bucketName b))) k)"

definition dbRest :: "ticketDb \<Rightarrow> (string \<rightharpoonup> bytes) \<times> (string \<Rightarrow> bucket option)" where
  "dbRest db = (dbMeta db, \<lambda>name. if name \<in> range bucketName then None else dbBuckets db name)"

lemma bucketName_simps [simp]: "bucketName a = bucketName b \<longleftrightarrow> a = b"
  by (cases a; cases b) (simp_all add: LiveTicketsBucketName_def MissedTicketsBucketName_def RevokedTicketsBucketName_def)

lemma bucketOk_update:
  assumes "bucketOk bk" "length k = 32"
  shows "bucketOk (AList.update k (encTicket v) bk)"
proof -
  have sub: "set (AList.update k w bk) \<subseteq> insert (k, w) (set bk)" for w by (induction bk) auto
  have "length a = 32 \<and> b \<in> range encTicket" if "(a, b) \<in> set (AList.update k (encTicket v) bk)" for a b
  proof -
    from that sub consider "a = k" "b = encTicket v" | "(a, b) \<in> set bk" by blast
    then show ?thesis using assms by cases (simp_all add: bucketOk_def)
  qed
  moreover have "distinct (map fst (AList.update k (encTicket v) bk))" using assms(1) by (intro distinct_update) (simp add: bucketOk_def)
  ultimately show ?thesis by (simp add: bucketOk_def)
qed

lemma bucketOk_delete:
  assumes "bucketOk bk"
  shows "bucketOk (AList.delete k bk)"
proof -
  have "distinct (map fst (AList.delete k bk))" using assms by (intro distinct_delete) (simp add: bucketOk_def)
  moreover have "set (AList.delete k bk) \<subseteq> set bk" by (auto simp: AList.delete_eq)
  ultimately show ?thesis using assms by (auto simp: bucketOk_def)
qed

definition dbIns :: "int \<Rightarrow> ticketDb \<Rightarrow> ticketKind \<Rightarrow> bytes \<Rightarrow> ticketValue \<Rightarrow> (stake_error, ticketDb) result" where
  "dbIns rnd db b k v = liftErr DbError (DbPutTicket db (bucketName b) k (Height v) (KeyHeight v) (Missed v) (Revoked v) (Spent v) (Expired v))"

definition dbRem :: "ticketDb \<Rightarrow> ticketKind \<Rightarrow> bytes \<Rightarrow> (stake_error, ticketDb) result" where
  "dbRem db b k = liftErr DbError (DbDeleteTicket db (bucketName b) k)"

lemma dbInv_bucket:
  assumes "dbInv db"
  obtains bk where "dbBuckets db (bucketName b) = Some bk" "bucketOk bk"
  using assms by (auto simp: dbInv_def)

lemma set_bucket:
  assumes "dbInv db" "bucketOk bk"
  shows "dbInv (db\<lparr>dbBuckets := (dbBuckets db)(bucketName b \<mapsto> bk)\<rparr>)" "dbRest (db\<lparr>dbBuckets := (dbBuckets db)(bucketName b \<mapsto> bk)\<rparr>) = dbRest db"
    "dbView (db\<lparr>dbBuckets := (dbBuckets db)(bucketName b \<mapsto> bk)\<rparr>) = (dbView db)(b := (\<lambda>k. map_option decTicket (map_of bk k)))"
  using assms by (auto simp: dbInv_def dbRest_def dbView_def fun_eq_iff)

interpretation buckets: ticketStore dbInv dbView dbRest dbIns dbRem
proof
  fix db k b rnd v
  assume db: "dbInv db" "length (k :: bytes) = 32"
  obtain bk where bk: "dbBuckets db (bucketName b) = Some bk" "bucketOk bk" using db(1) by (rule dbInv_bucket)
  let ?bk = "AList.update k (encTicket v) bk"
  have "dbIns rnd db b k v = Inr (db\<lparr>dbBuckets := (dbBuckets db)(bucketName b \<mapsto> ?bk)\<rparr>)"
    using bk(1) by (simp add: dbIns_def DbPutTicket_def bucketPut_def Bucket_def encTicket_def)
  moreover have "(\<lambda>k'. map_option decTicket (map_of ?bk k')) = (dbView db b)(k \<mapsto> v)"
    using bk(1) by (simp add: fun_eq_iff dbView_def update_conv)
  ultimately show "\<exists>db'. dbIns rnd db b k v = Inr db' \<and> dbInv db' \<and> dbRest db' = dbRest db \<and> dbView db' = (dbView db)(b := (dbView db b)(k \<mapsto> v))"
    using set_bucket [OF db(1) bucketOk_update [OF bk(2) db(2)], of b v] by simp
next
  fix db b and k :: bytes
  assume db: "dbInv db" "dbView db b k \<noteq> None"
  obtain bk where bk: "dbBuckets db (bucketName b) = Some bk" "bucketOk bk" using db(1) by (rule dbInv_bucket)
  let ?bk = "AList.delete k bk"
  have "dbRem db b k = Inr (db\<lparr>dbBuckets := (dbBuckets db)(bucketName b \<mapsto> ?bk)\<rparr>)"
    using bk(1) db(2) by (auto simp: dbRem_def DbDeleteTicket_def bucketGet_def bucketDelete_def Bucket_def dbView_def)
  moreover have "(\<lambda>k'. map_option decTicket (map_of ?bk k')) = (dbView db b)(k := None)"
    using bk(1) by (simp add: fun_eq_iff dbView_def delete_conv)
  ultimately show "\<exists>db'. dbRem db b k = Inr db' \<and> dbInv db' \<and> dbRest db' = dbRest db \<and> dbView db' = (dbView db)(b := (dbView db b)(k := None))"
    using set_bucket [OF db(1) bucketOk_delete [OF bk(2)], of b k] by simp
qed

lemma connectWrite_eq: "moved u f g \<Longrightarrow> connectWrite u db = buckets.applyMove 0 u db"
  by (auto simp: moved_def connectWrite_def buckets.applyMove_def dbIns_def dbRem_def undoValue_def isNew_def Let_def split: if_splits)

lemma disconnectWrite_eq: "moved u f g \<Longrightarrow> disconnectWrite u db = buckets.revertMove 0 u db"
  by (auto simp: moved_def disconnectWrite_def buckets.revertMove_def dbIns_def dbRem_def undoValue_def isNew_def Let_def split: if_splits)

lemma write_connected:
  "dbInv db \<Longrightarrow> moves us (dbView db) \<tau> \<Longrightarrow> \<exists>db'. writeAll connectWrite us db = Inr db' \<and> dbInv db' \<and> dbRest db' = dbRest db \<and> dbView db' = \<tau>"
proof (induction us arbitrary: db)
  case Nil
  then show ?case by (auto simp: moves_def intro!: view_eqI [symmetric])
next
  case (Cons u us)
  note m = moves_Cons [OF Cons.prems(2)]
  from buckets.applyMove_ok [OF Cons.prems(1) m(1,2)] obtain db1 where db1: "connectWrite u db = Inr db1" "dbInv db1" "dbRest db1 = dbRest db"
    "dbView db1 = replaceAt (dbView db) (TicketHash u) (viewAt \<tau> (TicketHash u))" unfolding connectWrite_eq [OF m(2)] by blast
  from Cons.IH [OF db1(2)] m(3) db1 show ?case by simp
qed

lemma write_disconnected:
  "dbInv db \<Longrightarrow> moves us \<sigma> (dbView db) \<Longrightarrow> \<exists>db'. writeAll disconnectWrite us db = Inr db' \<and> dbInv db' \<and> dbRest db' = dbRest db \<and> dbView db' = \<sigma>"
proof (induction us arbitrary: db)
  case Nil
  then show ?case by (auto simp: moves_def intro!: view_eqI)
next
  case (Cons u us)
  note m = moves_Cons [OF Cons.prems(2)]
  from buckets.revertMove_ok [OF Cons.prems(1) m(1,2)] obtain db1 where db1: "disconnectWrite u db = Inr db1" "dbInv db1" "dbRest db1 = dbRest db"
    "dbView db1 = replaceAt (dbView db) (TicketHash u) (viewAt \<sigma> (TicketHash u))" unfolding disconnectWrite_eq [OF m(2)] by blast
  from Cons.IH [OF db1(2)] m(4) db1 show ?case by simp
qed

section \<open>The other buckets\<close>

text \<open>An initialized database: every bucket is there and the version information can be read.\<close>

definition dbReady :: "ticketDb \<Rightarrow> bool" where
  "dbReady db \<longleftrightarrow> dbInv db \<and> dbBuckets db StakeBlockUndoDataBucketName \<noteq> None \<and> dbBuckets db TicketsInBlockBucketName \<noteq> None \<and>
     (\<exists>info. DbFetchDatabaseInfo db = Inr (Some info))"

lemma other_names:
  "StakeBlockUndoDataBucketName \<noteq> bucketName b" "TicketsInBlockBucketName \<noteq> bucketName b" "StakeDbInfoBucketName \<noteq> bucketName b"
  "StakeBlockUndoDataBucketName \<noteq> TicketsInBlockBucketName" "StakeBlockUndoDataBucketName \<noteq> StakeDbInfoBucketName"
  "TicketsInBlockBucketName \<noteq> StakeDbInfoBucketName"
  by (cases b; simp add: StakeBlockUndoDataBucketName_def TicketsInBlockBucketName_def StakeDbInfoBucketName_def LiveTicketsBucketName_def
      MissedTicketsBucketName_def RevokedTicketsBucketName_def)+

lemma dbReady_rest: "dbReady db \<Longrightarrow> dbInv db' \<Longrightarrow> dbRest db' = dbRest db \<Longrightarrow> dbReady db'"
proof -
  assume r: "dbReady db" "dbInv db'" "dbRest db' = dbRest db"
  have "dbBuckets db' name = dbBuckets db name" if "name \<notin> range bucketName" for name
    using fun_cong [OF arg_cong [OF r(3), of snd], of name] that by (simp add: dbRest_def)
  moreover have "StakeBlockUndoDataBucketName \<notin> range bucketName" "TicketsInBlockBucketName \<notin> range bucketName" "StakeDbInfoBucketName \<notin> range bucketName"
    using other_names(1-3) by auto
  ultimately show "dbReady db'" using r(1,2) by (simp add: dbReady_def DbFetchDatabaseInfo_def)
qed

definition stored :: "ticketDb \<Rightarrow> Node \<Rightarrow> bytes \<Rightarrow> bool" where
  "stored db n hash \<longleftrightarrow> dbReady db \<and> dbView db = nodeView n \<and>
     DbFetchBlockUndoData db (height n) = Inr (databaseUndoUpdate n) \<and> DbFetchNewTickets db (height n) = Inr (databaseBlockTickets n) \<and>
     (\<exists>kh. DbFetchBestState db = Inr
        \<lparr>bs_Hash = hash, bs_Height = height n, bs_KeyHeight = kh, bs_Live = word_of_int (Len (liveTickets n)),
         bs_Missed = word_of_int (Len (missedTickets n)), bs_Revoked = word_of_int (Len (revokedTickets n)),
         PerBlock = TicketsPerBlock (nodeParams n),
         NextWinners = nextWinners n @ replicate (unat (TicketsPerBlock (nodeParams n)) - length (nextWinners n)) (replicate 32 0)\<rparr>)"

definition wf_stored :: "Node \<Rightarrow> bytes \<Rightarrow> bool" where
  "wf_stored n hash \<longleftrightarrow> length hash = 32 \<and> list_all (\<lambda>k. length k = 32) (databaseBlockTickets n) \<and>
     list_all (\<lambda>u. length (TicketHash u) = 32) (databaseUndoUpdate n) \<and> list_all (\<lambda>k. length k = 32) (nextWinners n) \<and>
     length (nextWinners n) \<le> unat (TicketsPerBlock (nodeParams n))"

lemma writeNodeState_ok:
  assumes "dbReady db" "dbView db = nodeView n" "wf_stored n hash"
  shows "\<exists>db'. writeNodeState n hash kh db = Inr db' \<and> stored db' n hash"
proof -
  obtain b1 b2 where b: "dbBuckets db StakeBlockUndoDataBucketName = Some b1" "dbBuckets db TicketsInBlockBucketName = Some b2"
    using assms(1) by (auto simp: dbReady_def)
  let ?u = "AList.update (PutUint32 (height n)) (serializeBlockUndoData (databaseUndoUpdate n)) b1"
  let ?t = "AList.update (PutUint32 (height n)) (serializeTicketHashes (databaseBlockTickets n)) b2"
  let ?w = "nextWinners n @ replicate (unat (TicketsPerBlock (nodeParams n)) - length (nextWinners n)) (replicate 32 0)"
  let ?st = "\<lparr>bs_Hash = hash, bs_Height = height n, bs_KeyHeight = kh, bs_Live = word_of_int (Len (liveTickets n)),
         bs_Missed = word_of_int (Len (missedTickets n)), bs_Revoked = word_of_int (Len (revokedTickets n)),
         PerBlock = TicketsPerBlock (nodeParams n), NextWinners = ?w\<rparr>"
  have "length (bs_Hash ?st) = 32" "list_all (\<lambda>h. length h = 32) (NextWinners ?st)" "length (NextWinners ?st) = unat (PerBlock ?st)"
    using assms(3) by (auto simp: wf_stored_def list_all_iff)
  from deserialize_best_state [OF this] obtain sb where sb: "serializeBestChainState ?st = (Inr sb :: (ticketdb_error, bytes) result)"
    "deserializeBestChainState sb = Inr ?st" by blast
  let ?db = "db\<lparr>dbBuckets := (dbBuckets db)(StakeBlockUndoDataBucketName \<mapsto> ?u, TicketsInBlockBucketName \<mapsto> ?t),
      dbMeta := (dbMeta db)(StakeChainStateKeyName \<mapsto> sb)\<rparr>"
  have w: "padWinners n = (Inr ?w :: (stake_error, bytes list) result)" using assms(3) by (simp add: padWinners_def wf_stored_def)
  have ex: "writeNodeState n hash kh db = Inr ?db"
    using b other_names(4) sb(1) w
    by (simp add: writeNodeState_def DbPutBlockUndoData_def DbPutNewTickets_def bucketPut_def Bucket_def DbPutBestState_def)
  have keep: "dbBuckets ?db name = dbBuckets db name" if "name \<noteq> StakeBlockUndoDataBucketName" "name \<noteq> TicketsInBlockBucketName" for name using that by simp
  have v: "dbInv ?db" "dbView ?db = dbView db"
    using assms(1) other_names(1,2) other_names(1,2) [symmetric] by (simp_all add: dbReady_def dbInv_def dbView_def fun_eq_iff)
  have "dbReady ?db" using v(1) assms(1) other_names(5,6) by (auto simp: dbReady_def DbFetchDatabaseInfo_def)
  moreover have "DbFetchBlockUndoData ?db (height n) = Inr (databaseUndoUpdate n)" "DbFetchNewTickets ?db (height n) = Inr (databaseBlockTickets n)"
    "DbFetchBestState ?db = Inr ?st"
    using assms(3) other_names(4) sb(2)
    by (simp_all add: DbFetchBlockUndoData_def DbFetchNewTickets_def bucketGet_def Bucket_def update_conv wf_stored_def DbFetchBestState_def)
  ultimately have "stored ?db n hash" using v(2) assms(2) by (auto simp: stored_def)
  with ex show ?thesis by blast
qed

section \<open>Loading\<close>

lemma loadTickets_ok:
  "bucketOk bk \<Longrightarrow> wf_treap t \<Longrightarrow> \<exists>t'. loadTickets rnd bk t = Inr t' \<and> wf_treap t' \<and>
     treapMap t' = (\<lambda>k. case map_of bk k of None \<Rightarrow> treapMap t k | Some v \<Rightarrow> Some (decTicket v))"
proof (induction bk arbitrary: t)
  case (Cons kv bk)
  obtain k v where kv: "kv = (k, v)" by fastforce
  have k: "length k = 32" "v \<in> range encTicket" "k \<notin> fst ` set bk" "bucketOk bk" using Cons.prems(1) by (auto simp: bucketOk_def kv)
  then have v: "length v = 9" by auto
  let ?t = "Put (rnd k) t k (Some (decTicket v))"
  have "loadTickets rnd (kv # bk) t = loadTickets rnd bk ?t" using k v by (simp add: kv decTicket_def split: prod.split)
  moreover have "map_of bk k = None" using k(3) by (simp add: map_of_eq_None_iff)
  moreover from Cons.IH [OF k(4) imm.wf_put [OF Cons.prems(2)], of "rnd k" k "decTicket v"] obtain t' where
    "loadTickets rnd bk ?t = Inr t'" "wf_treap t'"
    "treapMap t' = (\<lambda>k'. case map_of bk k' of None \<Rightarrow> ((treapMap t)(k \<mapsto> decTicket v)) k' | Some v \<Rightarrow> Some (decTicket v))"
    unfolding imm.map_put [OF Cons.prems(2)] by blast
  ultimately show ?case by (auto simp del: loadTickets.simps simp: kv fun_eq_iff split: option.splits)
qed simp

lemma loadTreap_ok:
  assumes "dbInv db"
  shows "\<exists>t. wf_treap t \<and> treapMap t = dbView db b \<and> loadTreap rnd db b (Len t) = Inr t"
proof -
  obtain bk where bk: "dbBuckets db (bucketName b) = Some bk" "bucketOk bk" using assms by (rule dbInv_bucket)
  have "(\<lambda>k. case map_of bk k of None \<Rightarrow> treapMap (NewImmutable :: ticketTreap) k | Some v \<Rightarrow> Some (decTicket v)) = (\<lambda>k. map_option decTicket (map_of bk k))"
    unfolding wf_NewImmutable(2) by (simp add: fun_eq_iff map_option_case)
  then obtain t where "loadTickets rnd bk NewImmutable = Inr t" "wf_treap t" "treapMap t = (\<lambda>k. map_option decTicket (map_of bk k))"
    using loadTickets_ok [OF bk(2) wf_NewImmutable(1), of rnd] by metis
  with bk(1) show ?thesis by (auto simp: loadTreap_def DbLoadAllTickets_def Bucket_def dbView_def fun_eq_iff)
qed

lemma sint_Len: "wf_treap t \<Longrightarrow> sint (word_of_int (Len t) :: 64 word) = Len t"
  using Len_map [of t] by (simp add: sint_sbintrunc' wrap64_def)

lemma Len_live: "wf_treap t \<Longrightarrow> size (root t) < 2 ^ 32 \<Longrightarrow> uint (word_of_int (Len t) :: 32 word) = Len t"
  by (simp add: wf_treap_def Len_def wrap64_def signed_take_bit_int_eq_self unsigned_of_nat take_bit_nat_eq_self)

text \<open>What is read before the lottery is repeated: the node with treaps of some shape and no winners.\<close>

lemma load_reads:
  assumes wf: "wf_node n" and st: "stored db n hash" and size: "size (root (liveTickets n)) < 2 ^ 32"
    and key: "isKey \<longleftrightarrow> HashToBig hash \<le> CompactToBig (Bits header)"
  obtains r where "nodeRest r = nodeRest (n\<lparr>nextWinners := [], finalState := replicate 6 0, nodeParams := params\<rparr>)" "wf_node r" "nodeView r = nodeView n"
    "LoadBestNode hashH rnd db (height n) (keyHeight n) hash header params =
      (if drawsWinners params header isKey
       then restoreFinalState hashH header
         (r\<lparr>nextWinners := nextWinners n @ replicate (unat (TicketsPerBlock (nodeParams n)) - length (nextWinners n)) (replicate 32 0)\<rparr>)
       else Some (Inr r))"
proof -
  have inv: "dbInv db" and v: "dbView db = nodeView n" using st by (simp_all add: stored_def dbReady_def)
  have "\<exists>t. \<forall>b. wf_treap (t b) \<and> treapMap (t b) = nodeView n b \<and> loadTreap (rnd b) db b (Len (t b)) = Inr (t b)"
    using choice [of "\<lambda>b t. wf_treap t \<and> treapMap t = nodeView n b \<and> loadTreap (rnd b) db b (Len t) = Inr t"] loadTreap_ok [OF inv] unfolding v by blast
  then obtain t where t: "\<And>b. wf_treap (t b)" "\<And>b. treapMap (t b) = nodeView n b" "\<And>b. loadTreap (rnd b) db b (Len (t b)) = Inr (t b)" by blast
  have len: "Len (nodeTreap b n) = Len (t b)" for b using wf t(1,2) [of b] Len_map by (metis nodeView_def wf_node_def)
  have lens: "uint (word_of_int (Len (liveTickets n)) :: 32 word) = Len (t Live)"
    "sint (word_of_int (Len (missedTickets n)) :: 64 word) = Len (t MissedKind)" "sint (word_of_int (Len (revokedTickets n)) :: 64 word) = Len (t RevokedKind)"
    using len [of Live] len [of MissedKind] len [of RevokedKind] sint_Len [OF t(1)] Len_live [OF wf_live [OF wf] size] by simp_all
  let ?r = "\<lparr>height = height n, keyHeight = keyHeight n, liveTickets = t Live, missedTickets = t MissedKind, revokedTickets = t RevokedKind,
     databaseUndoUpdate = databaseUndoUpdate n, databaseBlockTickets = databaseBlockTickets n, nextWinners = [], finalState = replicate 6 0,
     nodeParams = params\<rparr>"
  obtain info where info: "DbFetchDatabaseInfo db = Inr (Some info)" using st by (auto simp: stored_def dbReady_def)
  have tr: "nodeTreap b ?r = t b" for b by (cases b) simp_all
  have id: "(case x of None \<Rightarrow> None | Some r \<Rightarrow> Some (bindE r (\<lambda>n. if Some info = None then panic else Inr n))) = x" for x :: "(stake_error, Node) result option"
    by (simp add: bindE_def split: option.split sum.split)
  show thesis
  proof (rule that [of ?r])
    show "wf_node ?r" "nodeView ?r = nodeView n" using t(1,2) by (simp_all add: wf_node_def nodeView_def tr fun_eq_iff)
    show "LoadBestNode hashH rnd db (height n) (keyHeight n) hash header params =
      (if drawsWinners params header isKey
       then restoreFinalState hashH header
         (?r\<lparr>nextWinners := nextWinners n @ replicate (unat (TicketsPerBlock (nodeParams n)) - length (nextWinners n)) (replicate 32 0)\<rparr>)
       else Some (Inr ?r))"
      using st info lens t(3) key by (auto simp: LoadBestNode_def stored_def drawsWinners_def id)
  qed (simp add: nodeRest_eq)
qed

section \<open>Writing nodes of a chain\<close>

lemma chain_wf_stored:
  assumes "onChain hashH params header isKey n" "length hash = 32"
  shows "wf_stored n hash"
proof -
  note last = onChain_last [OF assms(1)]
  have inv: "nodeInv n" "wf_node n" "goodNode n" using onChain_inv [OF assms(1)] by (simp_all add: nodeInv_def goodNode_def)
  have "length k = 32" if "k \<in> set (nextWinners n)" for k
  proof -
    have "nodeView n Live k \<noteq> None" using that inv(1) exists_view [OF inv(2)] by (simp add: nodeInv_def list_all_iff)
    then show ?thesis using inv(3) by (auto simp: goodNode_def okAt_def viewAt_def)
  qed
  moreover have "length (nextWinners n) \<le> unat (TicketsPerBlock (nodeParams n))" using inv(1) by (auto simp: nodeInv_def)
  ultimately show ?thesis using last assms(2) by (simp add: wf_stored_def list_all_iff)
qed

lemma connected_moves:
  assumes "onChain hashH params parent parentKey p" "list_all (freshTicket p) new" "list_all (ExistsMissedTicket p) revoked"
    "connectNode hashH rnd (Some p) header spent revoked new isKey = Some (Inr n)" "size (root (liveTickets n)) < 2 ^ 32"
  shows "moves (databaseUndoUpdate n) (nodeView p) (nodeView n)" "height n = height p + 1"
proof -
  have gp: "goodNode p" using onChain_inv [OF assms(1)] by (simp add: nodeInv_def)
  have sz: "size (root (liveTickets n)) < 2 ^ 63" using assms(5) by simp
  obtain m where m: "moveTickets rnd p header spent revoked new isKey = Inr m" "nodeView n = nodeView m"
    "databaseUndoUpdate n = databaseUndoUpdate m" "height n = height p + 1" by (rule connect_spec [OF gp assms(2,4) sz])
  show "moves (databaseUndoUpdate n) (nodeView p) (nodeView n)" using moveTickets_moves [OF gp assms(2) m(1) assms(3)] m(2,3) by simp
  show "height n = height p + 1" by (rule m(4))
qed

lemma write_connected_node:
  assumes "stored db p phash" "moves (databaseUndoUpdate n) (nodeView p) (nodeView n)" "wf_stored n hash"
  shows "\<exists>db'. WriteConnectedBestNode db n hash = Inr db' \<and> stored db' n hash"
proof -
  have db: "dbReady db" "dbInv db" "dbView db = nodeView p" using assms(1) by (simp_all add: stored_def dbReady_def)
  obtain db1 where db1: "writeAll connectWrite (databaseUndoUpdate n) db = Inr db1" "dbInv db1" "dbRest db1 = dbRest db" "dbView db1 = nodeView n"
    using write_connected [OF db(2)] assms(2) db(3) by metis
  from writeNodeState_ok [OF dbReady_rest [OF db(1) db1(2,3)] db1(4) assms(3)] db1(1) show ?thesis by (simp add: WriteConnectedBestNode_def)
qed

lemma drop_ready:
  assumes "dbReady db"
  shows "\<exists>db'. dropAbove (Suc 0) h db = Inr db' \<and> dbReady db' \<and> dbView db' = dbView db"
proof -
  obtain b1 b2 where b: "dbBuckets db StakeBlockUndoDataBucketName = Some b1" "dbBuckets db TicketsInBlockBucketName = Some b2"
    using assms by (auto simp: dbReady_def)
  let ?db = "db\<lparr>dbBuckets := (dbBuckets db)(StakeBlockUndoDataBucketName \<mapsto> AList.delete (PutUint32 h) b1,
    TicketsInBlockBucketName \<mapsto> AList.delete (PutUint32 h) b2)\<rparr>"
  have "dropAbove (Suc 0) h db = Inr ?db"
    using b other_names(4) by (simp add: DbDropBlockUndoData_def DbDropNewTickets_def bucketDelete_def Bucket_def)
  moreover have "dbInv ?db" "dbView ?db = dbView db"
    using assms other_names(1,2) other_names(1,2) [symmetric] by (simp_all add: dbReady_def dbInv_def dbView_def fun_eq_iff)
  moreover from this(1) have "dbReady ?db" using assms other_names(5,6) by (auto simp: dbReady_def DbFetchDatabaseInfo_def)
  ultimately show ?thesis by blast
qed

lemma write_disconnected_node:
  assumes "stored db n hash" "moves (databaseUndoUpdate n) (nodeView p) (nodeView n)" "wf_stored p phash" "height n = height p + 1" "height p \<noteq> - 1"
  shows "\<exists>db'. WriteDisconnectedBestNode db p phash (databaseUndoUpdate n) = Inr db' \<and> stored db' p phash"
proof -
  have one: "unat (height n) - unat (height p) = Suc 0" using assms(4,5) unatSuc [of "height p"] by (simp add: add.commute eq_neg_iff_add_eq_0)
  obtain st where st: "DbFetchBestState db = Inr st" "bs_Height st = height n" using assms(1) by (auto simp: stored_def)
  have v: "dbReady db" "dbView db = nodeView n" using assms(1) by (simp_all add: stored_def)
  obtain db1 where db1: "dropAbove (Suc 0) (height n) db = Inr db1" "dbReady db1" "dbView db1 = nodeView n"
    using drop_ready [OF v(1)] v(2) by metis
  have "dbInv db1" using db1(2) by (simp add: dbReady_def)
  then obtain db2 where db2: "writeAll disconnectWrite (databaseUndoUpdate n) db1 = Inr db2" "dbInv db2" "dbRest db2 = dbRest db1" "dbView db2 = nodeView p"
    using write_disconnected assms(2) db1(3) by metis
  from writeNodeState_ok [OF dbReady_rest [OF db1(2) db2(2,3)] db2(4) assms(3)] db1(1) db2(1) st one show ?thesis
    by (simp add: WriteDisconnectedBestNode_def del: dropAbove.simps)
qed

text \<open>
  C4. A database that holds the parent of a block holds the connected node after the node has been
  written, and the parent again after that has been written with the undo data of the block: the
  ticket buckets, the undo data, the new tickets and the best state all agree with the node.
\<close>

theorem database_follows_chain:
  assumes chain: "onChain hashH params parent parentKey p"
    and heights: "bh_KeyHeight header = realKeyHeight parent parentKey" "height p \<noteq> - 1"
    and fresh: "list_all (freshTicket p) new" and missed: "list_all (ExistsMissedTicket p) revoked"
    and conn: "connectNode hashH rnd (Some p) header spent revoked new isKey = Some (Inr n)" and size: "size (root (liveTickets n)) < 2 ^ 32"
    and db: "stored db p phash" and hashes: "length phash = 32" "length hash = 32"
  shows "\<exists>db'. WriteConnectedBestNode db n hash = Inr db' \<and> stored db' n hash \<and>
    (\<exists>db''. WriteDisconnectedBestNode db' p phash (databaseUndoUpdate n) = Inr db'' \<and> stored db'' p phash)"
proof -
  note mv = connected_moves [OF chain fresh missed conn size]
  have "onChain hashH params header isKey n" by (rule onChain.connect [OF chain heights fresh conn size])
  note wf = chain_wf_stored [OF this hashes(2)] chain_wf_stored [OF chain hashes(1)]
  from write_connected_node [OF db mv(1) wf(1)] write_disconnected_node [OF _ mv(1) wf(2) mv(2) heights(2)] show ?thesis by blast
qed

text \<open>
  C10. Loading the best node from a database that holds it gives the node: the tickets of every kind,
  the undo data, the new tickets, the next winners and the final state, whatever the priorities of the
  treaps that are built.
\<close>

theorem load_stored_node:
  assumes chain: "onChain hashH params header isKey n" and db: "stored db n hash" and size: "size (root (liveTickets n)) < 2 ^ 32"
    and key: "isKey \<longleftrightarrow> HashToBig hash \<le> CompactToBig (Bits header)"
  shows "\<exists>r. LoadBestNode hashH rnd db (height n) (keyHeight n) hash header params = Some (Inr r) \<and> sameNode r n"
proof -
  note last = onChain_last [OF chain]
  have wf: "wf_node n" using onChain_inv [OF chain] by (simp add: nodeInv_def goodNode_def)
  obtain r where r: "nodeRest r = nodeRest (n\<lparr>nextWinners := [], finalState := replicate 6 0, nodeParams := params\<rparr>)" "wf_node r" "nodeView r = nodeView n"
    "LoadBestNode hashH rnd db (height n) (keyHeight n) hash header params =
      (if drawsWinners params header isKey
       then restoreFinalState hashH header
         (r\<lparr>nextWinners := nextWinners n @ replicate (unat (TicketsPerBlock (nodeParams n)) - length (nextWinners n)) (replicate 32 0)\<rparr>)
       else Some (Inr r))" by (rule load_reads [OF wf db size key])
  show ?thesis
  proof (cases "drawsWinners params header isKey")
    case True
    then obtain idxs prng where d: "drawSource hashH header n = Some (Inr (idxs, prng))" "finalState n = finalStateOf hashH (nextWinners n) prng"
      "length (nextWinners n) = unat (TicketsPerBlock params)" "nodeParams n = params" using last by auto
    have "wf_node (r\<lparr>nextWinners := nextWinners n\<rparr>)" "nodeView (r\<lparr>nextWinners := nextWinners n\<rparr>) = nodeView n" using r(2,3) by simp_all
    from restoreFinalState_eq [OF this(1) wf this(2) _ d(1)] r True d show ?thesis by (simp add: sameNode_def nodeRest_eq)
  next
    case False
    with r last show ?thesis by (simp add: sameNode_def nodeRest_eq)
  qed
qed

section \<open>The example chain in the database\<close>

lemma created_ready:
  "\<exists>db. DbCreate now \<lparr>dbMeta = Map.empty, dbBuckets = Map.empty\<rparr> = Inr db \<and> dbReady db \<and> dbView db = nodeView (genesisNode params)"
proof -
  let ?info = "[(map (of_nat \<circ> of_char) StakeDbInfoBucketName,
    serializeDatabaseInfo \<lparr>di_Version = currentDatabaseVersion, Date = now, UpgradeStarted = False\<rparr>)]"
  let ?db = "\<lparr>dbMeta = Map.empty, dbBuckets = [StakeDbInfoBucketName \<mapsto> ?info, bucketName Live \<mapsto> [], bucketName MissedKind \<mapsto> [],
    bucketName RevokedKind \<mapsto> [], StakeBlockUndoDataBucketName \<mapsto> [], TicketsInBlockBucketName \<mapsto> []]\<rparr>"
  note names = other_names(1-3) [of Live] other_names(1-3) [of MissedKind] other_names(1-3) [of RevokedKind] other_names(4-6)
  have ne: "LiveTicketsBucketName \<noteq> MissedTicketsBucketName" "LiveTicketsBucketName \<noteq> RevokedTicketsBucketName"
    "MissedTicketsBucketName \<noteq> RevokedTicketsBucketName"
    by (simp_all add: LiveTicketsBucketName_def MissedTicketsBucketName_def RevokedTicketsBucketName_def)
  have "DbCreate now \<lparr>dbMeta = Map.empty, dbBuckets = Map.empty\<rparr> = Inr ?db"
    using names names [symmetric] ne ne [symmetric] by (simp add: DbCreate_def CreateBucket_def DbPutDatabaseInfo_def bucketPut_def Bucket_def)
  moreover have v: "dbBuckets ?db (bucketName b) = Some []" for b using names names [symmetric] ne ne [symmetric] by (cases b) simp_all
  moreover have "dbReady ?db"
  proof -
    have "dbInv ?db" using v by (simp add: dbInv_def bucketOk_def)
    moreover have "\<exists>info. DbFetchDatabaseInfo ?db = Inr (Some info)"
      using names names [symmetric] by (simp add: DbFetchDatabaseInfo_def serializeDatabaseInfo_def deserializeDatabaseInfo_def databaseInfoSize_def slice_def Let_def)
    ultimately show ?thesis by (simp add: dbReady_def)
  qed
  moreover have "dbView ?db = nodeView (genesisNode params)"
  proof -
    have "nodeTreap b (genesisNode params) = NewImmutable" for b by (cases b) (simp_all add: genesisNode_def)
    then show ?thesis using v by (simp add: dbView_def nodeView_def wf_NewImmutable(2) fun_eq_iff)
  qed
  ultimately show ?thesis by blast
qed

lemma initial_stored:
  assumes "length hash = 32"
  shows "\<exists>db. InitDatabaseState now hash \<lparr>dbMeta = Map.empty, dbBuckets = Map.empty\<rparr> params = Inr (genesisNode params, db) \<and>
    stored db (genesisNode params) hash"
proof -
  obtain db where db: "DbCreate now \<lparr>dbMeta = Map.empty, dbBuckets = Map.empty\<rparr> = Inr db" "dbReady db" "dbView db = nodeView (genesisNode params)"
    using created_ready by blast
  have "wf_stored (genesisNode params) hash" using assms by (simp add: wf_stored_def genesisNode_def)
  from writeNodeState_ok [OF db(2,3) this, of 0] db(1) show ?thesis by (auto simp: InitDatabaseState_def Let_def)
qed

lemma example_stored: "\<exists>db. stored db exampleNode1 (replicate 32 0)"
proof -
  have s: "size (root (liveTickets exampleNode1)) < 2 ^ 32" by (simp add: exampleNode1_def)
  have g: "onChain id exampleParams (exampleHeader 0) False (genesisNode exampleParams)"
    by (rule onChain.genesis) (simp add: drawsWinners_def exampleParams_def realKeyHeight_def exampleHeader_def)
  obtain db where "stored db (genesisNode exampleParams) (replicate 32 0)" using initial_stored [of "replicate 32 0"] by auto
  from write_connected_node [OF this connected_moves(1) [OF g example_fresh(1) _ example_connect1 s] chain_wf_stored [OF example_chain(1)], of "replicate 32 0"]
  show ?thesis by auto
qed

lemma example_block:
  "bh_KeyHeight (exampleHeader 1) = realKeyHeight (exampleHeader 0) True" "height exampleNode1 \<noteq> - 1"
  "list_all (ExistsMissedTicket exampleNode1) []" "size (root (liveTickets exampleNode2)) < 2 ^ 32"
  by (simp_all add: exampleHeader_def realKeyHeight_def exampleNode1_def exampleNode2_def)

theorem database_follows_chain_witness:
  "\<exists>db. stored db exampleNode1 (replicate 32 0) \<and>
     (\<exists>db'. WriteConnectedBestNode db exampleNode2 (replicate 32 0) = Inr db' \<and> stored db' exampleNode2 (replicate 32 0) \<and>
       (\<exists>db''. WriteDisconnectedBestNode db' exampleNode1 (replicate 32 0) (databaseUndoUpdate exampleNode2) = Inr db'' \<and>
         stored db'' exampleNode1 (replicate 32 0)))"
proof -
  obtain db where db: "stored db exampleNode1 (replicate 32 0)" using example_stored by blast
  from database_follows_chain [OF example_chain(1) example_block(1,2) example_fresh(2) example_block(3) example_connect2 example_block(4) db, of "replicate 32 0"] db
  show ?thesis by auto
qed

theorem load_stored_node_witness:
  "\<exists>db. stored db exampleNode1 (replicate 32 0) \<and>
     (\<exists>r. LoadBestNode id (\<lambda>_ _. 3) db 1 0 (replicate 32 0) (exampleHeader 0) exampleParams = Some (Inr r) \<and> sameNode r exampleNode1)"
proof -
  obtain db where db: "stored db exampleNode1 (replicate 32 0)" using example_stored by blast
  have "True \<longleftrightarrow> HashToBig (replicate 32 0) \<le> CompactToBig (Bits (exampleHeader 0))" by code_simp
  moreover have "height exampleNode1 = 1" "keyHeight exampleNode1 = 0" "size (root (liveTickets exampleNode1)) < 2 ^ 32" by (simp_all add: exampleNode1_def)
  ultimately show ?thesis using load_stored_node [OF example_chain(1) db] db by fastforce
qed

end
