(* ===== verification/Compress.thy ===== *)
theory Compress
  imports Script
begin

unbundle bit_operations_syntax

text \<open>
  The compressed encodings of the block database (\<^verbatim>\<open>blockchain/compress.go\<close>): variable length quantities,
  compressed scripts and amounts, compressed transaction outputs and the flags byte.

  The code writes into slices that the caller provides. A writer takes the slice and returns what
  it then contains and the number of bytes written; writing to \<^verbatim>\<open>target[offset:]\<close> changes the tail of
  \<^verbatim>\<open>target\<close>. The curve behind \<^verbatim>\<open>chainec.Secp256k1\<close> is the argument \<open>ec\<close>: parsing a public key and
  serializing it without compression.
\<close>

section \<open>Writing into a slice\<close>

type_synonym 'e writer = "bytes \<Rightarrow> ('e, bytes \<times> int) result"

definition setAt :: "bytes \<Rightarrow> int \<Rightarrow> byte \<Rightarrow> ('e, bytes) result" where
  "setAt target i b = (if 0 \<le> i \<and> i < int (length target) then Inr (target[nat i := b]) else panic)"

text \<open>\<^verbatim>\<open>copy(target[lo:hi], src)\<close>.\<close>

definition copyTo :: "bytes \<Rightarrow> int \<Rightarrow> int \<Rightarrow> bytes \<Rightarrow> ('e, bytes) result" where
  "copyTo target lo hi src =
     bindE (slice target lo hi) (\<lambda>dst.
       let n = min (length dst) (length src)
       in Inr (take (nat lo) target @ take n src @ drop (nat lo + n) target))"


definition copyAt :: "bytes \<Rightarrow> int \<Rightarrow> bytes \<Rightarrow> ('e, bytes) result" where
  "copyAt target offset src = copyTo target offset (int (length target)) src"

section \<open>Variable length quantities\<close>

lemma vlq_next_less: "0x7f < n \<Longrightarrow> unat (drop_bit 7 n - 1) < unat (n :: 64 word)"
proof -
  assume n: "0x7f < n"
  have u: "unat (drop_bit 7 n) = unat n div 128" by (simp add: drop_bit_eq_div unat_div)
  moreover have "127 < unat n" using n by (simp add: word_less_nat_alt)
  ultimately have "1 \<le> unat (drop_bit 7 n)" by simp
  then have "unat (drop_bit 7 n - 1) = unat n div 128 - 1" using u by (simp add: unat_sub word_le_nat_alt)
  then show ?thesis using \<open>127 < unat n\<close> by simp
qed

function sizeVLQLoop :: "64 word \<Rightarrow> int \<Rightarrow> int" where
  "sizeVLQLoop n sz = (if n > 0x7f then sizeVLQLoop (drop_bit 7 n - 1) (sz + 1) else sz)"
  by pat_completeness auto
termination
  by (relation "measure (\<lambda>(n, sz). unat n)") (auto intro: vlq_next_less)

declare sizeVLQLoop.simps [simp del]

definition serializeSizeVLQ :: "64 word \<Rightarrow> int" where
  "serializeSizeVLQ n = sizeVLQLoop n 1"

function putVLQLoop :: "bytes \<Rightarrow> int \<Rightarrow> 64 word \<Rightarrow> ('e, bytes \<times> int) result" where
  "putVLQLoop target offset n =
     (let highBitMask = (if offset = 0 then 0x00 else 0x80 :: byte)
      in bindE (setAt target offset (ucast (n AND 0x7f) OR highBitMask)) (\<lambda>target.
           if n \<le> 0x7f then Inr (target, offset) else putVLQLoop target (offset + 1) (drop_bit 7 n - 1)))"
  by pat_completeness auto
termination
  by (relation "measure (\<lambda>(target, offset, n). unat n)") (auto intro: vlq_next_less simp: not_le)

declare putVLQLoop.simps [simp del]

text \<open>The bytes up to the offset are reversed in place; the indexes are in range.\<close>

function reverseLoop :: "bytes \<Rightarrow> nat \<Rightarrow> nat \<Rightarrow> bytes" where
  "reverseLoop target i j =
     (if i < j then reverseLoop (target[i := target ! j, j := target ! i]) (i + 1) (j - 1) else target)"
  by pat_completeness auto
termination
  by (relation "measure (\<lambda>(target, i, j). j)") auto

declare reverseLoop.simps [simp del]

definition putVLQ :: "64 word \<Rightarrow> 'e writer" where
  "putVLQ n target = bindE (putVLQLoop target 0 n) (\<lambda>(target, offset). Inr (reverseLoop target 0 (nat offset), offset + 1))"

primrec deserializeVLQLoop :: "bytes \<Rightarrow> 64 word \<Rightarrow> int \<Rightarrow> 64 word \<times> int" where
  "deserializeVLQLoop [] n sz = (n, sz)"
| "deserializeVLQLoop (val # vals) n sz =
     (let n = push_bit 7 n OR ucast (val AND 0x7f)
      in if val AND 0x80 \<noteq> 0x80 then (n, sz + 1) else deserializeVLQLoop vals (n + 1) (sz + 1))"

definition deserializeVLQ :: "bytes \<Rightarrow> 64 word \<times> int" where
  "deserializeVLQ serialized = deserializeVLQLoop serialized 0 0"

section \<open>Compressed scripts\<close>

definition cstPayToPubKeyHash :: nat where "cstPayToPubKeyHash = 0"
definition cstPayToScriptHash :: nat where "cstPayToScriptHash = 1"
definition cstPayToPubKeyCompEven :: nat where "cstPayToPubKeyCompEven = 2"
definition cstPayToPubKeyCompOdd :: nat where "cstPayToPubKeyCompOdd = 3"
definition cstPayToPubKeyUncompEven :: nat where "cstPayToPubKeyUncompEven = 4"
definition cstPayToPubKeyUncompOdd :: nat where "cstPayToPubKeyUncompOdd = 5"
definition cstPayToPubKeyHashBliss :: nat where "cstPayToPubKeyHashBliss = 6"
definition cstPayToPubKeyHashLms :: nat where "cstPayToPubKeyHashLms = 7"
definition numSpecialScripts :: nat where "numSpecialScripts = 64"

lemmas cst_defs = cstPayToPubKeyHash_def cstPayToScriptHash_def cstPayToPubKeyCompEven_def cstPayToPubKeyCompOdd_def
  cstPayToPubKeyUncompEven_def cstPayToPubKeyUncompOdd_def cstPayToPubKeyHashBliss_def cstPayToPubKeyHashLms_def numSpecialScripts_def

record 'pk keyParser =
  parseKey :: "bytes \<Rightarrow> 'pk option"
  serializeUncompressed :: "'pk \<Rightarrow> bytes"

text \<open>The flag and the slice that go with it, as an option; the conditions check the length first.\<close>

definition isPubKeyHash :: "bytes \<Rightarrow> bytes option" where
  "isPubKeyHash script =
     (if length script = 25 \<and> script ! 0 = OP_DUP \<and> script ! 1 = OP_HASH160 \<and> script ! 2 = OP_DATA_20 \<and>
         script ! 23 = OP_EQUALVERIFY \<and> script ! 24 = OP_CHECKSIG
      then Some (take 20 (drop 3 script)) else None)"

definition isOneByteMaxDataPush :: "byte \<Rightarrow> bool" where
  "isOneByteMaxDataPush opc \<longleftrightarrow> opc = OP_1 \<or> opc = OP_2 \<or> opc = OP_3 \<or> opc = OP_4 \<or> opc = OP_5 \<or> opc = OP_6 \<or> opc = OP_7 \<or> opc = OP_8 \<or>
     opc = OP_9 \<or> opc = OP_10 \<or> opc = OP_11 \<or> opc = OP_12 \<or> opc = OP_13 \<or> opc = OP_14 \<or> opc = OP_15 \<or> opc = OP_16 \<or> opc = OP_DATA_1"

definition isPubKeyHashAlt :: "bytes \<Rightarrow> (bytes \<times> byte) option" where
  "isPubKeyHashAlt script =
     (if length script = 26 \<and> script ! 0 = OP_DUP \<and> script ! 1 = OP_HASH160 \<and> script ! 2 = OP_DATA_20 \<and>
         script ! 23 = OP_EQUALVERIFY \<and> isOneByteMaxDataPush (script ! 24) \<and> script ! 25 = OP_CHECKSIGALT
      then Some (take 20 (drop 3 script), script ! 24) else None)"

definition isScriptHash :: "bytes \<Rightarrow> bytes option" where
  "isScriptHash script =
     (if length script = 23 \<and> script ! 0 = OP_HASH160 \<and> script ! 1 = OP_DATA_20 \<and> script ! 22 = OP_EQUAL
      then Some (take 20 (drop 2 script)) else None)"

definition isPubKey :: "'pk keyParser \<Rightarrow> bytes \<Rightarrow> bytes option" where
  "isPubKey ec script =
     (if length script = 35 \<and> script ! 0 = 0x21 \<and> script ! 34 = OP_CHECKSIG \<and> (script ! 1 = 0x02 \<or> script ! 1 = 0x03) \<and>
         parseKey ec (take 33 (drop 1 script)) \<noteq> None
      then Some (take 33 (drop 1 script))
      else if length script = 67 \<and> script ! 0 = 0x41 \<and> script ! 66 = OP_CHECKSIG \<and> script ! 1 = 0x04 \<and>
         parseKey ec (take 65 (drop 1 script)) \<noteq> None
      then Some (take 65 (drop 1 script))
      else None)"



text \<open>The type byte and the bytes of a key or hash.\<close>

definition putSpecial :: "nat \<Rightarrow> int \<Rightarrow> bytes \<Rightarrow> 'e writer" where
  "putSpecial tag n payload target =
     bindE (setAt target 0 (word_of_nat tag)) (\<lambda>target.
     bindE (copyTo target 1 n payload) (\<lambda>target. Inr (target, n)))"

definition putUncompressed :: "bytes \<Rightarrow> 'e writer" where
  "putUncompressed pkScript target =
     bindE (putVLQ (word_of_nat (length pkScript + numSpecialScripts)) target) (\<lambda>(target, vlqSizeLen).
     bindE (copyAt target vlqSizeLen pkScript) (\<lambda>target. Inr (target, vlqSizeLen + int (length pkScript))))"

definition putCompressedScript :: "'pk keyParser \<Rightarrow> bytes \<Rightarrow> 'e writer" where
  "putCompressedScript ec pkScript target =
     (if length target = 0 then bindE (setAt target 0 0x00) (\<lambda>target. Inr (target, 1))
      else case isPubKeyHash pkScript of
        Some hash \<Rightarrow> putSpecial cstPayToPubKeyHash 21 hash target
      | None \<Rightarrow> (case isScriptHash pkScript of
        Some hash \<Rightarrow> putSpecial cstPayToScriptHash 21 hash target
      | None \<Rightarrow> (case isPubKey ec pkScript of
        Some serializedPubKey \<Rightarrow>
          (let pubKeyFormat = serializedPubKey ! 0
           in if pubKeyFormat = 0x02 then putSpecial cstPayToPubKeyCompEven 33 (take 32 (drop 1 serializedPubKey)) target
              else if pubKeyFormat = 0x03 then putSpecial cstPayToPubKeyCompOdd 33 (take 32 (drop 1 serializedPubKey)) target
              else putSpecial (if serializedPubKey ! 64 AND 0x01 = 0x01 then cstPayToPubKeyUncompOdd else cstPayToPubKeyUncompEven) 33
                     (take 32 (drop 1 serializedPubKey)) target)
      | None \<Rightarrow> (case isPubKeyHashAlt pkScript of
        Some (hash, tp) \<Rightarrow>
          putSpecial (if tp = 0x05 \<or> tp = 0x55 then cstPayToPubKeyHashLms else cstPayToPubKeyHashBliss) 21 hash target
      | None \<Rightarrow> putUncompressed pkScript target))))"

definition pubKeyHashScript :: "bytes \<Rightarrow> bytes" where
  "pubKeyHashScript h = [OP_DUP, OP_HASH160, OP_DATA_20] @ h @ [OP_EQUALVERIFY, OP_CHECKSIG]"

definition altHashScript :: "bytes \<Rightarrow> byte \<Rightarrow> bytes" where
  "altHashScript h tp = [OP_DUP, OP_HASH160, OP_DATA_20] @ h @ [OP_EQUALVERIFY, tp, OP_CHECKSIGALT]"

text \<open>
  A nil script is the empty list. The slices are taken from the compressed script, which the caller has
  shown to be long enough; \<^verbatim>\<open>make\<close> panics on a negative size.
\<close>

definition decompressScript :: "'pk keyParser \<Rightarrow> bytes \<Rightarrow> ('e, bytes) result" where
  "decompressScript ec compressedPkScript =
     (if length compressedPkScript = 0 then Inr []
      else case deserializeVLQ compressedPkScript of (encodedScriptSize, bytesRead) \<Rightarrow>
        let sz = unat encodedScriptSize; payload = (\<lambda>n. slice compressedPkScript bytesRead (bytesRead + n))
        in if sz = cstPayToPubKeyHash then bindE (payload 20) (\<lambda>h. Inr (pubKeyHashScript h))
           else if sz = cstPayToScriptHash then bindE (payload 20) (\<lambda>h. Inr ([OP_HASH160, OP_DATA_20] @ h @ [OP_EQUAL]))
           else if sz = cstPayToPubKeyCompEven \<or> sz = cstPayToPubKeyCompOdd
           then bindE (payload 32) (\<lambda>x. Inr ([0x21, if sz = cstPayToPubKeyCompOdd then 0x03 else 0x02] @ x @ [OP_CHECKSIG]))
           else if sz = cstPayToPubKeyUncompEven \<or> sz = cstPayToPubKeyUncompOdd
           then bindE (copyTo (replicate 33 0) 1 33 (drop 1 compressedPkScript)) (\<lambda>compressedKey.
                (case parseKey ec (compressedKey[0 := if sz = cstPayToPubKeyUncompOdd then 0x03 else 0x02]) of
                   None \<Rightarrow> Inr []
                 | Some key \<Rightarrow>
                     bindE (copyTo (replicate 67 0) 1 67 (serializeUncompressed ec key)) (\<lambda>pkScript.
                       Inr (pkScript[0 := 0x41, 66 := OP_CHECKSIG]))))
           else if sz = cstPayToPubKeyHashBliss then bindE (payload 20) (\<lambda>h. Inr (altHashScript h 4))
           else if sz = cstPayToPubKeyHashLms then bindE (payload 20) (\<lambda>h. Inr (altHashScript h 5))
           else let scriptSize = sint (encodedScriptSize - word_of_nat numSpecialScripts)
                in if scriptSize < 0 then panic else slice compressedPkScript bytesRead (bytesRead + scriptSize))"

section \<open>Amounts\<close>

primrec exponentLoop :: "nat \<Rightarrow> 64 word \<Rightarrow> nat \<Rightarrow> 64 word \<times> nat" where
  "exponentLoop 0 amount exponent = (amount, exponent)"
| "exponentLoop (Suc n) amount exponent =
     (if amount mod 10 = 0 then exponentLoop n (amount div 10) (exponent + 1) else (amount, exponent))"

text \<open>The loop that finds the exponent runs while it is below nine.\<close>

definition compressTxOutAmount :: "64 word \<Rightarrow> 64 word" where
  "compressTxOutAmount amount =
     (if amount = 0 then 0
      else case exponentLoop 9 amount 0 of (amount, exponent) \<Rightarrow>
        if exponent < 9 then 1 + 10 * (9 * (amount div 10) + amount mod 10 - 1) + word_of_nat exponent
        else 10 + 10 * (amount - 1))"

definition decompressTxOutAmount :: "64 word \<Rightarrow> 64 word" where
  "decompressTxOutAmount amount =
     (if amount = 0 then 0
      else let amount = amount - 1; exponent = amount mod 10; amount = amount div 10;
               n = (if exponent < 9 then (amount div 9) * 10 + (amount mod 9 + 1) else amount + 1)
           in ((\<lambda>n. n * 10) ^^ unat exponent) n)"

section \<open>Transaction outputs\<close>





section \<open>Flags\<close>

definition txTypeBitmask :: byte where "txTypeBitmask = 0x0c"
definition txTypeShift :: nat where "txTypeShift = 2"

definition encodeFlags :: "bool \<Rightarrow> bool \<Rightarrow> int \<Rightarrow> bool \<Rightarrow> byte" where
  "encodeFlags isCoinBase hasExpiry txType fullySpent =
     push_bit txTypeShift (word_of_int txType) OR (if isCoinBase then 0x01 else 0) OR (if hasExpiry then 0x02 else 0) OR
     (if fullySpent then 0x10 else 0)"

definition decodeFlags :: "byte \<Rightarrow> bool \<times> bool \<times> int \<times> bool" where
  "decodeFlags b = (b AND 0x01 \<noteq> 0, b AND push_bit 1 1 \<noteq> 0, uint (drop_bit txTypeShift (b AND txTypeBitmask)), b AND push_bit 4 1 \<noteq> 0)"

definition decodeFlagsFullySpent :: "byte \<Rightarrow> bool" where
  "decodeFlagsFullySpent b \<longleftrightarrow> b AND push_bit 4 1 \<noteq> 0"

section \<open>Writers and readers of a slice\<close>

text \<open>A writer that writes the given bytes whenever the slice has room for them.\<close>

definition writes :: "'e writer \<Rightarrow> bytes \<Rightarrow> bool" where
  "writes w bs \<longleftrightarrow> (\<forall>target. length bs \<le> length target \<longrightarrow> w target = Inr (bs @ drop (length bs) target, int (length bs)))"

lemma writesD: "writes w bs \<Longrightarrow> length bs \<le> length target \<Longrightarrow> w target = Inr (bs @ drop (length bs) target, int (length bs))"
  by (simp add: writes_def)



text \<open>
  The interface of a variable length field: what is written, its size computed beforehand, and what
  is read from the front of a slice with the number of bytes read.
\<close>

locale packed =
  fixes put :: "'a \<Rightarrow> 'e writer" and sizeOf :: "'a \<Rightarrow> int" and enc :: "'a \<Rightarrow> bytes" and get :: "bytes \<Rightarrow> 'a \<times> int"
  assumes put_writes: "writes (put x) (enc x)"
    and sizeOf_enc: "sizeOf x = int (length (enc x))"
    and get_enc: "get (enc x @ rest) = (x, int (length (enc x)))"
begin

lemma enc_inj: "enc x @ r = enc y @ s \<Longrightarrow> x = y \<and> r = s"
  using get_enc [of x r] get_enc [of y s] by simp

lemma put_get:
  assumes "sizeOf x \<le> int (length target)"
  obtains target' where "put x target = Inr (target', sizeOf x)" "length target' = length target" "get target' = (x, sizeOf x)"
    "drop (nat (sizeOf x)) target' = drop (nat (sizeOf x)) target"
  using assms writesD [OF put_writes, of x target] get_enc by (simp add: sizeOf_enc that)

end

section \<open>Variable length quantities are read back\<close>

function vlqHigh :: "64 word \<Rightarrow> bytes" where
  "vlqHigh n = (if n \<le> 0x7f then [] else vlqHigh (drop_bit 7 n - 1)) @ [ucast (n AND 0x7f) OR 0x80]"
  by pat_completeness auto
termination
  by (relation "measure unat") (auto intro: vlq_next_less simp: not_le)

declare vlqHigh.simps [simp del]

definition vlq :: "64 word \<Rightarrow> bytes" where
  "vlq n = (if n \<le> 0x7f then [] else vlqHigh (drop_bit 7 n - 1)) @ [ucast (n AND 0x7f)]"

lemma setAt_append: "setAt (pre @ x # post) (int (length pre)) b = Inr (pre @ b # post)"
  by (simp add: setAt_def)

lemma putVLQLoop_high:
  "pre \<noteq> [] \<Longrightarrow> length (vlqHigh n) \<le> length rest \<Longrightarrow>
     putVLQLoop (pre @ rest) (int (length pre)) n =
       Inr (pre @ rev (vlqHigh n) @ drop (length (vlqHigh n)) rest, int (length pre) + int (length (vlqHigh n)) - 1)"
proof (induction n arbitrary: pre rest rule: vlqHigh.induct)
  case (1 n)
  let ?b = "ucast (n AND 0x7f) OR 0x80 :: byte"
  note v = vlqHigh.simps [of n]
  obtain x rest' where rest: "rest = x # rest'" using "1.prems"(2) v by (cases rest) (simp_all split: if_splits)
  have s: "setAt (pre @ rest) (int (length pre)) ?b = Inr (pre @ ?b # rest')" unfolding rest by (rule setAt_append)
  show ?case
  proof (cases "n \<le> 0x7f")
    case True
    then show ?thesis using "1.prems"(1) v by (subst putVLQLoop.simps) (simp add: Let_def s [unfolded rest] rest)
  next
    case False
    from "1.IH" [OF False, of "pre @ [?b]" rest'] "1.prems" False v show ?thesis
      by (subst putVLQLoop.simps) (simp add: Let_def s [unfolded rest] rest add.commute)
  qed
qed

lemma putVLQLoop_all:
  assumes "length (vlq n) \<le> length target"
  shows "putVLQLoop target 0 n = Inr (rev (vlq n) @ drop (length (vlq n)) target, int (length (vlq n)) - 1)"
proof -
  let ?b = "ucast (n AND 0x7f) :: byte"
  obtain x rest where t: "target = x # rest" using assms by (cases target) (simp_all add: vlq_def)
  have s: "setAt target 0 ?b = Inr (?b # rest)" by (simp add: setAt_def t)
  show ?thesis
  proof (cases "n \<le> 0x7f")
    case True
    then show ?thesis by (subst putVLQLoop.simps) (simp add: Let_def s [unfolded t] t vlq_def)
  next
    case False
    with putVLQLoop_high [of "[?b]" "drop_bit 7 n - 1" rest] assms show ?thesis
      by (subst putVLQLoop.simps) (simp add: Let_def s [unfolded t] t vlq_def)
  qed
qed

lemma nth_swap: "i < length xs \<Longrightarrow> j < length xs \<Longrightarrow> k < length xs \<Longrightarrow>
  xs[i := xs ! j, j := xs ! i] ! k = (if k = i then xs ! j else if k = j then xs ! i else xs ! k)"
  by (simp add: nth_list_update)

lemma length_reverseLoop [simp]: "length (reverseLoop target i j) = length target"
  by (induction target i j rule: reverseLoop.induct) (subst reverseLoop.simps, simp)

lemma nth_reverseLoop:
  "j < length target \<Longrightarrow> k < length target \<Longrightarrow> reverseLoop target i j ! k = (if i \<le> k \<and> k \<le> j then target ! (i + j - k) else target ! k)"
proof (induction target i j rule: reverseLoop.induct)
  case (1 target i j)
  show ?case
  proof (cases "i < j")
    case True
    then have i: "i < length target" using "1.prems" by simp
    have idx: "i + 1 \<le> k \<Longrightarrow> k \<le> j - 1 \<Longrightarrow> i + j - k < length target \<and> i + j - k \<noteq> i \<and> i + j - k \<noteq> j" using "1.prems" by linarith
    have "i + 1 + (j - 1) - k = i + j - k" using True by simp
    then show ?thesis using "1.IH" [OF True] "1.prems" True i idx nth_swap [of i target j]
      by (subst reverseLoop.simps) (auto simp del: nth_list_update)
  next
    case False
    then have "i \<le> k \<Longrightarrow> k \<le> j \<Longrightarrow> i + j - k = k" by linarith
    then show ?thesis using False by (subst reverseLoop.simps) simp
  qed
qed

lemma reverseLoop_rev: "xs \<noteq> [] \<Longrightarrow> reverseLoop (xs @ ys) 0 (length xs - 1) = rev xs @ ys"
proof (rule nth_equalityI)
  fix k assume "xs \<noteq> []" "k < length (reverseLoop (xs @ ys) 0 (length xs - 1))"
  moreover from this have "k \<le> length xs - 1 \<longleftrightarrow> k < length xs" by (cases xs) auto
  ultimately show "reverseLoop (xs @ ys) 0 (length xs - 1) ! k = (rev xs @ ys) ! k"
    by (auto simp: nth_reverseLoop nth_append rev_nth)
qed simp

lemma vlq_nonempty [simp]: "vlq n \<noteq> []"
  by (simp add: vlq_def)

lemma putVLQ_writes: "writes (putVLQ n) (vlq n)"
proof -
  have "nat (int (length (vlq n)) - 1) = length (rev (vlq n)) - 1" by simp
  moreover have "rev (vlq n) \<noteq> []" by simp
  ultimately show ?thesis unfolding writes_def using reverseLoop_rev [of "rev (vlq n)"]
    by (auto simp: putVLQ_def putVLQLoop_all)
qed

lemma sizeVLQLoop_high: "sizeVLQLoop n sz = sz + int (length (vlqHigh n)) - 1"
proof (induction n sz rule: sizeVLQLoop.induct)
  case (1 n sz)
  then show ?case by (subst sizeVLQLoop.simps, subst vlqHigh.simps) (auto simp: not_le)
qed

lemma serializeSizeVLQ_eq: "serializeSizeVLQ n = int (length (vlq n))"
  unfolding serializeSizeVLQ_def vlq_def by (subst sizeVLQLoop.simps) (auto simp: sizeVLQLoop_high not_le)

lemma digit_back: "push_bit 7 (drop_bit 7 n) OR (n AND 0x7f) = (n :: 64 word)"
proof -
  have "(0x7f :: 64 word) = mask 7" by (simp add: mask_eq_exp_minus_1)
  then have "n AND 0x7f = take_bit 7 n" by (simp add: take_bit_eq_mask)
  then show ?thesis by (intro bit_word_eqI) (auto simp: bit_simps)
qed

lemma byte_digit: "ucast ((ucast (n AND 0x7f) :: byte) AND 0x7f) = n AND (0x7f :: 64 word)" "ucast ((ucast (n AND 0x7f) OR 0x80 :: byte) AND 0x7f) = n AND (0x7f :: 64 word)"
  "(ucast (n AND (0x7f :: 64 word)) :: byte) AND 0x80 \<noteq> 0x80" "(ucast (n AND (0x7f :: 64 word)) OR 0x80 :: byte) AND 0x80 = 0x80"
proof -
  let ?d = "ucast (n AND 0x7f) :: byte"
  have m: "(0x7f :: 64 word) = mask 7" "(0x7f :: byte) = mask 7" by (simp_all add: mask_eq_exp_minus_1)
  have d: "ucast ?d = n AND 0x7f" "?d AND 0x7f = ?d" unfolding m by (auto intro!: bit_word_eqI simp: bit_simps)
  have "uint ?d = uint (?d AND 0x7f)" using d(2) by simp
  then have small: "uint ?d < 128" by (simp add: and_7f)
  then have z: "?d AND 0x80 = 0" by (simp add: and_80_iff)
  show "ucast (?d AND 0x7f) = n AND 0x7f" using d by simp
  show "ucast ((?d OR 0x80) AND 0x7f) = n AND 0x7f" using d(1) or_80_and_7f [OF small] by simp
  show "?d AND 0x80 \<noteq> 0x80" using z by simp
  show "(?d OR 0x80) AND 0x80 = 0x80" using z by (simp add: bit.conj_disj_distrib2)
qed

lemma small_digit: "n \<le> 0x7f \<Longrightarrow> n AND 0x7f = (n :: 64 word)"
proof -
  assume "n \<le> 0x7f"
  then have "uint n < 2 ^ 7" by (simp add: word_le_def)
  then have "take_bit 7 n = n" by (simp add: word_uint_eq_iff unsigned_take_bit_eq take_bit_int_eq_self)
  then show ?thesis by (simp add: take_bit_eq_mask mask_eq_exp_minus_1)
qed

lemma deserialize_high:
  "deserializeVLQLoop (vlqHigh n @ rest) 0 sz = deserializeVLQLoop rest (n + 1) (sz + int (length (vlqHigh n)))"
proof (induction n arbitrary: rest sz rule: vlqHigh.induct)
  case (1 n)
  show ?case
  proof (cases "n \<le> 0x7f")
    case True
    with small_digit [OF this] byte_digit [of n] show ?thesis by (subst vlqHigh.simps, subst (2) vlqHigh.simps) (simp add: Let_def)
  next
    case False
    from "1.IH" [OF this] show ?thesis
      by (subst vlqHigh.simps, subst (2) vlqHigh.simps) (simp add: Let_def byte_digit digit_back False add.commute add.left_commute)
  qed
qed

lemma deserializeVLQ_vlq: "deserializeVLQ (vlq n @ rest) = (n, int (length (vlq n)))"
proof (cases "n \<le> 0x7f")
  case True
  with small_digit [OF this] byte_digit [of n] show ?thesis by (simp add: deserializeVLQ_def vlq_def Let_def)
next
  case False
  then show ?thesis by (simp add: deserializeVLQ_def vlq_def deserialize_high Let_def byte_digit digit_back)
qed

interpretation vlq: packed putVLQ serializeSizeVLQ vlq deserializeVLQ
  by unfold_locales (simp_all add: putVLQ_writes serializeSizeVLQ_eq deserializeVLQ_vlq)

section \<open>Every short encoding is canonical\<close>

lemma unat64: "x < 2 ^ 64 \<Longrightarrow> unat (word_of_nat x :: 64 word) = x"
  by (simp add: unsigned_of_nat take_bit_nat_eq_self)

lemma ucast_byte64: "unat (ucast (b :: byte) :: 64 word) = unat b" "ucast (ucast (b :: byte) :: 64 word) = b"
proof -
  have "int (unat b) = uint b" by simp
  then have "unat b < 256" using uint_byte_bounds(2) [of b] by linarith
  then show u: "unat (ucast b :: 64 word) = unat b" by (simp add: unsigned_ucast_eq take_bit_nat_eq_self)
  show "ucast (ucast b :: 64 word) = b" by (rule bit_word_eqI) (simp add: bit_simps)
qed

lemma low7: "uint (d :: byte) < 128 \<Longrightarrow> unat d < 128"
proof -
  have "int (unat d) = uint d" by simp
  then show "uint d < 128 \<Longrightarrow> unat d < 128" by linarith
qed

lemma vlq_digit_unat:
  assumes "unat m + 3 \<le> 2 ^ 57" "uint d < 128"
  defines "n \<equiv> word_of_nat ((unat m + 1) * 128 + unat d) :: 64 word"
  shows "unat n = (unat m + 1) * 128 + unat d" "drop_bit 7 n - 1 = (m :: 64 word)" "ucast (n AND 0x7f) = (d :: byte)" "\<not> n \<le> 0x7f"
proof -
  note d = low7 [OF assms(2)]
  have dm: "(q * 128 + unat d) div 128 = q" "(q * 128 + unat d) mod 128 = unat d" for q using d by simp_all
  show u: "unat n = (unat m + 1) * 128 + unat d" unfolding n_def by (rule unat64) (use assms(1) d in simp)
  have "unat (drop_bit 7 n) = unat m + 1" using u dm(1) by (simp only: drop_bit_eq_div unat_div) simp
  then have "drop_bit 7 n = m + 1" using assms(1) by (simp add: word_unat_eq_iff unat_word_ariths)
  then show "drop_bit 7 n - 1 = m" by simp
  have "n AND mask 7 = n mod 128" by (simp add: take_bit_eq_mod flip: take_bit_eq_mask)
  then have "n AND 0x7f = n mod 128" by (simp add: mask_eq_exp_minus_1)
  moreover have "unat n mod 128 = unat d" by (simp only: u dm(2))
  then have "unat (n mod 128) = unat d" by (simp add: unat_mod)
  ultimately have "n AND 0x7f = ucast d" using ucast_byte64(1) [of d] by (simp only: word_unat_eq_iff)
  then show "ucast (n AND 0x7f) = d" by (simp only: ucast_byte64(2))
  show "\<not> n \<le> 0x7f" using u by (simp add: word_le_nat_alt)
qed

lemma high_byte: "(b :: byte) AND 0x80 = 0x80 \<Longrightarrow> uint (b AND 0x7f) < 128 \<and> (b AND 0x7f) OR 0x80 = b"
proof -
  assume "b AND 0x80 = 0x80"
  then have "(b AND 0x7f) OR 0x80 = (b AND 0x7f) OR (b AND 0x80)" by simp
  also have "\<dots> = b AND (0x7f OR 0x80)" by (rule bit.conj_disj_distrib [symmetric])
  also have "(0x7f OR 0x80 :: byte) = - 1" by simp
  finally show ?thesis by (simp add: and_7f)
qed

lemma digit_bound: "d < 128 \<Longrightarrow> m + 3 \<le> p \<Longrightarrow> (m + 1) * 128 + d + 3 \<le> 128 * (p :: nat)"
  by simp

lemma vlqHigh_unique:
  "hs \<noteq> [] \<Longrightarrow> \<forall>b \<in> set hs. b AND 0x80 = 0x80 \<Longrightarrow> length hs \<le> 8 \<Longrightarrow> \<exists>m. hs = vlqHigh m \<and> unat m + 3 \<le> 2 ^ (7 * length hs + 1)"
proof (induction hs rule: rev_induct)
  case (snoc b hs)
  have b: "uint (b AND 0x7f) < 128" "(b AND 0x7f) OR 0x80 = b" using snoc.prems(2) high_byte by auto
  show ?case
  proof (cases "hs = []")
    case True
    let ?m = "ucast (b AND 0x7f) :: 64 word"
    have "unat ?m < 128" using low7 [OF b(1)] ucast_byte64(1) by simp
    then have m: "?m \<le> 0x7f" "unat ?m + 3 \<le> 2 ^ (7 * length (hs @ [b]) + 1)" using True by (simp_all add: word_le_nat_alt)
    have "vlqHigh ?m = [b]" using b(2) small_digit [OF m(1)] m(1) by (subst vlqHigh.simps) (simp add: ucast_byte64(2))
    with True m(2) show ?thesis by (metis append_Nil)
  next
    case False
    from snoc.IH [OF False] snoc.prems obtain m where m: "hs = vlqHigh m" "unat m + 3 \<le> 2 ^ (7 * length hs + 1)" by auto
    have "(2 :: nat) ^ (7 * length hs + 1) \<le> 2 ^ 57" using snoc.prems(3) by (intro power_increasing) simp_all
    then have b57: "unat m + 3 \<le> 2 ^ 57" using m(2) by linarith
    let ?n = "word_of_nat ((unat m + 1) * 128 + unat (b AND 0x7f)) :: 64 word"
    note n = vlq_digit_unat [OF b57 b(1)]
    have "vlqHigh ?n = hs @ [b]" using n(2-4) m(1) b(2) by (subst vlqHigh.simps) simp
    moreover have "unat ?n + 3 \<le> 2 ^ (7 * length (hs @ [b]) + 1)"
    proof -
      have "unat (b AND 0x7f) < 128" by (rule low7 [OF b(1)])
      from digit_bound [OF this m(2)] have "unat ?n + 3 \<le> 128 * 2 ^ (7 * length hs + 1)" unfolding n(1) .
      then show ?thesis by (simp add: power_add)
    qed
    ultimately show ?thesis by metis
  qed
qed simp

lemma vlq_unique:
  assumes "\<forall>b \<in> set hs. b AND 0x80 = 0x80" "l AND 0x80 = 0" "length hs \<le> 8"
  shows "\<exists>n. hs @ [l] = vlq n"
proof (cases "hs = []")
  case True
  have "unat l < 128" using assms(2) by (intro low7) (simp add: and_80_iff)
  then have "(ucast l :: 64 word) \<le> 0x7f" by (simp add: word_le_nat_alt ucast_byte64(1))
  then have "vlq (ucast l) = [l]" using small_digit [of "ucast l"] by (simp add: vlq_def ucast_byte64(2))
  with True show ?thesis by (metis append_Nil)
next
  case False
  from vlqHigh_unique [OF this assms(1,3)] obtain m where m: "hs = vlqHigh m" "unat m + 3 \<le> 2 ^ (7 * length hs + 1)" by auto
  have "(2 :: nat) ^ (7 * length hs + 1) \<le> 2 ^ 57" using assms(3) by (intro power_increasing) simp_all
  then have b57: "unat m + 3 \<le> 2 ^ 57" using m(2) by linarith
  note n = vlq_digit_unat [OF b57, of l]
  have "vlq (word_of_nat ((unat m + 1) * 128 + unat l)) = hs @ [l]" using n(2-4) assms(2) m(1) by (simp add: vlq_def and_80_iff)
  then show ?thesis by metis
qed

text \<open>
  C40. Variable length quantities: a number is written in the bytes that were computed for it and read
  back with the same number of bytes, whatever follows; and up to nine bytes, every sequence that ends with its first byte
  below 128 is the encoding of the number it is read as.
\<close>

theorem vlq_round_trip:
  "(serializeSizeVLQ n \<le> int (length target) \<longrightarrow>
     (\<exists>bs. putVLQ n target = Inr (bs @ drop (length bs) target, serializeSizeVLQ n) \<and> int (length bs) = serializeSizeVLQ n \<and>
       deserializeVLQ (bs @ rest) = (n, serializeSizeVLQ n))) \<and>
   (list_all (\<lambda>b. b AND 0x80 = 0x80) hs \<and> l AND 0x80 = 0 \<and> length hs \<le> 8 \<longrightarrow>
     putVLQ (fst (deserializeVLQ (hs @ [l]))) (replicate (length (hs @ [l])) 0) = Inr (hs @ [l], int (length (hs @ [l]))))"
proof (intro conjI impI)
  assume "serializeSizeVLQ n \<le> int (length target)"
  then show "\<exists>bs. putVLQ n target = Inr (bs @ drop (length bs) target, serializeSizeVLQ n) \<and> int (length bs) = serializeSizeVLQ n \<and>
       deserializeVLQ (bs @ rest) = (n, serializeSizeVLQ n)"
    by (intro exI [of _ "vlq n"]) (simp add: serializeSizeVLQ_eq deserializeVLQ_vlq writesD [OF putVLQ_writes])
next
  assume "list_all (\<lambda>b. b AND 0x80 = 0x80) hs \<and> l AND 0x80 = 0 \<and> length hs \<le> 8"
  then obtain m where m: "hs @ [l] = vlq m" using vlq_unique [of hs l] by (auto simp: list_all_iff)
  show "putVLQ (fst (deserializeVLQ (hs @ [l]))) (replicate (length (hs @ [l])) 0) = Inr (hs @ [l], int (length (hs @ [l])))"
    unfolding m using deserializeVLQ_vlq [of m "[]"] by (simp add: writesD [OF putVLQ_writes])
qed

theorem vlq_round_trip_witness:
  "(\<exists>bs. putVLQ 300 (replicate 5 7 :: bytes) = (Inr (bs @ drop (length bs) (replicate 5 7), serializeSizeVLQ 300) :: (nat, bytes \<times> int) result)) \<and>
   putVLQ (fst (deserializeVLQ ([0x81] @ [0x2c]))) (replicate (length [0x81 :: byte, 0x2c]) 0) = (Inr ([0x81] @ [0x2c], 2) :: (nat, bytes \<times> int) result)"
proof -
  have s: "serializeSizeVLQ 300 \<le> int (length (replicate 5 7 :: bytes))" by code_simp
  have h: "list_all (\<lambda>b. b AND 0x80 = 0x80) [0x81 :: byte] \<and> (0x2c :: byte) AND 0x80 = 0 \<and> length [0x81 :: byte] \<le> 8" by simp
  show ?thesis
    using vlq_round_trip [where 'a = nat, of 300 "replicate 5 7" "[]" "[0x81]" "0x2c"] s h by auto
qed

section \<open>Amounts are read back\<close>






section \<open>Scripts are read back\<close>

definition encScript :: "'pk keyParser \<Rightarrow> bytes \<Rightarrow> bytes" where
  "encScript ec s =
     (case isPubKeyHash s of Some h \<Rightarrow> 0 # h
      | None \<Rightarrow> (case isScriptHash s of Some h \<Rightarrow> 1 # h
      | None \<Rightarrow> (case isPubKey ec s of
          Some k \<Rightarrow> (if k ! 0 = 2 then 2 else if k ! 0 = 3 then 3 else if k ! 64 AND 1 = 1 then 5 else 4) # take 32 (drop 1 k)
      | None \<Rightarrow> (case isPubKeyHashAlt s of
          Some (h, tp) \<Rightarrow> (if tp = 0x05 \<or> tp = 0x55 then 7 else 6) # h
      | None \<Rightarrow> vlq (word_of_nat (length s + 64)) @ s))))"

text \<open>The script that is read back: the type byte of a pay to an alternative public key hash becomes the one of its signature suite.\<close>

definition normalScript :: "bytes \<Rightarrow> bytes" where
  "normalScript s = (case isPubKeyHashAlt s of None \<Rightarrow> s | Some (h, tp) \<Rightarrow> s[24 := if tp = 0x05 \<or> tp = 0x55 then 5 else 4])"

text \<open>An uncompressed public key is determined by its first coordinate and the parity of the second.\<close>

definition lawfulKeys :: "'pk keyParser \<Rightarrow> bool" where
  "lawfulKeys ec \<longleftrightarrow> (\<forall>k. length k = 65 \<and> k ! 0 = 4 \<and> parseKey ec k \<noteq> None \<longrightarrow>
     (\<exists>key. parseKey ec ((if k ! 64 AND 1 = 1 then 3 else 2) # take 32 (drop 1 k)) = Some key \<and> serializeUncompressed ec key = k))"

lemma split3: "a + m \<le> length s \<Longrightarrow> s = take a s @ take m (drop a s) @ drop (a + m) s"
  by (metis add.commute append_take_drop_id drop_drop)

lemma take_known: "1 \<le> length s \<Longrightarrow> take 1 s = [s ! 0]" "2 \<le> length s \<Longrightarrow> take 2 s = [s ! 0, s ! 1]" "3 \<le> length s \<Longrightarrow> take 3 s = [s ! 0, s ! 1, s ! 2]"
  by (cases s; cases "tl s"; cases "tl (tl s)"; simp add: numeral_2_eq_2 numeral_3_eq_3)+

lemma drop_known: "length s = n + 1 \<Longrightarrow> drop n s = [s ! n]" "length s = n + 2 \<Longrightarrow> drop n s = [s ! n, s ! (n + 1)]"
  "length s = n + 3 \<Longrightarrow> drop n s = [s ! n, s ! (n + 1), s ! (n + 2)]"
  by (simp_all flip: Cons_nth_drop_Suc)

lemma isPubKeyHash_Some: "isPubKeyHash s = Some h \<Longrightarrow> length h = 20 \<and> s = pubKeyHashScript h"
  using split3 [of 3 20 s] take_known(3) [of s] drop_known(2) [of s 23] by (auto simp: isPubKeyHash_def pubKeyHashScript_def split: if_splits)

lemma isScriptHash_Some: "isScriptHash s = Some h \<Longrightarrow> length h = 20 \<and> s = [OP_HASH160, OP_DATA_20] @ h @ [OP_EQUAL]"
  using split3 [of 2 20 s] take_known(2) [of s] drop_known(1) [of s 22] by (auto simp: isScriptHash_def split: if_splits)

lemma isPubKeyHashAlt_Some: "isPubKeyHashAlt s = Some (h, tp) \<Longrightarrow> length h = 20 \<and> s = altHashScript h tp"
  using split3 [of 3 20 s] take_known(3) [of s] drop_known(3) [of s 23] by (auto simp: isPubKeyHashAlt_def altHashScript_def split: if_splits)

lemma isPubKey_Some:
  assumes "isPubKey ec s = Some k"
  obtains (compressed) "length k = 33" "k ! 0 = 2 \<or> k ! 0 = 3" "s = 0x21 # k @ [OP_CHECKSIG]"
  | (uncompressed) "length k = 65" "k ! 0 = 4" "s = 0x41 # k @ [OP_CHECKSIG]" "parseKey ec k \<noteq> None"
proof -
  have c: "s = s ! 0 # take 33 (drop 1 s) @ [s ! 34]" if "length s = 35" using split3 [of 1 33 s] take_known(1) [of s] drop_known(1) [of s 34] that by simp
  have u: "s = s ! 0 # take 65 (drop 1 s) @ [s ! 66]" if "length s = 67" using split3 [of 1 65 s] take_known(1) [of s] drop_known(1) [of s 66] that by simp
  from assms consider
      "length s = 35" "s ! 0 = 0x21" "s ! 34 = OP_CHECKSIG" "s ! 1 = 2 \<or> s ! 1 = 3" "k = take 33 (drop 1 s)"
    | "length s = 67" "s ! 0 = 0x41" "s ! 66 = OP_CHECKSIG" "s ! 1 = 4" "k = take 65 (drop 1 s)" "parseKey ec (take 65 (drop 1 s)) \<noteq> None"
    by (auto simp: isPubKey_def split: if_splits)
  then show thesis
  proof cases
    case 1
    show thesis by (rule compressed) (use 1 c in \<open>auto\<close>)
  next
    case 2
    show thesis by (rule uncompressed) (use 2 u in \<open>auto\<close>)
  qed
qed





lemma length_vlqHigh: "length (vlqHigh n) \<le> unat n + 1"
proof (induction n rule: vlqHigh.induct)
  case (1 n)
  show ?case
  proof (cases "n \<le> 0x7f")
    case True
    then show ?thesis by (subst vlqHigh.simps) simp
  next
    case False
    with "1.IH" [OF this] vlq_next_less [of n] show ?thesis by (subst vlqHigh.simps) (simp add: not_le)
  qed
qed

lemma length_vlq: "length (vlq n) \<le> unat n + 1"
proof (cases "n \<le> 0x7f")
  case False
  with length_vlqHigh [of "drop_bit 7 n - 1"] vlq_next_less [of n] show ?thesis by (simp add: vlq_def not_le)
qed (simp add: vlq_def)

lemma vlq_tag: "t \<le> 127 \<Longrightarrow> deserializeVLQ (word_of_nat t # rest) = (word_of_nat t, 1)"
proof -
  assume t: "t \<le> 127"
  have u: "unat (word_of_nat t :: 64 word) = t" using t by (intro unat64) simp
  then have le: "(word_of_nat t :: 64 word) \<le> 0x7f" using t by (simp add: word_le_nat_alt)
  have "unat (word_of_nat t :: byte) = t" using t by (simp add: unsigned_of_nat take_bit_nat_eq_self)
  then have "(word_of_nat t :: 64 word) = ucast (word_of_nat t :: byte)" by (simp only: word_unat_eq_iff ucast_byte64(1) u)
  then have "(ucast (word_of_nat t :: 64 word) :: byte) = word_of_nat t" by (simp only: ucast_byte64(2))
  then have "vlq (word_of_nat t) = [word_of_nat t]" using le small_digit [OF le] by (simp add: vlq_def)
  then show ?thesis using deserializeVLQ_vlq [of "word_of_nat t" rest] by simp
qed

lemma tag_values: "deserializeVLQ (0 # r) = (0, 1)" "deserializeVLQ (1 # r) = (1, 1)" "deserializeVLQ (2 # r) = (2, 1)" "deserializeVLQ (3 # r) = (3, 1)"
  "deserializeVLQ (4 # r) = (4, 1)" "deserializeVLQ (5 # r) = (5, 1)" "deserializeVLQ (6 # r) = (6, 1)" "deserializeVLQ (7 # r) = (7, 1)"
  using vlq_tag [of 0 r] vlq_tag [of 1 r] vlq_tag [of 2 r] vlq_tag [of 3 r] vlq_tag [of 4 r] vlq_tag [of 5 r] vlq_tag [of 6 r] vlq_tag [of 7 r] by simp_all

text \<open>The general form: the size is past the tags of the special scripts.\<close>

lemma general_size:
  assumes "length s < 2 ^ 32"
  defines "n \<equiv> word_of_nat (length s + 64) :: 64 word"
  shows "unat n = length s + 64" "sint (n - 64) = int (length s)" "sint (n - 64 + word_of_nat (length (vlq n))) = int (length s + length (vlq n))"
proof -
  show u: "unat n = length s + 64" unfolding n_def by (rule unat64) (use assms(1) in simp)
  have "length (vlq n) \<le> length s + 65" using length_vlq [of n] u by simp
  then have b: "int (length s + length (vlq n)) < 2 ^ 63" using assms(1) by simp
  have si: "sint (word_of_int x :: 64 word) = x" if "0 \<le> x" "x < 2 ^ 63" for x using that by (simp add: sint_sbintrunc' signed_take_bit_int_eq_self)
  have "n - 64 = word_of_int (int (length s))" by (simp add: n_def)
  moreover from this have "n - 64 + word_of_nat (length (vlq n)) = word_of_int (int (length s + length (vlq n)))" by simp
  ultimately show "sint (n - 64) = int (length s)" "sint (n - 64 + word_of_nat (length (vlq n))) = int (length s + length (vlq n))"
    using si [of "int (length s)"] si [OF _ b] assms(1) by simp_all
qed


lemma decompress_tag:
  assumes "length h = n"
  shows "slice (t # h) 1 (1 + int n) = Inr h"
  using assms by (simp add: slice_def)

lemma decompress_uncompressed:
  assumes "lawfulKeys ec" "length k = 65" "k ! 0 = 4" "parseKey ec k \<noteq> None"
  shows "decompressScript ec ((if k ! 64 AND 1 = 1 then 5 else 4) # take 32 (drop 1 k)) = Inr (0x41 # k @ [OP_CHECKSIG])"
proof -
  let ?x = "take 32 (drop 1 k)" and ?o = "if k ! 64 AND 1 = 1 then 3 else 2 :: byte"
  obtain key where key: "parseKey ec (?o # ?x) = Some key" "serializeUncompressed ec key = k" using assms by (auto simp: lawfulKeys_def)
  have c1: "copyTo (replicate 33 0) 1 33 ?x = (Inr (0 # ?x) :: ('e, bytes) result)" using assms(2) by (simp add: copyTo_def slice_def Let_def)
  have c2: "copyTo (replicate 67 0) 1 67 k = (Inr (0 # k @ [0]) :: ('e, bytes) result)" using assms(2) by (simp add: copyTo_def slice_def Let_def)
  have c3: "(0 # k @ [0])[0 := 0x41, 66 := OP_CHECKSIG] = 0x41 # k @ [OP_CHECKSIG]" using assms(2) by (simp add: list_update_append)
  show ?thesis
  proof (cases "k ! 64 AND 1 = 1")
    case True
    with key(1) show ?thesis using c3 by (simp add: decompressScript_def tag_values cst_defs c1 [simplified] key(2) c2 [simplified])
  next
    case False
    with key(1) show ?thesis using c3 by (simp add: decompressScript_def tag_values cst_defs c1 [simplified] key(2) c2 [simplified])
  qed
qed

lemma decompress_script:
  assumes "lawfulKeys ec" "length s < 2 ^ 32"
  shows "decompressScript ec (encScript ec s) = Inr (normalScript s)"
proof -
  let ?n = "word_of_nat (length s + 64) :: 64 word"
  note g = general_size [OF assms(2)]
  have "unat ?n \<noteq> k" if "k < 64" for k using g(1) that by simp
  then have gen: "decompressScript ec (vlq ?n @ s) = Inr s"
    using g(2) unfolding decompressScript_def deserializeVLQ_vlq by (simp add: cst_defs slice_def Let_def)
  have alt: "isPubKeyHashAlt s = None" if "length s \<noteq> 26" using that by (simp add: isPubKeyHashAlt_def)
  show ?thesis
  proof (cases "isPubKeyHash s")
    case (Some h)
    with isPubKeyHash_Some [OF Some] alt show ?thesis
      by (simp add: encScript_def decompressScript_def tag_values cst_defs decompress_tag normalScript_def pubKeyHashScript_def Let_def slice_def)
  next
    case n1: None
    show ?thesis
    proof (cases "isScriptHash s")
      case (Some h)
      with isScriptHash_Some [OF Some] alt n1 show ?thesis
        by (simp add: encScript_def decompressScript_def tag_values cst_defs normalScript_def Let_def slice_def)
    next
      case n2: None
      show ?thesis
      proof (cases "isPubKey ec s")
        case (Some k)
        from Some show ?thesis
        proof (cases rule: isPubKey_Some)
          case compressed
          then have "k = k ! 0 # take 32 (drop 1 k)" by (cases k) simp_all
          with compressed alt n1 n2 Some show ?thesis
            by (auto simp: encScript_def decompressScript_def tag_values cst_defs normalScript_def Let_def slice_def)
        next
          case uncompressed
          with decompress_uncompressed [OF assms(1) uncompressed(1,2,4)] alt n1 n2 Some show ?thesis
            by (simp add: encScript_def normalScript_def)
        qed
      next
        case n3: None
        show ?thesis
        proof (cases "isPubKeyHashAlt s")
          case (Some a)
          obtain h tp where a: "a = (h, tp)" by fastforce
          from isPubKeyHashAlt_Some [OF Some [unfolded a]] n1 n2 n3 Some a show ?thesis
            by (simp add: encScript_def decompressScript_def tag_values cst_defs normalScript_def altHashScript_def Let_def slice_def list_update_append)
        next
          case None
          with n1 n2 n3 gen show ?thesis by (simp add: encScript_def normalScript_def)
        qed
      qed
    qed
  qed
qed

section \<open>Transaction outputs are read back\<close>









text \<open>
  What the round trip does to a script: it changes every pay to an alternative public key hash,
  and what the parser makes of it unless its type is one of the two suites of this chain.
\<close>

lemma normalScript_same: "normalScript s = s \<longleftrightarrow> isPubKeyHashAlt s = None"
proof (cases "isPubKeyHashAlt s")
  case (Some a)
  obtain h tp where a: "a = (h, tp)" by (cases a)
  have tp: "isOneByteMaxDataPush tp" "tp = s ! 24" "length s = 26" using Some a by (auto simp: isPubKeyHashAlt_def split: if_splits)
  then have "tp \<noteq> 4 \<and> tp \<noteq> 5" by (auto simp: isOneByteMaxDataPush_def)
  then have "normalScript s ! 24 \<noteq> s ! 24" using Some a tp by (simp add: normalScript_def)
  with Some show ?thesis by auto
qed (simp add: normalScript_def)



section \<open>Examples\<close>

text \<open>Keys whose second coordinate is its parity.\<close>

definition sampleKeys :: "bytes keyParser" where
  "sampleKeys = \<lparr>parseKey = (\<lambda>k. if length k = 65 \<and> k ! 0 = 4 \<and> k = 4 # take 32 (drop 1 k) @ replicate 31 0 @ [k ! 64 AND 1] then Some k
      else if length k = 33 \<and> (k ! 0 = 2 \<or> k ! 0 = 3) then Some (4 # drop 1 k @ replicate 31 0 @ [k ! 0 AND 1]) else None),
    serializeUncompressed = id\<rparr>"



text \<open>
  A pay to an alternative public key hash never comes back as it was stored. With another type than
  those of the two suites it is stored as one of the first suite, and then even the opcodes that are
  read back differ.
\<close>

lemma alt_script_changed:
  assumes "lawfulKeys ec" "isPubKeyHashAlt s \<noteq> None"
  shows "\<exists>s'. decompressScript ec (encScript ec s) = Inr s' \<and> s' \<noteq> s"
proof -
  have "length s < 2 ^ 32" using assms(2) by (auto simp: isPubKeyHashAlt_def split: if_splits)
  then show ?thesis using decompress_script [OF assms(1)] normalScript_same [of s] assms(2) by auto
qed

lemma alt_type_lost:
  "decompressScript sampleKeys (encScript sampleKeys (altHashScript (replicate 20 7) 0x51)) = (Inr (altHashScript (replicate 20 7) 4) :: (nat, bytes) result) \<and>
   parseScript (altHashScript (replicate 20 7) 4) \<noteq> parseScript (altHashScript (replicate 20 7) 0x51)"
  by code_simp

text \<open>A slice without room is not recognised as such: the first write already panics.\<close>

lemma put_script_empty_panics: "putCompressedScript ec s [] = panic"
  by (simp add: putCompressedScript_def setAt_def)

lemma amount_overflow: "decompressTxOutAmount (compressTxOutAmount 0xffffffffffffffff) \<noteq> 0xffffffffffffffff"
  by code_simp

lemma flags_byte_round_trip:
  "0 \<le> txType \<Longrightarrow> txType < 4 \<Longrightarrow> decodeFlags (encodeFlags isCoinBase hasExpiry txType fullySpent) = (isCoinBase, hasExpiry, txType, fullySpent) \<and>
     decodeFlagsFullySpent (encodeFlags isCoinBase hasExpiry txType fullySpent) = fullySpent"
proof -
  assume "0 \<le> txType" "txType < 4"
  then have "txType \<in> {0, 1, 2, 3}" by auto
  then show ?thesis
    by (cases isCoinBase; cases hasExpiry; cases fullySpent; elim insertE emptyE)
      (simp_all add: encodeFlags_def decodeFlags_def decodeFlagsFullySpent_def txTypeShift_def txTypeBitmask_def)
qed

end
