(* ===== verification/StakeTx.thy ===== *)
theory StakeTx
  imports ScriptStandard TicketDb MsgTx
begin

unbundle bit_operations_syntax

text \<open>
  Stake transactions (\<^verbatim>\<open>blockchain/stake/staketx.go\<close>): recognising tickets, votes and revocations, reading
  what they commit to, and the amounts that a ticket pays back.

  A check returns nothing or the error that goes with \<^verbatim>\<open>false\<close>. Amounts are 64 bit integers whose
  wrap-around is written out; \<^verbatim>\<open>big.Int\<close> values are integers. Addresses are built by the library \<open>lib\<close>.
\<close>

section \<open>Constants and errors\<close>

datatype TxType = TxTypeRegular | TxTypeSStx | TxTypeSSGen | TxTypeSSRtx

datatype staketx_error =
    ErrSStxTooManyInputs | ErrSStxTooManyOutputs | ErrSStxNoOutputs | ErrSStxInvalidOutputs | ErrSStxInOutProportions
  | ErrSStxBadCommitAmount | ErrSStxBadChangeAmts
  | ErrSSGenWrongNumInputs | ErrSSGenTooManyOutputs | ErrSSGenNoOutputs | ErrSSGenWrongIndex | ErrSSGenWrongTxTree
  | ErrSSGenNoStakebase | ErrSSGenNoReference | ErrSSGenBadReference | ErrSSGenNoVotePush | ErrSSGenBadVotePush | ErrSSGenBadGenOuts
  | ErrSSRtxWrongNumInputs | ErrSSRtxTooManyOutputs | ErrSSRtxNoOutputs | ErrSSRtxWrongTxTree | ErrSSRtxBadOuts
  | ErrVerSStxAmts | ErrVerifyInput | ErrVerifyOutType | ErrVerifyTooMuchFees | ErrVerifySpendTooMuch | ErrVerifyOutputAmt | ErrVerifyOutPkhs
  | StakeText string | ScriptFailure script_error

definition MaxInputsPerSStx :: nat where "MaxInputsPerSStx = 64"
definition MaxOutputsPerSStx :: nat where "MaxOutputsPerSStx = MaxInputsPerSStx * 2 + 1"
definition NumInputsPerSSGen :: nat where "NumInputsPerSSGen = 2"
definition MaxOutputsPerSSGen :: nat where "MaxOutputsPerSSGen = MaxInputsPerSStx + 2"
definition NumInputsPerSSRtx :: nat where "NumInputsPerSSRtx = 1"
definition MaxOutputsPerSSRtx :: nat where "MaxOutputsPerSSRtx = MaxInputsPerSStx"
definition SStxPKHMinOutSize :: nat where "SStxPKHMinOutSize = 32"
definition SStxPKHMaxOutSize :: nat where "SStxPKHMaxOutSize = 77"
definition SSGenBlockReferenceOutSize :: nat where "SSGenBlockReferenceOutSize = 38 + 4"
definition SSGenVoteBitsOutputMinSize :: nat where "SSGenVoteBitsOutputMinSize = 4"
definition SSGenVoteBitsOutputMaxSize :: nat where "SSGenVoteBitsOutputMaxSize = 77"
definition MaxSingleBytePushLength :: byte where "MaxSingleBytePushLength = 75"
definition SStxVoteReturnFractionMask :: "16 word" where "SStxVoteReturnFractionMask = 0x003f"
definition SStxRevReturnFractionMask :: "16 word" where "SStxRevReturnFractionMask = 0x3f00"
definition SStxVoteFractionFlag :: "16 word" where "SStxVoteFractionFlag = 0x0040"
definition SStxRevFractionFlag :: "16 word" where "SStxRevFractionFlag = 0x4000"
definition VoteConsensusVersionAbsent :: "32 word" where "VoteConsensusVersionAbsent = 0"
definition validSStxAddressOutMinPrefix :: bytes where "validSStxAddressOutMinPrefix = [0x6a, 0x1e]"
definition validSSGenReferenceOutPrefix :: bytes where "validSSGenReferenceOutPrefix = [0x6a, 0x28]"
definition validSSGenVoteOutMinPrefix :: bytes where "validSSGenVoteOutMinPrefix = [0x6a, 0x02]"
definition rangeLimitMax :: "16 word" where "rangeLimitMax = 63"

definition TxTreeRegular :: "8 word" where "TxTreeRegular = 0"
definition TxTreeStake :: "8 word" where "TxTreeStake = 1"
definition NullBlockHeight :: "32 word" where "NullBlockHeight = 0"
definition NullBlockIndex :: "32 word" where "NullBlockIndex = 0xffffffff"

text \<open>A loop over a slice whose body may return an error; the body gets the index.\<close>

primrec checkEach :: "(nat \<Rightarrow> 'a \<Rightarrow> ('e, unit) result) \<Rightarrow> nat \<Rightarrow> 'a list \<Rightarrow> ('e, unit) result" where
  "checkEach f i [] = Inr ()"
| "checkEach f i (x # xs) = bindE (f i x) (\<lambda>_. checkEach f (Suc i) xs)"

text \<open>An error unless the condition holds.\<close>

definition require :: "bool \<Rightarrow> 'e \<Rightarrow> ('e, unit) result" where
  "require b e = (if b then Inr () else raise e)"

section \<open>Stake bases\<close>

definition isNullOutpoint :: "MsgTx \<Rightarrow> ('e, bool) result" where
  "isNullOutpoint tx =
     bindE (at (txIn tx) 0) (\<lambda>ti. let nullInOP = PreviousOutPoint ti
       in Inr (opIndex nullInOP = - 1 \<and> opHash nullInOP = replicate 32 0 \<and> opTree nullInOP = TxTreeRegular))"

definition isNullFraudProof :: "MsgTx \<Rightarrow> ('e, bool) result" where
  "isNullFraudProof tx =
     bindE (at (txIn tx) 0) (\<lambda>ti.
       if BlockHeight ti \<noteq> NullBlockHeight then Inr False
       else if BlockIndex ti \<noteq> NullBlockIndex then Inr False
       else Inr True)"

definition IsStakeBase :: "MsgTx \<Rightarrow> ('e, bool) result" where
  "IsStakeBase tx =
     (if length (txIn tx) \<noteq> 2 then Inr False
      else bindE (isNullOutpoint tx) (\<lambda>nullOutpoint.
        if \<not> nullOutpoint then Inr False
        else bindE (isNullFraudProof tx) (\<lambda>nullProof.
          if \<not> nullProof then Inr False else Inr True)))"

section \<open>What a ticket commits to\<close>

record MinimalOutput =
  mo_PkScript :: bytes
  mo_Value :: int
  mo_Version :: "16 word"

definition ConvertToMinimalOutputs :: "MsgTx \<Rightarrow> MinimalOutput list" where
  "ConvertToMinimalOutputs tx =
     map (\<lambda>to. \<lparr>mo_PkScript = PkScript to, mo_Value = sint (txoValue to), mo_Version = txoVersion to\<rparr>) (txOut tx)"

record sstxInfo =
  si_isP2SH :: "bool list"
  si_addresses :: "bytes list"
  si_amounts :: "int list"
  si_changeAmounts :: "int list"
  si_allSpendRules :: "bool list list"
  si_allSpendLimits :: "16 word list list"

text \<open>The commitment of one output: its kind, address, amount, and the rules and limits of the fees.\<close>

definition commitment :: "bytes \<Rightarrow> ('e, bool \<times> bytes \<times> int \<times> bool list \<times> 16 word list) result" where
  "commitment pkScript =
     bindE (slice pkScript 22 30) (\<lambda>amtEncoded.
     bindE (at amtEncoded 7) (\<lambda>top.
     let isP2SH = (top AND push_bit 7 1 \<noteq> 0); amtEncoded = amtEncoded[7 := top AND NOT (push_bit 7 1)]
     in bindE (slice pkScript 2 22) (\<lambda>address.
        bindE (slice pkScript 30 32) (\<lambda>limits.
        let feeLimitUint16 = leUint16 limits
        in Inr (isP2SH, address, sint (leUint64 amtEncoded),
             [feeLimitUint16 AND SStxVoteFractionFlag = SStxVoteFractionFlag, feeLimitUint16 AND SStxRevFractionFlag = SStxRevFractionFlag],
             [feeLimitUint16 AND SStxVoteReturnFractionMask, drop_bit 8 (feeLimitUint16 AND SStxRevReturnFractionMask)])))))"

text \<open>The loop over the outputs; the indexes into the slices are in range.\<close>

primrec stakeOutputLoop :: "nat \<Rightarrow> MinimalOutput list \<Rightarrow> sstxInfo \<Rightarrow> ('e, sstxInfo) result" where
  "stakeOutputLoop idx [] info = Inr info"
| "stakeOutputLoop idx (out # outs) info =
     bindE (if idx > 0 \<and> idx mod 2 \<noteq> 0
            then bindE (commitment (mo_PkScript out)) (\<lambda>(isP2SH, address, amount, rules, limits).
              Inr (info\<lparr>si_isP2SH := (si_isP2SH info)[idx div 2 := isP2SH], si_addresses := (si_addresses info)[idx div 2 := address],
                si_amounts := (si_amounts info)[idx div 2 := amount], si_allSpendRules := (si_allSpendRules info)[idx div 2 := rules],
                si_allSpendLimits := (si_allSpendLimits info)[idx div 2 := limits]\<rparr>))
            else Inr info) (\<lambda>info.
     let info = (if idx > 0 \<and> idx mod 2 = 0
                 then info\<lparr>si_changeAmounts := (si_changeAmounts info)[idx div 2 - 1 := mo_Value out]\<rparr> else info)
     in stakeOutputLoop (idx + 1) outs info)"

definition SStxStakeOutputInfo :: "MinimalOutput list \<Rightarrow> ('e, sstxInfo) result" where
  "SStxStakeOutputInfo outs =
     (let expectedInLen = length outs div 2
      in stakeOutputLoop 0 outs
           \<lparr>si_isP2SH = replicate expectedInLen False, si_addresses = replicate expectedInLen [], si_amounts = replicate expectedInLen 0,
            si_changeAmounts = replicate expectedInLen 0, si_allSpendRules = replicate expectedInLen [],
            si_allSpendLimits = replicate expectedInLen []\<rparr>)"

definition TxSStxStakeOutputInfo :: "MsgTx \<Rightarrow> ('e, sstxInfo) result" where
  "TxSStxStakeOutputInfo tx = SStxStakeOutputInfo (ConvertToMinimalOutputs tx)"

text \<open>The address is \<open>None\<close> when its constructor fails.\<close>

definition AddrFromSStxPkScrCommitment :: "('pk, 'addr) addrlib \<Rightarrow> bytes \<Rightarrow> (staketx_error, 'addr option) result" where
  "AddrFromSStxPkScrCommitment lib pkScript =
     (if length pkScript < SStxPKHMinOutSize then raise ErrSStxBadCommitAmount
      else bindE (slice pkScript 22 30) (\<lambda>amtEncoded.
           bindE (at amtEncoded 7) (\<lambda>top.
           bindE (slice pkScript 2 22) (\<lambda>hashBytes.
             Inr (if top AND push_bit 7 1 \<noteq> 0 then lib_NewAddressScriptHashFromHash lib hashBytes
                  else lib_NewAddressPubKeyHash lib hashBytes ECTypeSecp256k1)))))"

definition AmountFromSStxPkScrCommitment :: "bytes \<Rightarrow> (staketx_error, int) result" where
  "AmountFromSStxPkScrCommitment pkScript =
     (if length pkScript < SStxPKHMinOutSize then raise ErrSStxBadCommitAmount
      else bindE (slice pkScript 22 30) (\<lambda>amtEncoded.
           bindE (at amtEncoded 7) (\<lambda>top.
             Inr (sint (leUint64 (amtEncoded[7 := top AND NOT (push_bit 7 1)]))))))"

section \<open>What votes and revocations pay\<close>

definition liftScript :: "'a sres \<Rightarrow> (staketx_error, 'a) result" where
  "liftScript r = (case r of Inl GoPanic \<Rightarrow> panic | Inl (GoErr e) \<Rightarrow> raise (ScriptFailure e) | Inr x \<Rightarrow> Inr x)"

text \<open>One output of a vote or revocation, which must have the given class.\<close>

definition stakePayment :: "('pk, address) addrlib \<Rightarrow> ScriptClass \<Rightarrow> TxOut \<Rightarrow> (staketx_error, bool \<times> bytes \<times> int) result" where
  "stakePayment lib ty out =
     bindE (liftScript (ExtractPkScriptAddrs lib (txoVersion out) (PkScript out))) (\<lambda>(cls, addr, _).
       if cls \<noteq> ty then raise (StakeText ''output included non tagged output'')
       else bindE (liftScript (GetStakeOutSubclass (PkScript out))) (\<lambda>subClass.
         if \<not> (subClass = PubKeyHashTy \<or> subClass = ScriptHashTy) then raise (StakeText ''bad script type'')
         else bindE (at addr 0) (\<lambda>a. Inr (subClass = ScriptHashTy, addr_ScriptAddress a, sint (txoValue out)))))"

primrec stakePayments ::
  "('pk, address) addrlib \<Rightarrow> ScriptClass \<Rightarrow> TxOut list \<Rightarrow> (staketx_error, (bool \<times> bytes \<times> int) list) result" where
  "stakePayments lib ty [] = Inr []"
| "stakePayments lib ty (out # outs) =
     bindE (stakePayment lib ty out) (\<lambda>p. bindE (stakePayments lib ty outs) (\<lambda>ps. Inr (p # ps)))"

text \<open>\<^verbatim>\<open>make\<close> panics on a negative length.\<close>

definition TxSSGenStakeOutputInfo :: "('pk, address) addrlib \<Rightarrow> MsgTx \<Rightarrow> (staketx_error, (bool \<times> bytes \<times> int) list) result" where
  "TxSSGenStakeOutputInfo lib tx =
     (if length (txOut tx) < 2 then panic else stakePayments lib StakeGenTy (drop 2 (txOut tx)))"

definition SSGenBlockVotedOn :: "MsgTx \<Rightarrow> ('e, bytes \<times> 32 word \<times> 32 word) result" where
  "SSGenBlockVotedOn tx =
     bindE (at (txOut tx) 0) (\<lambda>out.
     bindE (slice (PkScript out) 2 34) (\<lambda>blockHash.
     bindE (slice (PkScript out) 34 38) (\<lambda>h.
     bindE (slice (PkScript out) 38 42) (\<lambda>kh. Inr (blockHash, leUint32 h, leUint32 kh)))))"

definition SSGenVoteBits :: "MsgTx \<Rightarrow> ('e, 16 word) result" where
  "SSGenVoteBits tx =
     bindE (at (txOut tx) 1) (\<lambda>out. bindE (slice (PkScript out) 2 4) (\<lambda>b. Inr (leUint16 b)))"

definition SSGenVersion :: "MsgTx \<Rightarrow> ('e, 32 word) result" where
  "SSGenVersion tx =
     bindE (at (txOut tx) 1) (\<lambda>out.
       if length (PkScript out) < 8 then Inr VoteConsensusVersionAbsent
       else bindE (slice (PkScript out) 4 8) (\<lambda>b. Inr (leUint32 b)))"

definition TxSSRtxStakeOutputInfo :: "('pk, address) addrlib \<Rightarrow> MsgTx \<Rightarrow> (staketx_error, (bool \<times> bytes \<times> int) list) result" where
  "TxSSRtxStakeOutputInfo lib tx = stakePayments lib StakeRevocationTy (txOut tx)"

section \<open>Amounts\<close>

primrec contribLoop :: "(int \<times> int) list \<Rightarrow> int \<Rightarrow> (staketx_error, int list \<times> int) result" where
  "contribLoop [] acc = Inr ([], acc)"
| "contribLoop (p # ps) acc =
     (let contrib = wrap64 (fst p - snd p)
      in if contrib < 0 then raise ErrSStxBadChangeAmts
         else bindE (contribLoop ps (wrap64 (acc + contrib))) (\<lambda>(cs, acc). Inr (contrib # cs, acc)))"

definition SStxNullOutputAmounts :: "int list \<Rightarrow> int list \<Rightarrow> int \<Rightarrow> (staketx_error, int \<times> int list) result" where
  "SStxNullOutputAmounts amounts changeAmounts amountTicket =
     (if length amounts \<noteq> length changeAmounts then raise (StakeText ''amounts was not equal in length to change amounts!'')
      else if amountTicket \<le> 0 then raise ErrSStxBadCommitAmount
      else bindE (contribLoop (zip amounts changeAmounts) 0) (\<lambda>(contribAmounts, acc).
        Inr (wrap64 (acc - amountTicket), contribAmounts)))"

text \<open>\<^verbatim>\<open>big.Int.Div\<close>, whose remainder is never negative, and \<^verbatim>\<open>Uint64\<close>, which takes the low bits of the absolute value.\<close>

definition bigDiv :: "int \<Rightarrow> int \<Rightarrow> ('e, int) result" where
  "bigDiv x y = (if y = 0 then panic else Inr (if y > 0 then x div y else - (x div (- y))))"

definition bigUint64 :: "int \<Rightarrow> 64 word" where
  "bigUint64 x = word_of_int \<bar>x\<bar>"

primrec rewardLoop :: "int \<Rightarrow> int \<Rightarrow> int list \<Rightarrow> ('e, int list) result" where
  "rewardLoop amountWithStakebase totalContrib [] = Inr []"
| "rewardLoop amountWithStakebase totalContrib (amount # amounts) =
     bindE (bigDiv (push_bit 32 (amount * amountWithStakebase)) totalContrib) (\<lambda>amountBig.
     bindE (rewardLoop amountWithStakebase totalContrib amounts) (\<lambda>outputs.
       Inr (sint (bigUint64 (drop_bit 32 amountBig)) # outputs)))"

definition CalculateRewards :: "int list \<Rightarrow> int \<Rightarrow> int \<Rightarrow> ('e, int list) result" where
  "CalculateRewards amounts amountTicket subsidy =
     rewardLoop (wrap64 (amountTicket + subsidy)) (fold (\<lambda>amount acc. wrap64 (acc + amount)) amounts 0) amounts"

definition VerifySStxAmounts :: "int list \<Rightarrow> int list \<Rightarrow> (staketx_error, unit) result" where
  "VerifySStxAmounts sstxAmts sstxCalcAmts =
     (if length sstxCalcAmts \<noteq> length sstxAmts then raise ErrVerSStxAmts
      else checkEach (\<lambda>idx amt. bindE (at sstxAmts (int idx)) (\<lambda>a. require (amt = a) ErrVerSStxAmts)) 0 sstxCalcAmts)"

text \<open>The check of one amount against the calculated one, under the rule and the limit of its commitment.\<close>

definition verifyAmount :: "bool \<Rightarrow> 16 word \<Rightarrow> int \<Rightarrow> int \<Rightarrow> (staketx_error, unit) result" where
  "verifyAmount rule limit calc amt =
     (if rule
      then let feeAllowance = (if limit < rangeLimitMax \<and> 2 ^ unat limit < calc then 2 ^ unat limit else calc);
               amtLimitLow = wrap64 (calc - feeAllowance)
           in if amt < amtLimitLow then raise ErrVerifyTooMuchFees
              else if amt > calc then raise ErrVerifySpendTooMuch
              else Inr ()
      else require (amt = calc) ErrVerifyOutputAmt)"

definition VerifyStakingPkhsAndAmounts ::
  "bool list \<Rightarrow> bytes list \<Rightarrow> int list \<Rightarrow> bool list \<Rightarrow> bytes list \<Rightarrow> int list \<Rightarrow> bool \<Rightarrow> bool list list \<Rightarrow> 16 word list list \<Rightarrow>
     (staketx_error, unit) result" where
  "VerifyStakingPkhsAndAmounts sstxTypes sstxPkhs ssSpendAmts ssSpendTypes ssSpendPkhs ssSpendCalcAmts isVote spendRules spendLimits =
     (if length sstxTypes \<noteq> length ssSpendTypes then raise ErrVerifyInput
      else if length ssSpendAmts \<noteq> length ssSpendCalcAmts then raise ErrVerifyInput
      else if length sstxPkhs \<noteq> length ssSpendPkhs then raise ErrVerifyInput
      else bindE (checkEach (\<lambda>idx typ. bindE (at ssSpendTypes (int idx)) (\<lambda>t. require (typ = t) ErrVerifyOutType)) 0 sstxTypes) (\<lambda>_.
           bindE (checkEach (\<lambda>idx amt.
             bindE (at spendRules (int idx)) (\<lambda>rules. bindE (at rules (if isVote then 0 else 1)) (\<lambda>rule.
             bindE (at spendLimits (int idx)) (\<lambda>limits. bindE (at limits (if isVote then 0 else 1)) (\<lambda>limit.
             bindE (at ssSpendCalcAmts (int idx)) (\<lambda>calc. verifyAmount rule limit calc amt)))))) 0 ssSpendAmts) (\<lambda>_.
           checkEach (\<lambda>idx pkh. bindE (at ssSpendPkhs (int idx)) (\<lambda>p. require (pkh = p) ErrVerifyOutPkhs)) 0 sstxPkhs)))"

section \<open>Recognising stake transactions\<close>

text \<open>The prefix of a push: the opcode that returns and a length between the given one and the longest.\<close>

definition pushPrefixOk :: "bytes \<Rightarrow> bytes \<Rightarrow> bool" where
  "pushPrefixOk minPrefix script \<longleftrightarrow>
     (let minPush = minPrefix ! 1; maxPush = minPush + (MaxSingleBytePushLength - minPush); pushLen = script ! 1
      in script ! 0 = minPrefix ! 0 \<and> pushLen \<ge> minPush \<and> pushLen \<le> maxPush)"

definition sstxOutputOk :: "nat \<Rightarrow> TxOut \<Rightarrow> (staketx_error, unit) result" where
  "sstxOutputOk outTxIndex out =
     (let scrVersion = txoVersion out; rawScript = PkScript out
      in if outTxIndex mod 2 = 0 then require (GetScriptClass scrVersion rawScript = StakeSubChangeTy) ErrSStxInvalidOutputs
         else bindE (require (GetScriptClass scrVersion rawScript = NullDataTy) ErrSStxInvalidOutputs) (\<lambda>_.
              bindE (require (\<not> (length rawScript < SStxPKHMinOutSize \<or> length rawScript > SStxPKHMaxOutSize)) ErrSStxInvalidOutputs) (\<lambda>_.
                require (pushPrefixOk validSStxAddressOutMinPrefix rawScript) ErrSStxInvalidOutputs)))"

definition IsSStx :: "MsgTx \<Rightarrow> (staketx_error, unit) result" where
  "IsSStx tx =
     bindE (require (\<not> length (txIn tx) > MaxInputsPerSStx) ErrSStxTooManyInputs) (\<lambda>_.
     bindE (require (\<not> length (txOut tx) > MaxOutputsPerSStx) ErrSStxTooManyOutputs) (\<lambda>_.
     bindE (require (length (txOut tx) \<noteq> 0) ErrSStxNoOutputs) (\<lambda>_.
     bindE (checkEach (\<lambda>_ out. require (txoVersion out = DefaultScriptVersion) ErrSStxInvalidOutputs) 0 (txOut tx)) (\<lambda>_.
     bindE (at (txOut tx) 0) (\<lambda>out.
     bindE (require (GetScriptClass (txoVersion out) (PkScript out) = StakeSubmissionTy) ErrSStxInvalidOutputs) (\<lambda>_.
     bindE (require (length (txIn tx) * 2 + 1 = length (txOut tx)) ErrSStxInOutProportions) (\<lambda>_.
       checkEach sstxOutputOk 1 (drop 1 (txOut tx)))))))))"

definition IsSSGen :: "MsgTx \<Rightarrow> (staketx_error, unit) result" where
  "IsSSGen tx =
     bindE (require (length (txIn tx) = NumInputsPerSSGen) ErrSSGenWrongNumInputs) (\<lambda>_.
     bindE (require (\<not> length (txOut tx) > MaxOutputsPerSSGen) ErrSSGenTooManyOutputs) (\<lambda>_.
     bindE (require (length (txOut tx) \<noteq> 0) ErrSSGenNoOutputs) (\<lambda>_.
     bindE (IsStakeBase tx) (\<lambda>stakeBase.
     bindE (require stakeBase ErrSSGenNoStakebase) (\<lambda>_.
     bindE (checkEach (\<lambda>_ ti.
              bindE (require (opIndex (PreviousOutPoint ti) = 0) ErrSSGenWrongIndex) (\<lambda>_.
                require (opTree (PreviousOutPoint ti) = TxTreeStake) ErrSSGenWrongTxTree)) 1 (drop 1 (txIn tx))) (\<lambda>_.
     bindE (checkEach (\<lambda>_ out. require (txoVersion out = DefaultScriptVersion) ErrSSGenBadGenOuts) 0 (txOut tx)) (\<lambda>_.
     bindE (at (txOut tx) 0) (\<lambda>zeroethOutput.
     bindE (require (GetScriptClass (txoVersion zeroethOutput) (PkScript zeroethOutput) = NullDataTy) ErrSSGenNoReference) (\<lambda>_.
     bindE (require (length (PkScript zeroethOutput) = SSGenBlockReferenceOutSize) ErrSSGenBadReference) (\<lambda>_.
     bindE (require (take 2 (PkScript zeroethOutput) = validSSGenReferenceOutPrefix) ErrSSGenBadReference) (\<lambda>_.
     bindE (at (txOut tx) 1) (\<lambda>firstOutput.
     bindE (require (GetScriptClass (txoVersion firstOutput) (PkScript firstOutput) = NullDataTy) ErrSSGenNoVotePush) (\<lambda>_.
     bindE (require (\<not> (length (PkScript firstOutput) < SSGenVoteBitsOutputMinSize \<or> length (PkScript firstOutput) > SSGenVoteBitsOutputMaxSize))
              ErrSSGenBadVotePush) (\<lambda>_.
     bindE (require (pushPrefixOk validSSGenVoteOutMinPrefix (PkScript firstOutput)) ErrSSGenBadVotePush) (\<lambda>_.
       checkEach (\<lambda>_ out. require (GetScriptClass (txoVersion out) (PkScript out) = StakeGenTy) ErrSSGenBadGenOuts) 2 (drop 2 (txOut tx)))))))))))))))))"

definition IsSSRtx :: "MsgTx \<Rightarrow> (staketx_error, unit) result" where
  "IsSSRtx tx =
     bindE (require (length (txIn tx) = NumInputsPerSSRtx) ErrSSRtxWrongNumInputs) (\<lambda>_.
     bindE (require (\<not> length (txOut tx) > MaxOutputsPerSSRtx) ErrSSRtxTooManyOutputs) (\<lambda>_.
     bindE (require (length (txOut tx) \<noteq> 0) ErrSSRtxNoOutputs) (\<lambda>_.
     bindE (checkEach (\<lambda>_ out. require (txoVersion out = DefaultScriptVersion) ErrSSRtxBadOuts) 0 (txOut tx)) (\<lambda>_.
     bindE (checkEach (\<lambda>_ ti. require (opTree (PreviousOutPoint ti) = TxTreeStake) ErrSSRtxWrongTxTree) 0 (txIn tx)) (\<lambda>_.
       checkEach (\<lambda>_ out. require (GetScriptClass (txoVersion out) (PkScript out) = StakeRevocationTy) ErrSSRtxBadOuts) 0 (txOut tx))))))"

text \<open>The errors are dropped, a panic is not.\<close>

definition accepts :: "('e, unit) result \<Rightarrow> ('f, bool) result" where
  "accepts r = (case r of Inr _ \<Rightarrow> Inr True | Inl (GoErr _) \<Rightarrow> Inr False | Inl GoPanic \<Rightarrow> panic)"

definition DetermineTxType :: "MsgTx \<Rightarrow> ('e, TxType) result" where
  "DetermineTxType tx =
     bindE (accepts (IsSStx tx)) (\<lambda>is. if is then Inr TxTypeSStx
     else bindE (accepts (IsSSGen tx)) (\<lambda>is. if is then Inr TxTypeSSGen
     else bindE (accepts (IsSSRtx tx)) (\<lambda>is. if is then Inr TxTypeSSRtx
     else Inr TxTypeRegular)))"

text \<open>The tree that is set in the transaction.\<close>

definition SetTxTree :: "MsgTx \<Rightarrow> ('e, 8 word) result" where
  "SetTxTree tx = bindE (DetermineTxType tx) (\<lambda>txType. Inr (if txType \<noteq> TxTypeRegular then TxTreeStake else TxTreeRegular))"

section \<open>Loops of checks\<close>

lemma require_simps [simp]: "require b e = Inr u \<longleftrightarrow> b" "require b e \<noteq> panic"
  by (simp_all add: require_def)

lemma checkEach_iff: "checkEach f i xs = Inr () \<longleftrightarrow> (\<forall>j < length xs. f (i + j) (xs ! j) = Inr ())"
proof (induction xs arbitrary: i)
  case (Cons x xs)
  have "(\<forall>j < length (x # xs). f (i + j) ((x # xs) ! j) = Inr ()) \<longleftrightarrow> f i x = Inr () \<and> (\<forall>j < length xs. f (Suc i + j) (xs ! j) = Inr ())"
    by (auto simp: less_Suc_eq_0_disj)
  with Cons show ?case by (simp add: bindE_eq_Inr)
qed simp

lemma checkEach_all: "checkEach (\<lambda>_. f) i xs = Inr () \<longleftrightarrow> (\<forall>x \<in> set xs. f x = Inr ())"
  by (induction xs arbitrary: i) (auto simp: bindE_eq_Inr)

lemma checkEach_no_panic: "(\<And>i x. f i x \<noteq> panic) \<Longrightarrow> checkEach f i xs \<noteq> panic"
  by (induction xs arbitrary: i) (auto simp: bindE_eq_Inl)

lemma bind_require: "bindE (require b e) f = (if b then f () else raise e)"
  by (simp add: require_def)

section \<open>The type of a transaction\<close>

definition firstClass :: "MsgTx \<Rightarrow> ScriptClass" where
  "firstClass tx = GetScriptClass (txoVersion (txOut tx ! 0)) (PkScript (txOut tx ! 0))"

lemma IsSStx_iff:
  "IsSStx tx = Inr () \<longleftrightarrow> length (txIn tx) \<le> 64 \<and> length (txOut tx) = length (txIn tx) * 2 + 1 \<and>
     (\<forall>out \<in> set (txOut tx). txoVersion out = DefaultScriptVersion) \<and> firstClass tx = StakeSubmissionTy \<and>
     (\<forall>j < length (txOut tx) - 1. sstxOutputOk (1 + j) (txOut tx ! (1 + j)) = Inr ())"
proof -
  have n: "txOut tx \<noteq> [] \<Longrightarrow> at (txOut tx) 0 = Inr (txOut tx ! 0)" by (simp add: at_def)
  show ?thesis
    unfolding IsSStx_def bind_require
    by (auto simp: MaxInputsPerSStx_def MaxOutputsPerSStx_def bindE_eq_Inr checkEach_all checkEach_iff n firstClass_def)
qed

lemma IsSStx_no_panic: "IsSStx tx \<noteq> panic"
proof -
  have "sstxOutputOk i out \<noteq> panic" for i out by (simp add: sstxOutputOk_def Let_def bind_require)
  then show ?thesis unfolding IsSStx_def bind_require by (auto simp: bindE_eq_Inl checkEach_no_panic at_def split: if_splits)
qed

lemma IsSSRtx_iff:
  "IsSSRtx tx = Inr () \<longleftrightarrow> length (txIn tx) = 1 \<and> length (txOut tx) \<le> 64 \<and> txOut tx \<noteq> [] \<and>
     (\<forall>out \<in> set (txOut tx). txoVersion out = DefaultScriptVersion \<and> GetScriptClass (txoVersion out) (PkScript out) = StakeRevocationTy) \<and>
     (\<forall>ti \<in> set (txIn tx). opTree (PreviousOutPoint ti) = TxTreeStake)"
  unfolding IsSSRtx_def bind_require
  by (auto simp: MaxInputsPerSStx_def MaxOutputsPerSSRtx_def NumInputsPerSSRtx_def bindE_eq_Inr checkEach_all)

lemma IsSSRtx_no_panic: "IsSSRtx tx \<noteq> panic"
  unfolding IsSSRtx_def bind_require by (auto simp: bindE_eq_Inl checkEach_no_panic)

text \<open>The part of a vote that is checked before its second output is looked at.\<close>

definition voteReference :: "MsgTx \<Rightarrow> bool" where
  "voteReference tx \<longleftrightarrow> length (txIn tx) = 2 \<and> length (txOut tx) \<le> 66 \<and> txOut tx \<noteq> [] \<and> IsStakeBase tx = (Inr True :: (staketx_error, bool) result) \<and>
     opIndex (PreviousOutPoint (txIn tx ! 1)) = 0 \<and> opTree (PreviousOutPoint (txIn tx ! 1)) = TxTreeStake \<and>
     (\<forall>out \<in> set (txOut tx). txoVersion out = DefaultScriptVersion) \<and> firstClass tx = NullDataTy \<and>
     length (PkScript (txOut tx ! 0)) = 42 \<and> take 2 (PkScript (txOut tx ! 0)) = validSSGenReferenceOutPrefix"

text \<open>The second output, if there is one, and the remaining ones.\<close>

definition voteRest :: "MsgTx \<Rightarrow> bool" where
  "voteRest tx \<longleftrightarrow> GetScriptClass (txoVersion (txOut tx ! 1)) (PkScript (txOut tx ! 1)) = NullDataTy \<and>
     4 \<le> length (PkScript (txOut tx ! 1)) \<and> length (PkScript (txOut tx ! 1)) \<le> 77 \<and> pushPrefixOk validSSGenVoteOutMinPrefix (PkScript (txOut tx ! 1)) \<and>
     (\<forall>out \<in> set (drop 2 (txOut tx)). GetScriptClass (txoVersion out) (PkScript out) = StakeGenTy)"

lemma stakeBase_result: "length (txIn tx) = 2 \<Longrightarrow> IsStakeBase tx \<noteq> Inl e"
  by (simp add: IsStakeBase_def isNullOutpoint_def isNullFraudProof_def at_def Let_def)

lemma vote_reference_needed: "IsSSGen tx = Inr () \<or> IsSSGen tx = panic \<Longrightarrow> voteReference tx"
proof -
  assume r: "IsSSGen tx = Inr () \<or> IsSSGen tx = panic"
  have o0: "txOut tx \<noteq> [] \<Longrightarrow> at (txOut tx) 0 = (Inr (txOut tx ! 0) :: (staketx_error, TxOut) result)" by (simp add: at_def)
  have in1: "length (txIn tx) = 2 \<Longrightarrow> drop (Suc 0) (txIn tx) = [txIn tx ! Suc 0]" by (cases "txIn tx"; cases "tl (txIn tx)") auto
  have vs: "checkEach (\<lambda>_ out. require (txoVersion out = DefaultScriptVersion) ErrSSGenBadGenOuts) 0 (txOut tx) \<noteq> panic"
    by (rule checkEach_no_panic) simp
  show ?thesis
    using r unfolding IsSSGen_def bind_require voteReference_def
    by (auto simp: NumInputsPerSSGen_def MaxOutputsPerSSGen_def MaxInputsPerSStx_def SSGenBlockReferenceOutSize_def firstClass_def bindE_eq_Inr
        bindE_eq_Inl checkEach_all stakeBase_result in1 o0 vs bind_require split: if_splits)
qed

lemma IsSSGen_rest:
  assumes "voteReference tx"
  shows "IsSSGen tx = Inr () \<longleftrightarrow> 2 \<le> length (txOut tx) \<and> voteRest tx" "IsSSGen tx = panic \<longleftrightarrow> length (txOut tx) = 1"
proof -
  note v = assms [unfolded voteReference_def firstClass_def]
  have "txOut tx ! 0 \<in> set (txOut tx)" using v by simp
  then have v0: "txoVersion (txOut tx ! 0) = DefaultScriptVersion" "GetScriptClass DefaultScriptVersion (PkScript (txOut tx ! 0)) = NullDataTy" using v by auto
  have in1: "drop 1 (txIn tx) = [txIn tx ! 1]" using v by (cases "txIn tx"; cases "tl (txIn tx)") auto
  have vs: "checkEach (\<lambda>_ out. require (txoVersion out = DefaultScriptVersion) ErrSSGenBadGenOuts) 0 (txOut tx) = Inr ()"
    using v by (simp add: checkEach_all)
  have o0: "at (txOut tx) 0 = (Inr (txOut tx ! 0) :: (staketx_error, TxOut) result)" using v by (simp add: at_def)
  have o1: "at (txOut tx) 1 = (if 2 \<le> length (txOut tx) then Inr (txOut tx ! 1) else panic :: (staketx_error, TxOut) result)" by (auto simp: at_def)
  have one: "\<not> 2 \<le> length (txOut tx) \<longleftrightarrow> length (txOut tx) = 1" using v by (cases "txOut tx"; cases "tl (txOut tx)") auto
  have outs: "checkEach (\<lambda>_ out. require (GetScriptClass (txoVersion out) (PkScript out) = StakeGenTy) ErrSSGenBadGenOuts) 2 (drop 2 (txOut tx)) \<noteq> panic"
    by (rule checkEach_no_panic) simp
  let ?rest = "bindE (at (txOut tx) 1) (\<lambda>firstOutput.
     bindE (require (GetScriptClass (txoVersion firstOutput) (PkScript firstOutput) = NullDataTy) ErrSSGenNoVotePush) (\<lambda>_.
     bindE (require (\<not> (length (PkScript firstOutput) < SSGenVoteBitsOutputMinSize \<or> length (PkScript firstOutput) > SSGenVoteBitsOutputMaxSize))
              ErrSSGenBadVotePush) (\<lambda>_.
     bindE (require (pushPrefixOk validSSGenVoteOutMinPrefix (PkScript firstOutput)) ErrSSGenBadVotePush) (\<lambda>_.
       checkEach (\<lambda>_ out. require (GetScriptClass (txoVersion out) (PkScript out) = StakeGenTy) ErrSSGenBadGenOuts) 2 (drop 2 (txOut tx))))))"
  have r: "IsSSGen tx = ?rest"
    unfolding IsSSGen_def in1 vs o0 using v v0 by (simp add: bind_require NumInputsPerSSGen_def MaxOutputsPerSSGen_def MaxInputsPerSStx_def SSGenBlockReferenceOutSize_def)
  show "IsSSGen tx = Inr () \<longleftrightarrow> 2 \<le> length (txOut tx) \<and> voteRest tx" "IsSSGen tx = panic \<longleftrightarrow> length (txOut tx) = 1"
    unfolding r o1 using one outs
    by (auto simp: bind_require voteRest_def SSGenVoteBitsOutputMinSize_def SSGenVoteBitsOutputMaxSize_def checkEach_all)
qed

lemma accepts_simps [simp]: "accepts (Inr u) = Inr True" "accepts (raise e) = Inr False" "accepts panic = panic"
  by (simp_all add: accepts_def)

lemma check_cases:
  fixes r :: "('e, unit) result"
  obtains "r = Inr ()" | e where "r = raise e" | "r = panic"
proof (cases r)
  case (Inl f)
  then show thesis using that by (cases f) auto
qed (use that in auto)

text \<open>
  C15. A transaction is a ticket, a vote or a revocation exactly when the check for that type accepts it, so no transaction has
  two types; the type is undetermined, with a panic, exactly for a transaction that has the inputs and the first output
  of a vote and no other output.
\<close>

theorem determine_tx_type:
  "(DetermineTxType tx = Inr TxTypeSStx \<longleftrightarrow> IsSStx tx = Inr ()) \<and> (DetermineTxType tx = Inr TxTypeSSGen \<longleftrightarrow> IsSSGen tx = Inr ()) \<and>
   (DetermineTxType tx = Inr TxTypeSSRtx \<longleftrightarrow> IsSSRtx tx = Inr ()) \<and> (DetermineTxType tx = panic \<longleftrightarrow> voteReference tx \<and> length (txOut tx) = 1)"
proof -
  have gen: "IsSSGen tx = Inr () \<longrightarrow> voteReference tx" using vote_reference_needed [of tx] by simp
  have pan: "IsSSGen tx = panic \<longleftrightarrow> voteReference tx \<and> length (txOut tx) = 1"
    using vote_reference_needed [of tx] IsSSGen_rest(2) [of tx] by argo
  have v: "voteReference tx \<longrightarrow> firstClass tx = NullDataTy" by (simp add: voteReference_def)
  have s: "IsSStx tx = Inr () \<longrightarrow> firstClass tx = StakeSubmissionTy" by (simp add: IsSStx_iff)
  have r: "IsSSRtx tx = Inr () \<longrightarrow> firstClass tx = StakeRevocationTy"
    using nth_mem [of 0 "txOut tx"] unfolding IsSSRtx_iff firstClass_def by (metis length_greater_0_conv)
  show ?thesis
  proof (cases "IsSStx tx" rule: check_cases)
    case 1
    then have "IsSSGen tx \<noteq> Inr ()" "IsSSRtx tx \<noteq> Inr ()" "\<not> voteReference tx" using gen s r v by auto
    with 1 show ?thesis by (simp add: DetermineTxType_def)
  next
    case sstx: (2 e)
    show ?thesis
    proof (cases "IsSSGen tx" rule: check_cases)
      case 1
      moreover from this have "IsSSRtx tx \<noteq> Inr ()" using gen v r by auto
      moreover have "\<not> (voteReference tx \<and> length (txOut tx) = 1)" using pan 1 by simp
      ultimately show ?thesis using sstx by (simp add: DetermineTxType_def)
    next
      case ssgen: (2 e')
      then have n: "\<not> (voteReference tx \<and> length (txOut tx) = 1)" using pan by simp
      show ?thesis
      proof (cases "IsSSRtx tx" rule: check_cases)
        case 1
        with sstx ssgen n show ?thesis by (simp add: DetermineTxType_def)
      next
        case 2
        with sstx ssgen n show ?thesis by (simp add: DetermineTxType_def)
      qed (simp add: IsSSRtx_no_panic)
    next
      case 3
      then have n: "voteReference tx \<and> length (txOut tx) = 1" using pan by simp
      then have "IsSSRtx tx \<noteq> Inr ()" using r v by auto
      with sstx 3 n show ?thesis by (simp add: DetermineTxType_def)
    qed
  qed (simp add: IsSStx_no_panic)
qed

section \<open>Reading the commitments of a ticket\<close>

lemma slice_ok: "0 \<le> lo \<Longrightarrow> lo \<le> hi \<Longrightarrow> hi \<le> int (length xs) \<Longrightarrow> slice xs lo hi = Inr (take (nat (hi - lo)) (drop (nat lo) xs))"
  by (simp add: slice_def)

definition commitmentOf :: "bytes \<Rightarrow> bool \<times> bytes \<times> int \<times> bool list \<times> 16 word list" where
  "commitmentOf s = (s ! 29 AND 0x80 \<noteq> 0, take 20 (drop 2 s), leVal (take 7 (drop 22 s) @ [s ! 29 AND 0x7f]),
     let fl = leUint16 (take 2 (drop 30 s)) in [fl AND 0x40 = 0x40, fl AND 0x4000 = 0x4000],
     let fl = leUint16 (take 2 (drop 30 s)) in [fl AND 0x3f, drop_bit 8 (fl AND 0x3f00)])"

lemma amount_bytes:
  assumes "32 \<le> length s"
  shows "(take 8 (drop 22 s))[7 := s ! 29 AND NOT 0x80] = take 7 (drop 22 s) @ [s ! 29 AND 0x7f]"
    "sint (leUint64 (take 7 (drop 22 s) @ [s ! 29 AND 0x7f])) = leVal (take 7 (drop 22 s) @ [s ! 29 AND 0x7f])"
    "0 \<le> leVal (take 7 (drop 22 s) @ [s ! 29 AND 0x7f]) \<and> leVal (take 7 (drop 22 s) @ [s ! 29 AND 0x7f]) < 2 ^ 63"
proof -
  have n: "NOT 0x80 = (0x7f :: byte)" by simp
  have "take 8 (drop 22 s) = take 7 (drop 22 s) @ [s ! 29]" using assms take_Suc_conv_app_nth [of 7 "drop 22 s"] by simp
  then show "(take 8 (drop 22 s))[7 := s ! 29 AND NOT 0x80] = take 7 (drop 22 s) @ [s ! 29 AND 0x7f]" using assms by (simp only: n) (simp add: list_update_append)
  have l: "length (take 7 (drop 22 s)) = 7" using assms by simp
  have "leVal (take 7 (drop 22 s)) < 256 ^ 7" using leVal_less [of "take 7 (drop 22 s)"] l by simp
  moreover have "uint (s ! 29 AND 0x7f) \<le> 127" by (simp add: and_7f)
  ultimately show b: "0 \<le> leVal (take 7 (drop 22 s) @ [s ! 29 AND 0x7f]) \<and> leVal (take 7 (drop 22 s) @ [s ! 29 AND 0x7f]) < 2 ^ 63"
    using l by (simp add: leVal_append)
  then show "sint (leUint64 (take 7 (drop 22 s) @ [s ! 29 AND 0x7f])) = leVal (take 7 (drop 22 s) @ [s ! 29 AND 0x7f])"
    using wrap64_nonneg_id by (simp add: leUint64_def sint_sbintrunc' wrap64_def)
qed

lemma commitment_ok: "32 \<le> length s \<Longrightarrow> commitment s = Inr (commitmentOf s)"
  using amount_bytes [of s]
  by (simp add: commitment_def slice_ok at_def commitmentOf_def Let_def SStxVoteFractionFlag_def SStxRevFractionFlag_def
      SStxVoteReturnFractionMask_def SStxRevReturnFractionMask_def)

lemma AmountFromSStx_ok: "32 \<le> length s \<Longrightarrow> AmountFromSStxPkScrCommitment s = Inr (fst (snd (snd (commitmentOf s))))"
  using amount_bytes [of s] by (simp add: AmountFromSStxPkScrCommitment_def SStxPKHMinOutSize_def slice_ok at_def commitmentOf_def Let_def)

text \<open>What the loop has stored after \<open>k\<close> outputs.\<close>

definition infoAt :: "MinimalOutput list \<Rightarrow> nat \<Rightarrow> nat \<Rightarrow> sstxInfo \<Rightarrow> bool" where
  "infoAt outs n k info \<longleftrightarrow>
     length (si_isP2SH info) = n \<and> length (si_addresses info) = n \<and> length (si_amounts info) = n \<and> length (si_changeAmounts info) = n \<and>
     length (si_allSpendRules info) = n \<and> length (si_allSpendLimits info) = n \<and>
     (\<forall>i < n. 2 * i + 1 < k \<longrightarrow> (si_isP2SH info ! i, si_addresses info ! i, si_amounts info ! i, si_allSpendRules info ! i, si_allSpendLimits info ! i) =
        commitmentOf (mo_PkScript (outs ! (2 * i + 1)))) \<and>
     (\<forall>i < n. 2 * i + 2 < k \<longrightarrow> si_changeAmounts info ! i = mo_Value (outs ! (2 * i + 2)))"

lemma stakeOutputLoop_ok:
  "k + length rest = 2 * n + 1 \<Longrightarrow> rest = drop k outs \<Longrightarrow> length outs = 2 * n + 1 \<Longrightarrow> infoAt outs n k info \<Longrightarrow>
   (\<forall>i < n. 32 \<le> length (mo_PkScript (outs ! (2 * i + 1)))) \<Longrightarrow> \<exists>info'. stakeOutputLoop k rest info = (Inr info' :: ('e, sstxInfo) result) \<and> infoAt outs n (2 * n + 1) info'"
proof (induction rest arbitrary: k info)
  case (Cons out rest)
  have k: "k < length outs" "out = outs ! k" "rest = drop (Suc k) outs"
    using Cons.prems(1-3) by (auto simp: Cons_nth_drop_Suc list.inject dest: sym) (metis Cons_nth_drop_Suc drop_all list.distinct(1) list.inject not_le)+
  note info = Cons.prems(4) [unfolded infoAt_def]
  have "\<exists>info1. stakeOutputLoop k (out # rest) info = (stakeOutputLoop (k + 1) rest info1 :: ('e, sstxInfo) result) \<and> infoAt outs n (k + 1) info1"
  proof (cases "k mod 2 = 0")
    case even: True
    then have ne: "2 * i + 1 \<noteq> k" for i by presburger
    show ?thesis
    proof (cases "k = 0")
      case True
      with Cons.prems(4) have "infoAt outs n (k + 1) info" by (simp add: infoAt_def)
      then show ?thesis using True by auto
    next
      case False
      obtain i where i: "k = 2 * i + 2" using even False by (metis add_2_eq_Suc' dvd_imp_mod_0 even_Suc_Suc_iff evenE mod_0_imp_dvd not0_implies_Suc odd_one One_nat_def)
      then have d: "k div 2 - 1 = i" "i < n" using k(1) Cons.prems(3) by simp_all
      have "(2 * j + 2 < k + 1) = (2 * j + 2 < k \<or> j = i)" for j using i by presburger
      moreover have "(2 * j + 1 < k + 1) = (2 * j + 1 < k)" for j using ne [of j] by presburger
      ultimately have "infoAt outs n (k + 1) (info\<lparr>si_changeAmounts := (si_changeAmounts info)[i := mo_Value out]\<rparr>)"
        unfolding infoAt_def using info i d(2) k(2) by (auto simp: nth_list_update)
      then show ?thesis using even False d(1) by auto
    qed
  next
    case odd: False
    let ?i = "k div 2"
    have i: "?i < n" "2 * ?i + 1 = k" using odd k(1) Cons.prems(3) by presburger+
    have "32 \<le> length (mo_PkScript out)" using Cons.prems(5) i k(2) by metis
    from commitment_ok [OF this] obtain a b c d f where c: "commitment (mo_PkScript out) = (Inr (a, b, c, d, f) :: ('e, _) result)"
      "commitmentOf (mo_PkScript out) = (a, b, c, d, f)" by (metis prod_cases5)
    have "(2 * j + 1 < k + 1) = (2 * j + 1 < k \<or> j = ?i)" "(2 * j + 2 < k + 1) = (2 * j + 2 < k)" for j using i(2) by presburger+
    then have "infoAt outs n (k + 1) (info\<lparr>si_isP2SH := (si_isP2SH info)[?i := a], si_addresses := (si_addresses info)[?i := b],
        si_amounts := (si_amounts info)[?i := c], si_allSpendRules := (si_allSpendRules info)[?i := d], si_allSpendLimits := (si_allSpendLimits info)[?i := f]\<rparr>)"
      unfolding infoAt_def using info i c(2) k(2) by (auto simp: nth_list_update)
    then show ?thesis using odd c(1) by (auto simp: odd_pos)
  qed
  then obtain info1 where "stakeOutputLoop k (out # rest) info = (stakeOutputLoop (k + 1) rest info1 :: ('e, sstxInfo) result)" "infoAt outs n (k + 1) info1" by blast
  with Cons.IH [of "k + 1" info1] Cons.prems k(3) show ?case by simp
qed simp


text \<open>
  C18. What is read from a ticket: for a transaction that is recognised as a ticket the commitments can be
  read without leaving a script, one for each input, with an amount that is not negative and is the one
  \<^verbatim>\<open>AmountFromSStxPkScrCommitment\<close> gives, and the change amounts are those of the outputs that follow.
\<close>

theorem sstx_commitments_read:
  assumes "IsSStx tx = Inr ()"
  shows "\<exists>info. TxSStxStakeOutputInfo tx = (Inr info :: ('e, sstxInfo) result) \<and> length (si_isP2SH info) = length (txIn tx) \<and> length (si_addresses info) = length (txIn tx) \<and>
    length (si_amounts info) = length (txIn tx) \<and> length (si_changeAmounts info) = length (txIn tx) \<and>
    length (si_allSpendRules info) = length (txIn tx) \<and> length (si_allSpendLimits info) = length (txIn tx) \<and>
    (\<forall>i < length (txIn tx). let s = PkScript (txOut tx ! (2 * i + 1)) in
       (commitment s :: ('e, bool \<times> bytes \<times> int \<times> bool list \<times> 16 word list) result) = Inr (si_isP2SH info ! i, si_addresses info ! i, si_amounts info ! i, si_allSpendRules info ! i, si_allSpendLimits info ! i) \<and>
       AmountFromSStxPkScrCommitment s = Inr (si_amounts info ! i) \<and> 0 \<le> si_amounts info ! i \<and>
       si_changeAmounts info ! i = sint (txoValue (txOut tx ! (2 * i + 2))))"
proof -
  let ?n = "length (txIn tx)" and ?outs = "ConvertToMinimalOutputs tx"
  have ss: "length (txOut tx) = ?n * 2 + 1" "\<forall>j < length (txOut tx) - 1. sstxOutputOk (1 + j) (txOut tx ! (1 + j)) = Inr ()" using assms by (simp_all add: IsSStx_iff)
  have long: "32 \<le> length (PkScript (txOut tx ! (2 * i + 1)))" if "i < ?n" for i
  proof -
    have "sstxOutputOk (1 + 2 * i) (txOut tx ! (1 + 2 * i)) = Inr ()" using ss that by simp
    then show ?thesis by (simp add: sstxOutputOk_def Let_def bind_require SStxPKHMinOutSize_def split: if_splits)
  qed
  have outs: "length ?outs = 2 * ?n + 1" "\<And>j. j < 2 * ?n + 1 \<Longrightarrow> mo_PkScript (?outs ! j) = PkScript (txOut tx ! j) \<and> mo_Value (?outs ! j) = sint (txoValue (txOut tx ! j))"
    using ss(1) by (simp_all add: ConvertToMinimalOutputs_def)
  let ?info0 = "\<lparr>si_isP2SH = replicate ?n False, si_addresses = replicate ?n [], si_amounts = replicate ?n 0,
            si_changeAmounts = replicate ?n 0, si_allSpendRules = replicate ?n [], si_allSpendLimits = replicate ?n []\<rparr>"
  have "infoAt ?outs ?n 0 ?info0" by (simp add: infoAt_def)
  moreover have "\<forall>i < ?n. 32 \<le> length (mo_PkScript (?outs ! (2 * i + 1)))" using long outs(2) by simp
  ultimately obtain info where info: "stakeOutputLoop 0 ?outs ?info0 = (Inr info :: ('e, sstxInfo) result)" "infoAt ?outs ?n (2 * ?n + 1) info"
    using stakeOutputLoop_ok [of 0 ?outs ?n ?outs ?info0] outs(1) by auto
  have "(2 * ?n + 1) div 2 = ?n" by simp
  then have "TxSStxStakeOutputInfo tx = (Inr info :: ('e, sstxInfo) result)" using info(1) outs(1) by (simp add: TxSStxStakeOutputInfo_def SStxStakeOutputInfo_def Let_def)
  moreover have "let s = PkScript (txOut tx ! (2 * i + 1)) in
       (commitment s :: ('e, bool \<times> bytes \<times> int \<times> bool list \<times> 16 word list) result) = Inr (si_isP2SH info ! i, si_addresses info ! i, si_amounts info ! i, si_allSpendRules info ! i, si_allSpendLimits info ! i) \<and>
       AmountFromSStxPkScrCommitment s = Inr (si_amounts info ! i) \<and> 0 \<le> si_amounts info ! i \<and>
       si_changeAmounts info ! i = sint (txoValue (txOut tx ! (2 * i + 2)))" if i: "i < ?n" for i
  proof -
    let ?s = "PkScript (txOut tx ! (2 * i + 1))"
    have c: "(si_isP2SH info ! i, si_addresses info ! i, si_amounts info ! i, si_allSpendRules info ! i, si_allSpendLimits info ! i) = commitmentOf ?s"
      "si_changeAmounts info ! i = sint (txoValue (txOut tx ! (2 * i + 2)))"
      using info(2) i outs(2) by (simp_all add: infoAt_def)
    then have "si_amounts info ! i = fst (snd (snd (commitmentOf ?s)))" by (metis fst_conv snd_conv)
    moreover have "0 \<le> fst (snd (snd (commitmentOf ?s)))" using amount_bytes(3) [OF long [OF i]] by (simp add: commitmentOf_def)
    ultimately show ?thesis using c commitment_ok [OF long [OF i]] AmountFromSStx_ok [OF long [OF i]] by (simp add: Let_def)
  qed
  ultimately show ?thesis using info(2) by (intro exI [of _ info]) (simp add: infoAt_def)
qed

section \<open>Reading a vote\<close>

lemma IsSSGen_accepted: "IsSSGen tx = Inr () \<Longrightarrow> voteReference tx \<and> 2 \<le> length (txOut tx) \<and> voteRest tx"
  using vote_reference_needed [of tx] IsSSGen_rest(1) [of tx] by blast

lemma ssgen_accessors_safe:
  assumes "IsSSGen tx = Inr ()"
  shows "\<exists>blockHash h kh. SSGenBlockVotedOn tx = Inr (blockHash, h, kh) \<and> length blockHash = 32" "\<exists>bits. SSGenVoteBits tx = Inr bits" "\<exists>v. SSGenVersion tx = Inr v"
proof -
  have v: "length (PkScript (txOut tx ! 0)) = 42" "2 \<le> length (txOut tx)" "4 \<le> length (PkScript (txOut tx ! 1))" "txOut tx \<noteq> []"
    using IsSSGen_accepted [OF assms] by (auto simp: voteReference_def voteRest_def)
  show "\<exists>blockHash h kh. SSGenBlockVotedOn tx = Inr (blockHash, h, kh) \<and> length blockHash = 32"
    using v(1,4) by (simp add: SSGenBlockVotedOn_def at_def slice_ok)
  show "\<exists>bits. SSGenVoteBits tx = Inr bits" "\<exists>v. SSGenVersion tx = Inr v"
    using v(2,3) by (simp_all add: SSGenVoteBits_def SSGenVersion_def slice_ok at_def)
qed

section \<open>Rewards\<close>

lemma fold_wrap64:
  "0 \<le> acc \<Longrightarrow> \<forall>a \<in> set amounts. 0 \<le> a \<Longrightarrow> acc + sum_list amounts < 2 ^ 63 \<Longrightarrow> fold (\<lambda>amount acc. wrap64 (acc + amount)) amounts acc = acc + sum_list amounts"
proof (induction amounts arbitrary: acc)
  case (Cons a as)
  have "0 \<le> sum_list as" using Cons.prems(2) by (intro sum_list_nonneg) simp
  then have "wrap64 (acc + a) = acc + a" using Cons.prems by (intro wrap64_nonneg_id) simp_all
  with Cons show ?case by (simp add: add.assoc)
qed simp

lemma shift_div: "0 < t \<Longrightarrow> drop_bit 32 (push_bit 32 x div t) = x div (t :: int)"
  by (simp add: drop_bit_eq_div push_bit_eq_mult zdiv_zmult2_eq [symmetric] mult.commute [of t])

lemma share_bound: "0 \<le> a \<Longrightarrow> a \<le> t \<Longrightarrow> 0 < t \<Longrightarrow> 0 \<le> w \<Longrightarrow> 0 \<le> a * w div t \<and> a * w div t \<le> (w :: int)"
proof -
  assume a: "0 \<le> a" "a \<le> t" "0 < t" "0 \<le> w"
  then have "a * w \<le> t * w" by (intro mult_right_mono) simp_all
  then have "a * w div t \<le> t * w div t" using a(3) by (intro zdiv_mono1) simp_all
  with a show ?thesis by (simp add: pos_imp_zdiv_nonneg_iff)
qed

lemma rewardLoop_eq:
  "0 < t \<Longrightarrow> 0 \<le> w \<Longrightarrow> w < 2 ^ 63 \<Longrightarrow> \<forall>a \<in> set amounts. 0 \<le> a \<and> a \<le> t \<Longrightarrow> rewardLoop w t amounts = Inr (map (\<lambda>a. a * w div t) amounts)"
proof (induction amounts)
  case (Cons a as)
  have b: "0 \<le> a * w div t" "a * w div t < 2 ^ 63" using share_bound [of a t w] Cons.prems by auto
  have s: "sint (bigUint64 x) = x" if "0 \<le> x" "x < 2 ^ 63" for x
    using wrap64_nonneg_id [OF that] that by (simp add: bigUint64_def sint_sbintrunc' wrap64_def)
  from Cons s [OF b] show ?case by (simp add: bigDiv_def shift_div)
qed simp

lemma floor_sum:
  fixes t :: int
  assumes "0 < t"
  shows "t * sum_list (map (\<lambda>a. a * w div t) amounts) \<le> sum_list amounts * w"
    "amounts \<noteq> [] \<Longrightarrow> sum_list amounts * w < t * (sum_list (map (\<lambda>a. a * w div t) amounts) + int (length amounts))"
proof -
  have m: "t * (x div t) \<le> x" "x < t * (x div t) + t" for x
    using assms pos_mod_bound [of t x] pos_mod_sign [of t x] by (simp_all add: minus_mod_eq_mult_div [symmetric] algebra_simps)
  show "t * sum_list (map (\<lambda>a. a * w div t) amounts) \<le> sum_list amounts * w"
  proof (induction amounts)
    case (Cons a as)
    then show ?case using m(1) [of "a * w"] by (simp add: algebra_simps)
  qed simp
  show "amounts \<noteq> [] \<Longrightarrow> sum_list amounts * w < t * (sum_list (map (\<lambda>a. a * w div t) amounts) + int (length amounts))"
  proof (induction amounts)
    case (Cons a as)
    then show ?case using m(2) [of "a * w"] by (cases "as = []") (simp_all add: algebra_simps)
  qed simp
qed

text \<open>
  C17. Rewards: what a ticket pays is divided in proportion to the contributions, each share rounded down.
  The shares never add up to more than the price of the ticket with the subsidy, and fall short of it by less than
  one atom for each contributor.
\<close>

theorem rewards_conserve:
  assumes "\<forall>a \<in> set amounts. 0 \<le> a" "0 < sum_list amounts" "sum_list amounts < 2 ^ 63" "0 \<le> amountTicket + subsidy" "amountTicket + subsidy < 2 ^ 63"
  shows "\<exists>outs. CalculateRewards amounts amountTicket subsidy = Inr outs \<and>
    outs = map (\<lambda>a. a * (amountTicket + subsidy) div sum_list amounts) amounts \<and> (\<forall>x \<in> set outs. 0 \<le> x) \<and>
    sum_list outs \<le> amountTicket + subsidy \<and> amountTicket + subsidy < sum_list outs + int (length amounts)"
proof -
  let ?t = "sum_list amounts" and ?w = "amountTicket + subsidy"
  let ?outs = "map (\<lambda>a. a * ?w div ?t) amounts"
  have le: "\<forall>a \<in> set amounts. 0 \<le> a \<and> a \<le> ?t" using assms(1) member_le_sum_list [of _ amounts] by blast
  have "fold (\<lambda>amount acc. wrap64 (acc + amount)) amounts 0 = ?t" using fold_wrap64 [of 0 amounts] assms(1,3) by simp
  then have r: "CalculateRewards amounts amountTicket subsidy = Inr ?outs"
    using rewardLoop_eq [OF assms(2,4,5) le] wrap64_nonneg_id [OF assms(4,5)] by (simp add: CalculateRewards_def)
  have ne: "amounts \<noteq> []" using assms(2) by auto
  have "?t * sum_list ?outs \<le> ?t * ?w" "?t * ?w < ?t * (sum_list ?outs + int (length amounts))"
    using floor_sum [OF assms(2), where w = ?w and amounts = amounts] ne by auto
  then have "sum_list ?outs \<le> ?w" "?w < sum_list ?outs + int (length amounts)" using assms(2) by simp_all
  moreover have "\<forall>x \<in> set ?outs. 0 \<le> x" using le assms(2,4) share_bound by auto
  ultimately show ?thesis using r by blast
qed

theorem rewards_conserve_witness:
  "\<exists>outs. CalculateRewards [3, 4] 10 1 = (Inr outs :: (nat, int list) result) \<and> sum_list outs \<le> 11 \<and> 11 < sum_list outs + 2"
  using rewards_conserve [of "[3, 4]" 10 1] by auto

text \<open>A ticket whose contributions are all zero makes the division fail.\<close>

lemma rewards_zero_panics: "a # as = replicate (Suc n) 0 \<Longrightarrow> CalculateRewards (a # as) amountTicket subsidy = panic"
proof -
  assume "a # as = replicate (Suc n) 0"
  then have z: "a = 0" "as = replicate n 0" by simp_all
  have "fold (\<lambda>amount acc. wrap64 (acc + amount)) (replicate n 0) 0 = 0" by (induction n) (simp_all add: wrap64_def)
  then show ?thesis using z by (simp add: CalculateRewards_def bigDiv_def wrap64_def)
qed

section \<open>The amounts a vote or revocation may pay\<close>

text \<open>The least amount that may be paid out.\<close>

definition leastPaid :: "bool \<Rightarrow> 16 word \<Rightarrow> int \<Rightarrow> int" where
  "leastPaid rule limit calc = (if \<not> rule then calc else if limit < 63 then max 0 (calc - 2 ^ unat limit) else 0)"

lemma verifyAmount_iff:
  assumes "0 \<le> calc" "calc < 2 ^ 63"
  shows "verifyAmount rule limit calc amt = Inr () \<longleftrightarrow> leastPaid rule limit calc \<le> amt \<and> amt \<le> calc"
proof -
  have w: "wrap64 (calc - x) = calc - x" if "0 \<le> x" "x \<le> calc" for x using that assms by (intro wrap64_nonneg_id) simp_all
  have "wrap64 (calc - (if limit < 63 \<and> 2 ^ unat limit < calc then 2 ^ unat limit else calc)) = (if limit < 63 then max 0 (calc - 2 ^ unat limit) else 0)"
    using w [of "2 ^ unat limit"] w [of calc] assms(1) by (auto simp: max_def)
  then show ?thesis by (auto simp: verifyAmount_def leastPaid_def rangeLimitMax_def Let_def)
qed

lemma check_equal: "length ys = length xs \<Longrightarrow> checkEach (\<lambda>idx x. bindE (at ys (int idx)) (\<lambda>y. require (x = y) e)) 0 xs = Inr () \<longleftrightarrow> xs = ys"
  by (auto simp: checkEach_iff bindE_eq_Inr at_def list_eq_iff_nth_eq)

text \<open>
  C13. A vote or revocation is accepted exactly when it pays the parties of the ticket, in their order and in the
  form they asked for, and each of them no more than calculated and no less than the fee limit of
  its commitment allows.
\<close>

theorem verify_staking_iff:
  assumes "length spendRules = length ssSpendAmts" "length spendLimits = length ssSpendAmts"
    "\<forall>rs \<in> set spendRules. length rs = 2" "\<forall>ls \<in> set spendLimits. length ls = 2" "\<forall>c \<in> set ssSpendCalcAmts. 0 \<le> c \<and> c < 2 ^ 63"
  shows "VerifyStakingPkhsAndAmounts sstxTypes sstxPkhs ssSpendAmts ssSpendTypes ssSpendPkhs ssSpendCalcAmts isVote spendRules spendLimits = Inr () \<longleftrightarrow>
    ssSpendTypes = sstxTypes \<and> ssSpendPkhs = sstxPkhs \<and> length ssSpendAmts = length ssSpendCalcAmts \<and>
    (\<forall>i < length ssSpendAmts. let k = (if isVote then 0 else 1) in
       leastPaid (spendRules ! i ! k) (spendLimits ! i ! k) (ssSpendCalcAmts ! i) \<le> ssSpendAmts ! i \<and> ssSpendAmts ! i \<le> ssSpendCalcAmts ! i)"
proof -
  let ?k = "if isVote then 0 else 1 :: nat"
  have body: "bindE (at spendRules (int i)) (\<lambda>rules. bindE (at rules (if isVote then 0 else 1)) (\<lambda>rule.
             bindE (at spendLimits (int i)) (\<lambda>limits. bindE (at limits (if isVote then 0 else 1)) (\<lambda>limit.
             bindE (at ssSpendCalcAmts (int i)) (\<lambda>calc. verifyAmount rule limit calc amt))))) = Inr () \<longleftrightarrow>
      leastPaid (spendRules ! i ! ?k) (spendLimits ! i ! ?k) (ssSpendCalcAmts ! i) \<le> amt \<and> amt \<le> ssSpendCalcAmts ! i"
    if i: "i < length ssSpendAmts" "length ssSpendAmts = length ssSpendCalcAmts" for i amt
  proof -
    have "length (spendRules ! i) = 2" "length (spendLimits ! i) = 2" "0 \<le> ssSpendCalcAmts ! i \<and> ssSpendCalcAmts ! i < 2 ^ 63" using assms i by simp_all
    moreover from this have "spendRules ! i \<noteq> []" "spendLimits ! i \<noteq> []" by auto
    ultimately show ?thesis using assms(1,2) i verifyAmount_iff by (cases isVote) (simp_all add: at_def)
  qed
  show ?thesis
  proof (cases "length sstxTypes = length ssSpendTypes \<and> length ssSpendAmts = length ssSpendCalcAmts \<and> length sstxPkhs = length ssSpendPkhs")
    case False
    then show ?thesis by (auto simp: VerifyStakingPkhsAndAmounts_def)
  next
    case True
    then show ?thesis
      using check_equal [of ssSpendTypes sstxTypes ErrVerifyOutType] check_equal [of ssSpendPkhs sstxPkhs ErrVerifyOutPkhs] body
      by (auto simp: VerifyStakingPkhsAndAmounts_def bindE_eq_Inr checkEach_iff Let_def)
  qed
qed

theorem verify_staking_iff_witness:
  "VerifyStakingPkhsAndAmounts [False] [replicate 20 1] [90] [False] [replicate 20 1] [100] True [[True, False]] [[4, 0]] = Inr ()"
  using verify_staking_iff [of "[[True, False]]" "[90]" "[[4, 0]]" "[100]" "[False]" "[replicate 20 1]" "[False]" "[replicate 20 1]" True]
  by (simp add: leastPaid_def)


section \<open>A ticket and a vote that cannot be classified\<close>

definition sampleTicket :: MsgTx where
  "sampleTicket = NewMsgTx\<lparr>txIn := [zeroTxIn], txOut :=
     [NewTxOut 100 ([OP_SSTX, OP_DUP, OP_HASH160, OP_DATA_20] @ replicate 20 1 @ [OP_EQUALVERIFY, OP_CHECKSIG]),
      NewTxOut 0 ([OP_RETURN, 0x1e] @ replicate 20 1 @ [100, 0, 0, 0, 0, 0, 0, 0] @ [0, 0]),
      NewTxOut 7 ([OP_SSTXCHANGE, OP_DUP, OP_HASH160, OP_DATA_20] @ replicate 20 2 @ [OP_EQUALVERIFY, OP_CHECKSIG])]\<rparr>"

lemma sampleTicket_ok: "IsSStx sampleTicket = Inr ()"
  by code_simp

theorem sstx_commitments_read_witness:
  "\<exists>info. TxSStxStakeOutputInfo sampleTicket = (Inr info :: (nat, sstxInfo) result) \<and> length (si_amounts info) = 1 \<and> si_changeAmounts info ! 0 = 7"
proof -
  have l: "length (txIn sampleTicket) = 1" "sint (txoValue (txOut sampleTicket ! 2)) = 7" by (simp_all add: sampleTicket_def NewTxOut_def)
  obtain info where "TxSStxStakeOutputInfo sampleTicket = (Inr info :: (nat, sstxInfo) result)" "length (si_amounts info) = 1"
    "si_changeAmounts info ! 0 = sint (txoValue (txOut sampleTicket ! (2 * 0 + 2)))"
    using sstx_commitments_read [OF sampleTicket_ok, where 'e = nat] unfolding l(1) Let_def by blast
  with l(2) show ?thesis by (intro exI [of _ info]) (simp add: numeral_2_eq_2)
qed

text \<open>A stake base, a ticket and a single output that refers to a block: the check for a vote reads the second output.\<close>

definition oneOutputVote :: MsgTx where
  "oneOutputVote = NewMsgTx\<lparr>txIn := [zeroTxIn\<lparr>PreviousOutPoint := \<lparr>opHash = replicate 32 0, opIndex = - 1, opTree = 0\<rparr>, BlockIndex := 0xffffffff\<rparr>,
       zeroTxIn\<lparr>PreviousOutPoint := \<lparr>opHash = replicate 32 5, opIndex = 0, opTree = 1\<rparr>\<rparr>],
     txOut := [NewTxOut 0 ([OP_RETURN, 0x28] @ replicate 40 3)]\<rparr>"

lemma one_output_vote_panics: "DetermineTxType oneOutputVote = (panic :: (nat, TxType) result)"
  by code_simp

end
