(* ===== verification/Spec2Isabelle.thy ===== *)
theory Spec2Isabelle
  imports EngineProps TicketStore Compress StakeTx
begin

text \<open>
  Verification of the consensus core of hcashd, a node of a chain in which proof-of-work blocks are
  approved by tickets that are bought, drawn and spent through special transactions.

  \<^bold>\<open>The parts of the program and how they interact.\<close> Transactions and blocks arrive in their wire
  encoding (\<^verbatim>\<open>src/wire\<close>). Every input of a transaction carries a script, which the script engine
  (\<^verbatim>\<open>src/txscript\<close>) runs together with the script of the output it spends; signature opcodes hash a
  modified copy of the transaction and consult a cache of verified signatures. Outputs use a few
  standard scripts, from which addresses are read. A transaction whose outputs carry the stake
  opcodes is a ticket, a vote or a revocation (\<^verbatim>\<open>src/blockchain/stake/staketx.go\<close>). The tickets of the
  chain are kept in three treaps of a stake node, live, missed and revoked; connecting a block moves
  tickets between them and draws the winners of the next block by a lottery, disconnecting it moves
  them back, and both are mirrored in the buckets of the ticket database (\<^verbatim>\<open>src/blockchain/stake\<close>). The
  outputs that are still unspent are stored compressed (\<^verbatim>\<open>src/blockchain/compress.go\<close>).

  \<^bold>\<open>Conventions.\<close> Theory \<open>Prelude\<close> has the result type of Go code: a value, a returned error, or a
  panic (an index or slice out of range, a nil dereference, a division by zero). Every operation of
  the code is one definition with all its branches. Integers keep their width, as words or as
  \<open>int\<close> with the wrap-around written out. Slices are lists: the model keeps their contents and not
  the sharing of their memory, so the reuse of spare capacity by \<^verbatim>\<open>append\<close> (for instance in
  \<^verbatim>\<open>opcodeCat\<close>) is not visible. Go maps are association lists or functions; the choice that the order of
  an iteration makes, random priorities and the hash functions, curves and address packages that
  are not under \<^verbatim>\<open>src/\<close> or are pure arithmetic are arguments, and what a theorem needs of them is a named
  hypothesis (\<open>hashSizes\<close>, \<open>lawfulKeys\<close>, \<open>rebuilds\<close>, \<open>toldBySerialization\<close> and others).

  \<^bold>\<open>Encodings.\<close>
  \<^item> \<open>Wire\<close> models \<^verbatim>\<open>wire/common.go\<close>: fixed-width and variable length integers and byte strings. Its
    locale \<open>codec\<close> states the contract of a writer and a reader, that what is written is read back
    whatever follows and that what is accepted is the only encoding; it is interpreted for
    every element of the encodings, here, in \<open>MsgTx\<close> and in \<open>MsgBlock\<close>.
  \<^item> \<open>MsgTx\<close> (\<^verbatim>\<open>wire/msgtx.go\<close>) has the five serializations of a transaction, sizes, script locations,
    hashes and the copy: decoding inverts encoding on the carried part, accepted
    encodings are canonical, the transaction hash does not depend on witnesses.
  \<^item> \<open>MsgBlock\<close> (\<^verbatim>\<open>wire/blockheader.go\<close>, \<^verbatim>\<open>wire/msgblock.go\<close>): the same for headers and blocks, and the
    locations of transactions.
  \<^item> \<open>Compress\<close> (\<^verbatim>\<open>blockchain/compress.go\<close>): variable length quantities, scripts, amounts and outputs as the
    database stores them. Writers fill a slice that the caller sized; locale \<open>packed\<close> is the contract
    of size, writer and reader. The output round trip says for which scripts the stored script
    comes back: all but a pay to an alternative public key hash.

  \<^bold>\<open>Scripts.\<close>
  \<^item> \<open>ScriptNum\<close> and \<open>ScriptStack\<close> (\<^verbatim>\<open>scriptnum.go\<close>, \<^verbatim>\<open>stack.go\<close>): the numbers and the data stack, round trip
    and uniqueness of encodings, the documented effect of every stack operation.
  \<^item> \<open>Script\<close> (\<^verbatim>\<open>script.go\<close>, \<^verbatim>\<open>scriptbuilder.go\<close>, the table of \<^verbatim>\<open>opcode.go\<close>): parser, unparser, analyses and
    builder. Parser and unparser are inverse up to one byte of scripts of 26 bytes, which
    a special template of this chain reads differently; the theorems state that byte exactly.
  \<^item> \<open>ScriptStandard\<close> (\<^verbatim>\<open>standard.go\<close>): the classes, which exclude each other; the scripts paying to
    addresses, to multiple keys and to stake outputs, and what is extracted from them
    again, including the keys and addresses for which the code makes non-standard scripts.
  \<^item> \<open>SigHash\<close> (\<^verbatim>\<open>calcSignatureHash\<close>): a signature hash depends on the view that its type selects and on
    nothing else, and equal hashes have equal views up to collisions.
  \<^item> \<open>SigCache\<close> (\<^verbatim>\<open>sigcache.go\<close>): a bounded set, by the locale \<open>cache\<close>.
  \<^item> \<open>Engine\<close> (\<^verbatim>\<open>engine.go\<close>, the handlers of \<^verbatim>\<open>opcode.go\<close>): state, construction, every handler, \<^verbatim>\<open>Step\<close> and
    \<^verbatim>\<open>Execute\<close>. \<open>EngineSafe\<close> has a calculus of partial results and the bounds that each handler keeps;
    \<open>EngineRun\<close> has the invariant of reachable engines (\<open>reaches\<close>, a step relation), the absence of panics but for
    named causes, and termination; \<open>EngineProps\<close> has the signature encoding check, with the exact
    inputs on which it panics, and \<^verbatim>\<open>OP_CHECKMULTISIG\<close> under all flags and caches.

  \<^bold>\<open>Tickets.\<close>
  \<^item> \<open>TicketTreap\<close> (\<^verbatim>\<open>stake/internal/tickettreap\<close>): parent stack and both treaps, with the
    locales \<open>lifo\<close> and \<open>ticketMap\<close>; they refine a finite map whatever the priorities are.
  \<^item> \<open>Lottery\<close> (\<^verbatim>\<open>stake/lottery.go\<close>): the generator, unbiased draws, distinct indexes, winners.
  \<^item> \<open>TicketDb\<close> (\<^verbatim>\<open>stake/internal/ticketdb\<close>): serialized records and bucket operations; the transaction of the
    database is a map of buckets with the documented behaviour of that interface.
  \<^item> \<open>Tickets\<close> (\<^verbatim>\<open>stake/tickets.go\<close>): nodes, \<^verbatim>\<open>connectNode\<close>, \<^verbatim>\<open>disconnectNode\<close>, writing and loading. \<open>TicketMoves\<close>
    reads undo data as moves between three maps; its locale \<open>ticketStore\<close> is the interface of a place
    that holds tickets, interpreted by the treaps of a node there and by the buckets of the database
    in \<open>TicketStore\<close>. \<open>TicketChain\<close> defines the chains of nodes (\<open>onChain\<close>) and shows the invariant of every
    node, the exact effect of a block, and that disconnecting undoes connecting; \<open>TicketStore\<close> shows
    that the database follows the nodes and that a stored node is loaded back.
  \<^item> \<open>StakeTx\<close> (\<^verbatim>\<open>stake/staketx.go\<close>): recognition of the three stake transactions, their commitments, the division
    of rewards, and the check of payments with their fee limits as an equivalence.

  \<^bold>\<open>Loops.\<close> Loops are structural recursion or \<open>function\<close>s with a measure. Three may not end and are
  \<open>partial_function (option)\<close> with \<open>None\<close> for a run that does not return: \<open>executeLoop\<close>, which is proved
  to return for every engine that \<^verbatim>\<open>NewEngine\<close> makes, and \<open>rejectLoop\<close> and \<open>drawLoop\<close> of the lottery,
  which return when the generator gives enough different accepted values. No fuel is used.

  \<^bold>\<open>Not modelled.\<close> The block index, chain selection and contextual validation of blocks, the view of unspent
  outputs, difficulty, subsidy and votes on rule changes (the rest of \<^verbatim>\<open>src/blockchain\<close>), which
  work on a shared pointer structure, the clock and the block database; signing of scripts
  (\<^verbatim>\<open>txscript/sign.go\<close>); the other messages of the peer protocol; curve and lattice arithmetic (\<^verbatim>\<open>hcashec\<close>,
  \<^verbatim>\<open>chaincfg/chainec\<close>, \<^verbatim>\<open>crypto\<close>); storage (\<^verbatim>\<open>database\<close>); memory pool, miner, peers, RPC, configuration and tools,
  which are concurrent input and output. Disassembly, logging and the texts of errors are left out of
  the modelled files. Locks are not modelled: operations of the signature cache are atomic.
\<close>

end
